(* ===== verification/Siesta_Prelude.thy ===== *)
theory Siesta_Prelude
  imports Main "HOL-Library.AList" "HOL-Library.Sublist" "HOL-Library.Char_ord"
    "HOL-Library.List_Lexorder"
begin

text \<open>
  Shared vocabulary of the development: the string operations of the C++ standard library that
  the sources use (searching for a character or a substring, prefixes, splitting at a
  separator), hash maps with an arbitrary iteration order, decimal numerals, and a character
  codec interface with the round-trip facts every escaping routine needs.
\<close>

named_theorems str_simps \<open>characteristic equations of the string operations\<close>

section \<open>Searching and splitting strings\<close>

text \<open>
  \<open>split1 c s\<close> is the pair (\<open>s.substr(0, pos)\<close>, the rest after position \<open>pos\<close>) for
  \<open>pos = s.find(c)\<close>; the second component is \<open>None\<close> when \<open>pos\<close> is \<open>npos\<close>.
\<close>

fun split1 :: "'a \<Rightarrow> 'a list \<Rightarrow> 'a list \<times> 'a list option" where
  "split1 c [] = ([], None)"
| "split1 c (x # xs) =
     (if x = c then ([], Some xs) else (case split1 c xs of (t, r) \<Rightarrow> (x # t, r)))"

lemma split1_None_iff: "snd (split1 c s) = None \<longleftrightarrow> c \<notin> set s"
  by (induction s) (auto split: prod.splits)

lemma split1_fst_notin: "c \<notin> set (fst (split1 c s))"
  by (induction s) (auto split: prod.splits)

lemma split1_no_sep [str_simps]: "c \<notin> set s \<Longrightarrow> split1 c s = (s, None)"
  by (induction s) auto

lemma split1_append [str_simps]: "c \<notin> set s \<Longrightarrow> split1 c (s @ c # r) = (s, Some r)"
  by (induction s) auto

lemma split1_SomeD: "split1 c s = (t, Some r) \<Longrightarrow> s = t @ c # r \<and> c \<notin> set t"
  by (induction s arbitrary: t) (auto split: if_splits prod.splits)

lemma split1_NoneD: "split1 c s = (t, None) \<Longrightarrow> s = t \<and> c \<notin> set t"
  by (induction s arbitrary: t) (auto split: if_splits prod.splits)

lemma split1_length: "split1 c s = (t, Some r) \<Longrightarrow> length r < length s"
  by (auto dest: split1_SomeD)

text \<open>All the segments between separators; an empty string has one empty segment.\<close>

fun segs :: "'a \<Rightarrow> 'a list \<Rightarrow> 'a list list" where
  "segs c [] = [[]]"
| "segs c (x # xs) =
     (if x = c then [] # segs c xs else (case segs c xs of [] \<Rightarrow> [[x]] | w # ws \<Rightarrow> (x # w) # ws))"

lemma segs_not_Nil [simp]: "segs c s \<noteq> []"
  by (induction s) (auto split: list.splits)

lemma segs_no_sep [str_simps]: "c \<notin> set s \<Longrightarrow> segs c s = [s]"
  by (induction s) auto

lemma segs_append [str_simps]: "c \<notin> set s \<Longrightarrow> segs c (s @ c # r) = s # segs c r"
  by (induction s) auto

lemma segs_split1: "segs c s = (case split1 c s of (t, None) \<Rightarrow> [t] | (t, Some r) \<Rightarrow> t # segs c r)"
proof (cases "split1 c s")
  case (Pair t r)
  then show ?thesis
    by (cases r) (auto dest!: split1_SomeD split1_NoneD simp: str_simps)
qed

fun join :: "'a \<Rightarrow> 'a list list \<Rightarrow> 'a list" where
  "join c [] = []"
| "join c [w] = w"
| "join c (w # v # vs) = w @ c # join c (v # vs)"

lemma join_Cons: "ws \<noteq> [] \<Longrightarrow> join c (w # ws) = w @ c # join c ws"
  by (cases ws) auto

lemma join_segs [simp]: "join c (segs c s) = s"
proof (induction s)
  case Nil
  show ?case by simp
next
  case (Cons x xs)
  then show ?case
    by (cases "segs c xs"; cases "tl (segs c xs)") (auto simp: join_Cons)
qed

lemma segs_join: "ws \<noteq> [] \<Longrightarrow> \<forall>w \<in> set ws. c \<notin> set w \<Longrightarrow> segs c (join c ws) = ws"
  by (induction c ws rule: join.induct) (auto simp: str_simps)

lemma segs_inj: "segs c s = segs c t \<longleftrightarrow> s = t"
  by (metis join_segs)

lemma segs_notin: "w \<in> set (segs c s) \<Longrightarrow> c \<notin> set w"
  by (induction s arbitrary: w) (auto split: list.splits if_splits)

text \<open>\<open>find_sub p s\<close> is \<open>s.find(p)\<close>: the first position where \<open>p\<close> occurs, \<open>None\<close> for
  \<open>npos\<close>; \<open>contains_sub\<close> is the test \<open>s.find(p) != npos\<close>.\<close>

fun find_sub :: "'a list \<Rightarrow> 'a list \<Rightarrow> nat option" where
  "find_sub p [] = (if p = [] then Some 0 else None)"
| "find_sub p (x # xs) = (if prefix p (x # xs) then Some 0 else map_option Suc (find_sub p xs))"

definition contains_sub :: "'a list \<Rightarrow> 'a list \<Rightarrow> bool" where
  "contains_sub p s \<longleftrightarrow> find_sub p s \<noteq> None"

lemma find_sub_SomeD: "find_sub p s = Some n \<Longrightarrow> n + length p \<le> length s \<and> take (length p) (drop n s) = p"
proof (induction s arbitrary: n)
  case (Cons x xs)
  show ?case
  proof (cases "prefix p (x # xs)")
    case True
    with Cons.prems have "n = 0" by simp
    with True show ?thesis using prefix_length_le [OF True] by (auto simp: prefix_def)
  next
    case False
    with Cons show ?thesis by (auto split: if_splits)
  qed
qed (auto split: if_splits)

lemma contains_sub_iff: "contains_sub p s \<longleftrightarrow> (\<exists>u v. s = u @ p @ v)"
proof (induction s)
  case Nil
  show ?case by (auto simp: contains_sub_def)
next
  case (Cons x xs)
  have "contains_sub p (x # xs) \<longleftrightarrow> prefix p (x # xs) \<or> contains_sub p xs"
    by (auto simp: contains_sub_def)
  also have "\<dots> \<longleftrightarrow> (\<exists>u v. x # xs = u @ p @ v)"
    unfolding Cons.IH prefix_def by (metis append_Cons append_eq_Cons_conv append_Nil)
  finally show ?case .
qed

text \<open>\<open>replace_at s n k r\<close> is \<open>s.replace(n, k, r)\<close>.\<close>

definition replace_at :: "'a list \<Rightarrow> nat \<Rightarrow> nat \<Rightarrow> 'a list \<Rightarrow> 'a list" where
  "replace_at s n k r = take n s @ r @ drop (n + k) s"

section \<open>Hash maps and their iteration order\<close>

text \<open>
  A \<open>std::unordered_map\<close> is an association list with distinct keys, in the order the keys
  were first inserted; \<open>m[k] = v\<close> is \<open>AList.update\<close>. The order in which the standard library
  iterates over it is not specified: every definition that iterates takes a function \<open>it\<close>
  that reorders the list of keys, and \<open>hash_order it\<close> is all that is known of it.
\<close>

type_synonym ('k, 'v) umap = "('k \<times> 'v) list"

definition hash_order :: "('k list \<Rightarrow> 'k list) \<Rightarrow> bool" where
  "hash_order it \<longleftrightarrow> (\<forall>ks. distinct ks \<longrightarrow> distinct (it ks) \<and> set (it ks) = set ks)"

abbreviation keys :: "('k, 'v) umap \<Rightarrow> 'k list" where
  "keys m \<equiv> map fst m"

lemma hash_order_id: "hash_order id"
  by (simp add: hash_order_def)

lemma hash_order_rev: "hash_order rev"
  by (simp add: hash_order_def)

lemma hash_order_distinct: "hash_order it \<Longrightarrow> distinct ks \<Longrightarrow> distinct (it ks)"
  by (simp add: hash_order_def)

lemma hash_order_set: "hash_order it \<Longrightarrow> distinct ks \<Longrightarrow> set (it ks) = set ks"
  by (simp add: hash_order_def)

lemma map_of_update: "map_of (AList.update k v m) = (map_of m)(k \<mapsto> v)"
  by (simp add: update_conv')

text \<open>The keys as a set, kept folded so that the simplifier leaves it alone.\<close>

definition key_set :: "('k, 'v) umap \<Rightarrow> 'k set" where
  "key_set m = set (keys m)"

lemma key_set_Nil [simp]: "key_set [] = {}"
  by (simp add: key_set_def)

lemma key_set_update [simp]: "key_set (AList.update k v m) = insert k (key_set m)"
  by (simp add: key_set_def dom_update)

lemma key_set_iff: "k \<in> key_set m \<longleftrightarrow> map_of m k \<noteq> None"
  by (simp add: key_set_def map_of_eq_None_iff)

lemma finite_key_set [simp]: "finite (key_set m)"
  by (simp add: key_set_def)

lemma hash_order_key_set: "hash_order it \<Longrightarrow> distinct (keys m) \<Longrightarrow> set (it (keys m)) = key_set m"
  by (simp add: key_set_def hash_order_set)

lemma distinct_keys_update: "distinct (keys m) \<Longrightarrow> distinct (keys (AList.update k v m))"
  by (simp add: distinct_update)

section \<open>Decimal numerals\<close>

text \<open>\<open>std::to_string\<close> on unsigned and signed integers, and its inverse.\<close>

definition digit_char :: "nat \<Rightarrow> char" where
  "digit_char d = char_of (48 + d)"

definition char_digit :: "char \<Rightarrow> nat" where
  "char_digit c = of_char c - 48"

fun nat_to_string :: "nat \<Rightarrow> string" where
  "nat_to_string n =
     (if n < 10 then [digit_char n] else nat_to_string (n div 10) @ [digit_char (n mod 10)])"

declare nat_to_string.simps [simp del]

definition int_to_string :: "int \<Rightarrow> string" where
  "int_to_string i = (if i < 0 then CHR ''-'' # nat_to_string (nat (- i)) else nat_to_string (nat i))"

definition string_to_nat :: "string \<Rightarrow> nat" where
  "string_to_nat s = foldl (\<lambda>n c. 10 * n + char_digit c) 0 s"

definition string_to_int :: "string \<Rightarrow> int" where
  "string_to_int s = (case s of [] \<Rightarrow> 0
     | c # r \<Rightarrow> if c = CHR ''-'' then - int (string_to_nat r) else int (string_to_nat s))"

lemma digit_char_code: "d < 10 \<Longrightarrow> of_char (digit_char d) = 48 + d"
  by (simp add: digit_char_def)

lemma char_digit_char [simp]: "d < 10 \<Longrightarrow> char_digit (digit_char d) = d"
  by (simp add: char_digit_def digit_char_code)

lemma digit_char_range: "d < 10 \<Longrightarrow> CHR ''0'' \<le> digit_char d \<and> digit_char d \<le> CHR ''9''"
  by (simp add: less_eq_char_def digit_char_code)

lemma string_to_nat_to_string [simp]: "string_to_nat (nat_to_string n) = n"
proof (induction n rule: nat_to_string.induct)
  case (1 n)
  show ?case
  proof (cases "n < 10")
    case True
    then show ?thesis by (simp add: nat_to_string.simps [of n] string_to_nat_def)
  next
    case False
    with 1 show ?thesis by (simp add: nat_to_string.simps [of n] string_to_nat_def)
  qed
qed

lemma nat_to_string_digits: "c \<in> set (nat_to_string n) \<Longrightarrow> CHR ''0'' \<le> c \<and> c \<le> CHR ''9''"
proof (induction n rule: nat_to_string.induct)
  case (1 n)
  then show ?case
    by (cases "n < 10") (auto simp: nat_to_string.simps [of n] digit_char_range)
qed

lemma nat_to_string_not_Nil [simp]: "nat_to_string n \<noteq> []"
  by (subst nat_to_string.simps) simp

lemma nat_to_string_inj [simp]: "nat_to_string m = nat_to_string n \<longleftrightarrow> m = n"
  by (metis string_to_nat_to_string)

lemma minus_notin_digits: "CHR ''-'' \<notin> set (nat_to_string n)"
  using nat_to_string_digits [of "CHR ''-''" n] by (auto simp: less_eq_char_def)

lemma string_to_int_to_string [simp]: "string_to_int (int_to_string i) = i"
proof (cases "i < 0")
  case True
  then show ?thesis by (simp add: string_to_int_def int_to_string_def)
next
  case False
  obtain c r where cr: "nat_to_string (nat i) = c # r"
    by (metis nat_to_string_not_Nil neq_Nil_conv)
  with minus_notin_digits [of "nat i"] have "c \<noteq> CHR ''-''" by auto
  with cr have "string_to_int (nat_to_string (nat i)) = int (string_to_nat (nat_to_string (nat i)))"
    by (simp add: string_to_int_def)
  with False show ?thesis by (simp add: int_to_string_def)
qed

section \<open>Character codecs\<close>

text \<open>
  The contract of an escaping routine that works character by character: a reader that takes
  back the image of one character and continues. Every such routine is injective and read
  back exactly.
\<close>

locale char_codec =
  fixes enc :: "char \<Rightarrow> string" and dec :: "string \<Rightarrow> string"
  assumes dec_Nil: "dec [] = []"
    and dec_enc: "dec (enc c @ s) = c # dec s"
begin

lemma roundtrip: "dec (concat (map enc s)) = s"
  by (induction s) (simp_all add: dec_Nil dec_enc)

lemma injective: "concat (map enc s) = concat (map enc t) \<longleftrightarrow> s = t"
  by (metis roundtrip)

lemma enc_not_Nil: "enc c \<noteq> []"
proof
  assume "enc c = []"
  then have "dec [] = c # dec []" using dec_enc [of c "[]"] by simp
  then show False by simp
qed

lemma length_ge: "length s \<le> length (concat (map enc s))"
proof (induction s)
  case (Cons c s)
  have "0 < length (enc c)" using enc_not_Nil by (rule length_greater_0_conv [THEN iffD2])
  with Cons show ?case by (simp only: list.map concat.simps length_append list.size)
qed simp

end

text \<open>A character-wise translation keeps every property of the characters it emits.\<close>

lemma set_concat_map: "set (concat (map f s)) = (\<Union>c \<in> set s. set (f c))"
  by (induction s) auto

lemma concat_if_Nil [simp]:
  "concat (map (\<lambda>x. if P x then [f x] else []) xs) = [] \<longleftrightarrow> (\<forall>x \<in> set xs. \<not> P x)"
  by (induction xs) auto

lemma length_concat_map_le: "\<forall>c \<in> set s. length (f c) \<le> k \<Longrightarrow> length (concat (map f s)) \<le> k * length s"
  by (induction s) auto

end
