(* ===== verification/Path_Tree.thy ===== *)
theory Path_Tree
  imports Siesta_Prelude
begin

text \<open>
  \<open>include/siesta/path_tree.hpp\<close>: the tree of path tokens with an optional value at each node.
  A node owns its children, so the tree is a datatype; \<open>insert\<close>, which mutates in place and
  returns whether the path was placed, returns the new node beside that flag. The members
  \<open>sort\<close> and \<open>wildcard_contains\<close> do not compile when instantiated (they apply a member to a
  \<open>unique_ptr\<close>, and omit a mandatory argument) and have no definition.
\<close>

section \<open>The tree and its operations\<close>

datatype 'v node = Node (node_key: string) (node_value: "'v option") (node_children: "'v node list")

definition wildcard :: string where
  "wildcard = ''*''"

definition slash :: char where
  "slash = CHR ''/''"

text \<open>The loops over the children return the first result that has a value.\<close>

fun first_some :: "'a option list \<Rightarrow> 'a option" where
  "first_some [] = None"
| "first_some (x # xs) = (case x of None \<Rightarrow> first_some xs | Some v \<Rightarrow> Some v)"

fun at :: "'v node \<Rightarrow> string \<Rightarrow> 'v option" where
  "at (Node k v cs) path =
     (case split1 slash path of (token, pos) \<Rightarrow>
        if k = token then
          (case pos of None \<Rightarrow> v | Some rest \<Rightarrow> first_some (map (\<lambda>c. at c rest) cs))
        else None)"

definition const_at :: "'v node \<Rightarrow> string \<Rightarrow> 'v option" where
  "const_at n path =
     (case split1 slash path of (token, pos) \<Rightarrow>
        if node_key n = token then
          (case pos of None \<Rightarrow> node_value n
           | Some rest \<Rightarrow> first_some (map (\<lambda>c. at c rest) (node_children n)))
        else None)"

text \<open>\<open>at_wildcard\<close> also reports the tokens given to its callback, in order.\<close>

definition at_wildcard :: "'v node \<Rightarrow> string \<Rightarrow> string list \<times> 'v option" where
  "at_wildcard n path =
     (case split1 slash path of (token, pos) \<Rightarrow>
        if node_key n = token \<or> node_key n = wildcard then
          ([token],
           case pos of None \<Rightarrow> node_value n
           | Some rest \<Rightarrow> first_some (map (\<lambda>c. at c rest) (node_children n)))
        else ([], None))"

function insert_path :: "'v node \<Rightarrow> string \<Rightarrow> 'v option \<Rightarrow> 'v node \<times> bool"
  and insert_any :: "'v node list \<Rightarrow> string \<Rightarrow> 'v option \<Rightarrow> 'v node list \<times> bool" where
  "insert_path (Node k v cs) path val =
     (case split1 slash path of (token, pos) \<Rightarrow>
        if k = token then
          (case pos of
             None \<Rightarrow> (Node k val cs, True)
           | Some rest \<Rightarrow>
              (case insert_any cs rest val of (cs', inserted) \<Rightarrow>
                 if inserted then (Node k v cs', True)
                 else (case insert_path (Node (fst (split1 slash rest)) None []) rest val of
                     (n, r) \<Rightarrow> (Node k v (cs' @ [n]), r))))
        else (Node k v cs, False))"
| "insert_any [] path val = ([], False)"
| "insert_any (c # cs) path val =
     (case insert_path c path val of (c', r) \<Rightarrow>
        if r then (c' # cs, True)
        else (case insert_any cs path val of (cs', r') \<Rightarrow> (c' # cs', r')))"
  by pat_completeness auto
termination
  by (relation "measures [\<lambda>x. case x of Inl (_, p, _) \<Rightarrow> length p | Inr (_, p, _) \<Rightarrow> length p,
      \<lambda>x. case x of Inl _ \<Rightarrow> 0 | Inr (cs, _, _) \<Rightarrow> Suc (length cs)]")
    (auto dest: split1_length [OF sym])

definition insert_node :: "'v node \<Rightarrow> string \<Rightarrow> 'v option \<Rightarrow> 'v node" where
  "insert_node n path val = fst (insert_path n path val)"

fun contains :: "'v node \<Rightarrow> string \<Rightarrow> bool" where
  "contains (Node k v cs) path =
     (case split1 slash path of (token, pos) \<Rightarrow>
        if k = token \<or> k = wildcard then
          (case pos of None \<Rightarrow> True | Some rest \<Rightarrow> list_ex (\<lambda>c. contains c rest) cs)
        else False)"

definition contains_value :: "'v node \<Rightarrow> string \<Rightarrow> 'v \<Rightarrow> bool" where
  "contains_value n path val =
     (case const_at n path of None \<Rightarrow> False | Some v \<Rightarrow> v = val)"

fun node_size :: "'v node \<Rightarrow> nat" where
  "node_size (Node k v cs) =
     (let ret = sum_list (map node_size cs) in if ret = 0 then 1 else ret)"

definition node_of_key :: "string \<Rightarrow> 'v node" where
  "node_of_key key = Node key None []"

text \<open>The constructor from an initializer list.\<close>

definition node_of_list :: "(string \<times> 'v) list \<Rightarrow> 'v node" where
  "node_of_list init = foldl (\<lambda>n (k, v). insert_node n k (Some v)) (node_of_key []) init"

section \<open>Matching, and what insertion changes\<close>

text \<open>A node is concerned by a path when its key is the path's first token.\<close>

definition matches :: "'v node \<Rightarrow> string \<Rightarrow> bool" where
  "matches n path \<longleftrightarrow> node_key n = fst (split1 slash path)"

declare at.simps [simp del] insert_path.simps [simp del] contains.simps [simp del]

lemma at_token: "\<not> matches n path \<Longrightarrow> at n path = None"
  by (cases n) (auto simp: at.simps matches_def split: prod.splits)

lemma at_leaf: "split1 slash path = (k, None) \<Longrightarrow> at (Node k v cs) path = v"
  by (simp add: at.simps)

lemma at_step: "split1 slash path = (k, Some rest) \<Longrightarrow>
    at (Node k v cs) path = first_some (map (\<lambda>c. at c rest) cs)"
  by (simp add: at.simps)

lemmas at_eqs = at_token at_leaf at_step

lemma insert_path_mismatch: "\<not> matches n path \<Longrightarrow> insert_path n path val = (n, False)"
  by (cases n) (auto simp: insert_path.simps matches_def split: prod.splits)

lemma insert_any_mismatch:
  "(\<forall>c \<in> set cs. \<not> matches c path) \<Longrightarrow> insert_any cs path val = (cs, False)"
  by (induction cs) (auto simp: insert_path_mismatch)

lemma insert_path_key: "node_key (fst (insert_path n path val)) = node_key n"
  by (cases n) (auto simp: insert_path.simps split: prod.splits option.splits if_splits)

lemma insert_path_placed: "snd (insert_path n path val) \<longleftrightarrow> matches n path"
  and insert_any_placed: "snd (insert_any cs path val) \<longleftrightarrow> (\<exists>c \<in> set cs. matches c path)"
proof (induction n path val and cs path val rule: insert_path_insert_any.induct)
  case (1 k v cs path val)
  obtain token pos where sp: "split1 slash path = (token, pos)" by fastforce
  show ?case
  proof (cases "k = token \<and> pos \<noteq> None")
    case True
    then obtain rest where rest: "pos = Some rest" and k: "k = token" by auto
    obtain cs' r where any: "insert_any cs rest val = (cs', r)" by fastforce
    have "matches (Node (fst (split1 slash rest)) None [] :: 'a node) rest"
      by (simp add: matches_def)
    with "1.IH"(2) [OF sp [symmetric] k rest any [symmetric]]
    have "\<not> r \<Longrightarrow> snd (insert_path (Node (fst (split1 slash rest)) None []) rest val)"
      by simp
    with k sp rest any show ?thesis
      by (subst insert_path.simps) (auto simp: matches_def split: prod.splits)
  next
    case False
    with sp show ?thesis by (subst insert_path.simps) (auto simp: matches_def)
  qed
next
  case (2 path val)
  show ?case by simp
next
  case (3 c cs path val)
  obtain c' r where c: "insert_path c path val = (c', r)" by fastforce
  with "3.IH"(1) have "r \<longleftrightarrow> matches c path" by simp
  with c "3.IH"(2) [OF c [symmetric]] show ?case
    by (cases r) (auto split: prod.splits)
qed

text \<open>The child that takes the path is the first one whose key is its first token.\<close>

lemma insert_any_split:
  assumes "\<exists>c \<in> set cs. matches c path"
  obtains xs c ys where "cs = xs @ c # ys" "\<forall>x \<in> set xs. \<not> matches x path" "matches c path"
    "insert_any cs path val = (xs @ insert_node c path val # ys, True)"
proof -
  obtain xs c ys where cs: "cs = xs @ c # ys" "\<forall>x \<in> set xs. \<not> matches x path" "matches c path"
    using split_list_first_prop [OF assms] by blast
  have "insert_any (xs @ c # ys) path val = (xs @ insert_node c path val # ys, True)"
    using cs(2,3)
  proof (induction xs)
    case Nil
    then have "snd (insert_path c path val)" by (simp add: insert_path_placed)
    then show ?case by (cases "insert_path c path val") (simp add: insert_node_def)
  next
    case (Cons x xs)
    then show ?case by (simp add: insert_path_mismatch)
  qed
  with cs that show ?thesis by blast
qed

lemma insert_node_mismatch: "\<not> matches n path \<Longrightarrow> insert_node n path val = n"
  by (simp add: insert_node_def insert_path_mismatch)

lemma insert_node_leaf:
  "split1 slash path = (k, None) \<Longrightarrow> insert_node (Node k v cs) path val = Node k val cs"
  by (simp add: insert_node_def insert_path.simps)

lemma insert_node_child:
  "split1 slash path = (k, Some rest) \<Longrightarrow> insert_any cs rest val = (cs', True) \<Longrightarrow>
   insert_node (Node k v cs) path val = Node k v cs'"
  by (simp add: insert_node_def insert_path.simps)

lemma insert_node_fresh:
  assumes "split1 slash path = (k, Some rest)" and "\<forall>c \<in> set cs. \<not> matches c rest"
  shows "insert_node (Node k v cs) path val
    = Node k v (cs @ [insert_node (node_of_key (fst (split1 slash rest))) rest val])"
  using assms
  by (simp add: insert_node_def insert_path.simps insert_any_mismatch node_of_key_def
      split: prod.splits)

text \<open>
  The case analysis every proof about insertion follows: the path ends at this node, or it
  continues in an existing child, or in a new one.
\<close>

lemma insert_node_cases:
  assumes "matches n path"
  obtains (leaf) k v cs where "n = Node k v cs" "split1 slash path = (k, None)"
      "insert_node n path val = Node k val cs"
  | (child) k v xs c ys rest where "n = Node k v (xs @ c # ys)"
      "split1 slash path = (k, Some rest)" "\<forall>x \<in> set xs. \<not> matches x rest" "matches c rest"
      "insert_node n path val = Node k v (xs @ insert_node c rest val # ys)"
  | (fresh) k v cs rest where "n = Node k v cs" "split1 slash path = (k, Some rest)"
      "\<forall>x \<in> set cs. \<not> matches x rest"
      "insert_node n path val
        = Node k v (cs @ [insert_node (node_of_key (fst (split1 slash rest))) rest val])"
proof (cases n)
  case (Node k v cs)
  with assms obtain pos where sp: "split1 slash path = (k, pos)"
    by (cases "split1 slash path") (auto simp: matches_def)
  show thesis
  proof (cases pos)
    case None
    with Node sp leaf show thesis by (auto simp: insert_node_leaf)
  next
    case (Some rest)
    show thesis
    proof (cases "\<exists>c \<in> set cs. matches c rest")
      case True
      then obtain xs c ys where "cs = xs @ c # ys" "\<forall>x \<in> set xs. \<not> matches x rest"
        "matches c rest" "insert_any cs rest val = (xs @ insert_node c rest val # ys, True)"
        by (rule insert_any_split)
      with Node sp Some child show thesis by (auto simp: insert_node_child)
    next
      case False
      with Node sp Some fresh show thesis by (auto simp: insert_node_fresh)
    qed
  qed
qed

lemma matches_node_of_key: "matches (node_of_key (fst (split1 slash path))) path"
  by (simp add: matches_def node_of_key_def)

lemma matches_insert_node [simp]: "matches (insert_node n p val) q \<longleftrightarrow> matches n q"
  by (simp add: matches_def insert_node_def insert_path_key)

lemma first_some_append:
  "first_some (xs @ ys) = (case first_some xs of None \<Rightarrow> first_some ys | Some v \<Rightarrow> Some v)"
  by (induction xs) (auto split: option.splits)

lemma first_some_None: "first_some xs = None \<longleftrightarrow> (\<forall>x \<in> set xs. x = None)"
  by (induction xs) (auto split: option.splits)

lemma at_node_of_key [simp]: "at (node_of_key k) path = None"
  by (auto simp: at.simps node_of_key_def split: prod.splits option.splits)


section \<open>Lookup after insertion\<close>

lemma first_some_skip [simp]: "first_some xs = None \<Longrightarrow> first_some (xs @ ys) = first_some ys"
  by (simp add: first_some_append)

lemma unmatched_children [simp]:
  "\<forall>x \<in> set xs. \<not> matches x rest \<Longrightarrow> first_some (map (\<lambda>c. at c rest) xs) = None"
  by (auto simp: first_some_None at_token)

lemma at_insert_same:
  "matches n path \<Longrightarrow> at (insert_node n path (Some v)) path = Some v"
proof (induction path arbitrary: n rule: length_induct)
  case (1 path)
  show ?case
    using "1.prems"
  proof (cases rule: insert_node_cases [where val = "Some v"])
    case leaf
    then show ?thesis by (simp add: at_leaf)
  next
    case (child k w xs c ys rest)
    with "1.IH" have "at (insert_node c rest (Some v)) rest = Some v"
      by (auto dest: split1_length)
    with child show ?thesis by (simp add: at_step)
  next
    case (fresh k w cs rest)
    let ?n = "node_of_key (fst (split1 slash rest))"
    from fresh "1.IH" have "at (insert_node ?n rest (Some v)) rest = Some v"
      by (auto dest: split1_length simp: matches_node_of_key)
    with fresh show ?thesis by (simp add: at_step)
  qed
qed

text \<open>A lookup below a node depends on the children's lookups only.\<close>

lemma at_children_cong:
  assumes "\<And>rest. split1 slash q = (k, Some rest) \<Longrightarrow>
      first_some (map (\<lambda>c. at c rest) cs) = first_some (map (\<lambda>c. at c rest) ds)"
  shows "at (Node k v cs) q = at (Node k v ds) q"
  using assms by (cases "split1 slash q") (auto simp: at.simps split: option.splits)

lemma at_insert_other:
  "q \<noteq> path \<Longrightarrow> at (insert_node n path val) q = at n q"
proof (induction path arbitrary: n q rule: length_induct)
  case (1 path)
  have diff: "rq \<noteq> rest" if "split1 slash path = (k, Some rest)" "split1 slash q = (k, Some rq)"
    for k rest rq
    using that "1.prems" by (auto dest!: split1_SomeD)
  have IH: "at (insert_node c rest val) rq = at c rq"
    if "split1 slash path = (k, Some rest)" "rq \<noteq> rest" for c k rest rq
    using that "1.IH" by (auto dest: split1_length)
  show ?case
  proof (cases "matches n path")
    case False
    then show ?thesis by (simp add: insert_node_mismatch)
  next
    case True
    then show ?thesis
    proof (cases rule: insert_node_cases [where val = val])
      case (leaf k v cs)
      with "1.prems" show ?thesis
        by (cases "split1 slash q") (auto simp: at.simps dest!: split1_NoneD split: option.splits)
    next
      case (child k v xs c ys rest)
      have "at (Node k v (xs @ insert_node c rest val # ys)) q = at (Node k v (xs @ c # ys)) q"
      proof (rule at_children_cong)
        fix rq
        assume "split1 slash q = (k, Some rq)"
        then have "at (insert_node c rest val) rq = at c rq"
          using child(2) by (intro IH diff)
        then show "first_some (map (\<lambda>c. at c rq) (xs @ insert_node c rest val # ys))
          = first_some (map (\<lambda>c. at c rq) (xs @ c # ys))"
          by (simp add: first_some_append)
      qed
      with child show ?thesis by simp
    next
      case (fresh k v cs rest)
      let ?n = "node_of_key (fst (split1 slash rest)) :: 'a node"
      have "at (Node k v (cs @ [insert_node ?n rest val])) q = at (Node k v cs) q"
      proof (rule at_children_cong)
        fix rq
        assume "split1 slash q = (k, Some rq)"
        then have "at (insert_node ?n rest val) rq = at ?n rq"
          using fresh(2) by (intro IH diff)
        then show "first_some (map (\<lambda>c. at c rq) (cs @ [insert_node ?n rest val]))
          = first_some (map (\<lambda>c. at c rq) cs)"
          by (simp add: first_some_append split: option.splits)
      qed
      with fresh show ?thesis by simp
    qed
  qed
qed

section \<open>Well-formed trees\<close>

text \<open>Siblings have distinct keys; insertion keeps it so.\<close>

fun wf_node :: "'v node \<Rightarrow> bool" where
  "wf_node (Node k v cs) \<longleftrightarrow> distinct (map node_key cs) \<and> list_all wf_node cs"

lemma wf_node_of_key [simp]: "wf_node (node_of_key k)"
  by (simp add: node_of_key_def)

lemma node_key_insert_node [simp]: "node_key (insert_node n p val) = node_key n"
  by (simp add: insert_node_def insert_path_key)

lemma wf_insert_node: "wf_node n \<Longrightarrow> wf_node (insert_node n path val)"
proof (induction path arbitrary: n rule: length_induct)
  case (1 path)
  show ?case
  proof (cases "matches n path")
    case False
    with "1.prems" show ?thesis by (simp add: insert_node_mismatch)
  next
    case True
    then show ?thesis
    proof (cases rule: insert_node_cases [where val = val])
      case leaf
      with "1.prems" show ?thesis by simp
    next
      case child
      with "1.prems" "1.IH" show ?thesis by (auto dest: split1_length)
    next
      case (fresh k v cs rest)
      then have "fst (split1 slash rest) \<notin> node_key ` set cs"
        by (auto simp: matches_def)
      with fresh "1.prems" "1.IH" show ?thesis
        by (auto dest: split1_length simp: node_of_key_def)
    qed
  qed
qed

lemma at_insert_None:
  "matches n path \<Longrightarrow> wf_node n \<Longrightarrow> at (insert_node n path None) path = None"
proof (induction path arbitrary: n rule: length_induct)
  case (1 path)
  show ?case
    using "1.prems"(1)
  proof (cases rule: insert_node_cases [where val = None])
    case leaf
    then show ?thesis by (simp add: at_leaf)
  next
    case (child k w xs c ys rest)
    with "1.prems"(2) have "wf_node c" "node_key c \<notin> node_key ` set ys"
      by simp_all
    with child(4) have "\<forall>y \<in> set ys. \<not> matches y rest"
      by (metis imageI matches_def)
    then have "first_some (map (\<lambda>c. at c rest) ys) = None"
      by (auto simp: first_some_None at_token)
    moreover have "at (insert_node c rest None) rest = None"
      by (rule "1.IH" [rule_format, OF split1_length [OF child(2)] child(4) \<open>wf_node c\<close>])
    ultimately show ?thesis using child by (simp add: at_step)
  next
    case (fresh k w cs rest)
    let ?n = "node_of_key (fst (split1 slash rest)) :: 'a node"
    have "at (insert_node ?n rest None) rest = None"
      by (rule "1.IH" [rule_format, OF split1_length [OF fresh(2)] matches_node_of_key wf_node_of_key])
    with fresh show ?thesis by (simp add: at_step)
  qed
qed


section \<open>The tree as a store of paths\<close>

text \<open>
  What a client of the tree relies on: an accepted insertion is a point update of the lookup
  function, a rejected one changes nothing, and the invariant is kept.
\<close>

locale path_store =
  fixes look :: "'t \<Rightarrow> string \<Rightarrow> 'v option"
    and ins :: "'t \<Rightarrow> string \<Rightarrow> 'v option \<Rightarrow> 't"
    and accepts :: "'t \<Rightarrow> string \<Rightarrow> bool"
    and inv :: "'t \<Rightarrow> bool"
  assumes look_ins: "inv t \<Longrightarrow> accepts t p \<Longrightarrow> look (ins t p v) = (look t)(p := v)"
    and ins_reject: "\<not> accepts t p \<Longrightarrow> ins t p v = t"
    and inv_ins: "inv t \<Longrightarrow> inv (ins t p v)"
    and accepts_ins: "accepts (ins t p v) q = accepts t q"
begin

lemma ins_commute:
  assumes "inv t" and "p \<noteq> q"
  shows "look (ins (ins t p v) q w) = look (ins (ins t q w) p v)"
  using assms
  by (cases "accepts t p"; cases "accepts t q")
    (auto simp: look_ins ins_reject inv_ins accepts_ins)

lemma inv_foldl: "inv t \<Longrightarrow> inv (foldl (\<lambda>t (k, v). ins t k (Some v)) t kvs)"
  by (induction kvs arbitrary: t) (auto simp: inv_ins)

lemma look_foldl:
  "inv t \<Longrightarrow> look (foldl (\<lambda>t (k, v). ins t k (Some v)) t kvs) p =
     (if accepts t p then (case map_of (rev kvs) p of None \<Rightarrow> look t p | Some v \<Rightarrow> Some v)
      else look t p)"
proof (induction kvs arbitrary: t)
  case Nil
  show ?case by simp
next
  case (Cons kv kvs)
  obtain k v where kv: "kv = (k, v)" by fastforce
  have "look (ins t k (Some v)) p = (if k = p \<and> accepts t p then Some v else look t p)"
    using Cons.prems by (cases "accepts t k") (auto simp: look_ins ins_reject)
  with Cons kv show ?case
    by (auto simp: inv_ins accepts_ins map_add_def split: option.splits)
qed

end

interpretation tree: path_store at insert_node matches wf_node
proof unfold_locales
  fix t :: "'b node" and p v
  assume "wf_node t" "matches t p"
  then show "at (insert_node t p v) = (at t)(p := v)"
    by (cases v) (auto simp: at_insert_same at_insert_None at_insert_other)
qed (auto simp: insert_node_mismatch wf_insert_node)

lemma const_at_eq: "const_at n p = at n p"
  by (cases n) (auto simp: const_at_def at.simps split: prod.splits option.splits)

lemma matches_root: "matches (node_of_key []) p \<longleftrightarrow> fst (split1 slash p) = []"
  by (auto simp: matches_def node_of_key_def)

text \<open>
  C16: refinement of \<open>insert\<close>. On a tree with distinct sibling keys, inserting a value (or
  clearing one) is a point update of the lookup function when the path starts with the root's
  token, and changes nothing otherwise; the tree stays well formed and the flag that is
  returned says which case it was.
\<close>

theorem insert_refines_update:
  assumes "wf_node n"
  shows "at (insert_node n path val) = (if matches n path then (at n)(path := val) else at n)
    \<and> wf_node (insert_node n path val)
    \<and> snd (insert_path n path val) = matches n path"
  using assms tree.look_ins tree.inv_ins
  by (auto simp: insert_path_placed insert_node_mismatch)

text \<open>A tree with two siblings, for the witnesses.\<close>

definition sample_tree :: "nat node" where
  "sample_tree = Node [] None [Node ''api'' (Some 1) [Node ''v3'' (Some 2) []], Node ''ping'' None []]"

theorem insert_refines_update_witness:
  "wf_node sample_tree \<and> at (insert_node sample_tree ''/api/v3'' (Some 7)) ''/api/v3'' = Some 7"
proof -
  have "wf_node sample_tree" by (simp add: sample_tree_def)
  moreover have "matches sample_tree ''/api/v3''" by (simp add: matches_def sample_tree_def slash_def)
  ultimately show ?thesis
    using insert_refines_update [of sample_tree "''/api/v3''" "Some 7"] by simp
qed

text \<open>
  The tree built from an initializer list maps a path that starts with the empty root
  token (\<open>"/\<dots>"\<close>) to the last value the list gives it, and no other path to anything.
\<close>

lemma node_of_list_lookup:
  "at (node_of_list init) path =
     (if fst (split1 slash path) = [] then map_of (rev init) path else None)
   \<and> wf_node (node_of_list init)"
  unfolding node_of_list_def
  by (auto simp: tree.look_foldl tree.inv_foldl matches_root split: option.splits)

section \<open>Membership\<close>

lemma contains_step:
  "contains (Node k v cs) path \<longleftrightarrow>
    (case split1 slash path of (token, pos) \<Rightarrow> (k = token \<or> k = wildcard) \<and>
      (case pos of None \<Rightarrow> True | Some rest \<Rightarrow> list_ex (\<lambda>c. contains c rest) cs))"
  by (cases "split1 slash path") (auto simp: contains.simps)

lemma contains_insert_same: "matches n path \<Longrightarrow> contains (insert_node n path val) path"
proof (induction path arbitrary: n rule: length_induct)
  case (1 path)
  show ?case
    using "1.prems"
  proof (cases rule: insert_node_cases [where val = val])
    case leaf
    then show ?thesis by (simp add: contains_step)
  next
    case (child k v xs c ys rest)
    then have "contains (insert_node c rest val) rest"
      by (intro "1.IH" [rule_format, OF split1_length])
    with child show ?thesis by (simp add: contains_step)
  next
    case (fresh k v cs rest)
    then have "contains (insert_node (node_of_key (fst (split1 slash rest)) :: 'a node) rest val) rest"
      by (intro "1.IH" [rule_format, OF split1_length] matches_node_of_key)
    with fresh show ?thesis by (simp add: contains_step)
  qed
qed

lemma contains_insert_mono: "contains n q \<Longrightarrow> contains (insert_node n path val) q"
proof (induction path arbitrary: n q rule: length_induct)
  case (1 path)
  show ?case
  proof (cases "matches n path")
    case False
    with "1.prems" show ?thesis by (simp add: insert_node_mismatch)
  next
    case True
    then show ?thesis
    proof (cases rule: insert_node_cases [where val = val])
      case leaf
      with "1.prems" show ?thesis by (simp add: contains_step)
    next
      case (child k v xs c ys rest)
      have "contains c r \<Longrightarrow> contains (insert_node c rest val) r" for r
        by (rule "1.IH" [rule_format, OF split1_length [OF child(2)]])
      with child "1.prems" show ?thesis by (auto simp: contains_step split: option.splits)
    next
      case (fresh k v cs rest)
      with "1.prems" show ?thesis by (auto simp: contains_step split: option.splits)
    qed
  qed
qed

lemma first_some_SomeD: "first_some xs = Some v \<Longrightarrow> Some v \<in> set xs"
  by (induction xs) (auto split: option.splits)

lemma at_contains: "at n path = Some v \<Longrightarrow> contains n path"
proof (induction n path rule: at.induct)
  case (1 k w cs path)
  obtain token pos where sp: "split1 slash path = (token, pos)" by fastforce
  with "1.prems" have k: "k = token" by (auto simp: at.simps split: if_splits)
  show ?case
  proof (cases pos)
    case None
    with sp k show ?thesis by (simp add: contains_step)
  next
    case (Some rest)
    with "1.prems" sp k obtain c where "c \<in> set cs" "at c rest = Some v"
      by (auto simp: at.simps dest!: first_some_SomeD)
    with "1.IH" [OF sp [symmetric] k Some] sp k Some show ?thesis
      by (auto simp: contains_step list_ex_iff)
  qed
qed

text \<open>
  Membership. An inserted path is contained, insertion never loses a contained path, a path
  with a value is contained, and \<open>contains(path, val)\<close> is equality with the stored value.
\<close>

lemma contains_insert:
  assumes "matches n path"
  shows "contains (insert_node n path val) path
    \<and> (contains n q \<longrightarrow> contains (insert_node n path val) q)
    \<and> (at n q = Some v \<longrightarrow> contains n q)
    \<and> contains_value n q v = (at n q = Some v)"
  using assms contains_insert_same contains_insert_mono at_contains
  by (auto simp: contains_value_def const_at_eq split: option.splits)

section \<open>Wildcard lookup\<close>

text \<open>The tree with one path through a wildcard, as the unit tests build it.\<close>

definition wildcard_tree :: "nat node" where
  "wildcard_tree = insert_node (node_of_key []) ''/v4/*/ping'' (Some 1)"

lemma wildcard_tree_eq:
  "wildcard_tree = Node [] None [Node ''v4'' None [Node ''*'' None [Node ''ping'' (Some 1) []]]]"
  by (simp add: wildcard_tree_def node_of_key_def insert_node_def insert_path.simps slash_def)

lemma wildcard_tree_facts:
  "contains wildcard_tree ''/v4/a/ping'' \<and> snd (at_wildcard wildcard_tree ''/v4/a/ping'') = None"
  by (simp add: wildcard_tree_eq contains.simps at_wildcard_def at.simps slash_def wildcard_def)

text \<open>
  Below the node it is called on, \<open>at_wildcard\<close> looks keys up exactly (it recurses through
  \<open>at\<close>): unless that node itself has the key \<open>*\<close>, its result is the result of \<open>at\<close>, and
  its callback sees at most the first token. A path stored under an inner \<open>*\<close> is therefore
  contained but not found.
\<close>

theorem at_wildcard_exact_below:
  assumes "node_key n \<noteq> wildcard"
  shows "snd (at_wildcard n path) = at n path
    \<and> fst (at_wildcard n path) = (if matches n path then [fst (split1 slash path)] else [])
    \<and> contains wildcard_tree ''/v4/a/ping''
    \<and> snd (at_wildcard wildcard_tree ''/v4/a/ping'') = None"
proof -
  obtain k v cs where n: "n = Node k v cs" by (cases n)
  obtain token pos where "split1 slash path = (token, pos)" by fastforce
  with n assms have "snd (at_wildcard n path) = at n path"
    and "fst (at_wildcard n path) = (if matches n path then [fst (split1 slash path)] else [])"
    by (auto simp: at_wildcard_def at.simps matches_def split: option.splits)
  then show ?thesis using wildcard_tree_facts by blast
qed

theorem at_wildcard_exact_below_witness:
  "node_key sample_tree \<noteq> wildcard \<and> snd (at_wildcard sample_tree ''/api'') = at sample_tree ''/api''"
proof -
  have "node_key sample_tree \<noteq> wildcard" by (simp add: sample_tree_def wildcard_def)
  with at_wildcard_exact_below [OF this, of "''/api''"] show ?thesis by blast
qed

section \<open>Size\<close>

text \<open>The leaves of a tree, as the token sequences that lead to them.\<close>

fun leaves :: "'v node \<Rightarrow> string list list" where
  "leaves (Node k v cs) =
     (if cs = [] then [[k]] else map ((#) k) (concat (map leaves cs)))"

lemma leaves_not_Nil: "leaves n \<noteq> []"
proof (induction n)
  case (Node k v cs)
  then show ?case by (cases cs) auto
qed

text \<open>\<open>size()\<close> is the number of leaves, so at least one.\<close>

lemma node_size_leaves: "node_size n = length (leaves n) \<and> 0 < node_size n"
proof -
  have "node_size n = length (leaves n)"
  proof (induction n)
    case (Node k v cs)
    then have "map node_size cs = map length (map leaves cs)" by simp
    then have sum: "sum_list (map node_size cs) = length (concat (map leaves cs))"
      by (simp only: length_concat)
    have "cs \<noteq> [] \<Longrightarrow> concat (map leaves cs) \<noteq> []"
      using leaves_not_Nil by (cases cs) auto
    with sum show ?case by (simp add: Let_def del: concat_eq_Nil_conv)
  qed
  with leaves_not_Nil show ?thesis by simp
qed

end
