(* ===== verification/Server_Runtime.thy ===== *)
theory Server_Runtime
  imports Siesta_Prelude "HOL-Library.Word"
begin

text \<open>
  \<open>include/siesta/beast/server.hpp\<close> and \<open>src/beast/server.cpp\<close>: the acceptor and the sessions of the
  server runtime. Asynchronous operations are the networking library's: starting one is a number in the
  state, its completion is a step with an error code of its choice. A handler that runs or is queued
  holds a \<open>shared_ptr\<close> to its session; when the last one is gone the destructor closes the socket.

  What the request handlers of an application do with the \<open>Session::Ptr\<close> they are given is the contract
  of the session: change the response, call \<open>write\<close>, drop the pointer. \<open>strict\<close> tells whether they keep
  to one \<open>write\<close> for a request.
\<close>

section \<open>Error codes\<close>

record error_code =
  ec_value :: int
  ec_category :: string

definition failed :: "error_code \<Rightarrow> bool" where
  "failed ec \<longleftrightarrow> ec_value ec \<noteq> 0"

text \<open>The code of a default-constructed \<open>error_code\<close>.\<close>

definition no_error :: error_code where
  "no_error = \<lparr>ec_value = 0, ec_category = ''system''\<rparr>"

lemma not_failed_no_error [simp]: "\<not> failed no_error"
  by (simp add: failed_def no_error_def)

section \<open>Messages\<close>

text \<open>The parts of \<open>http::request\<close> and \<open>http::response\<close> with a \<open>string_body\<close> that the runtime and the generated
  code look at; a verb is the name of its enumerator, \<open>req_host\<close> the field \<open>host\<close>.\<close>

record http_request =
  req_verb :: string
  req_target :: string
  req_host :: string
  req_fields :: "(string \<times> string) list"
  req_body :: string

record http_response =
  resp_status :: nat
  resp_body :: string

text \<open>A response that is default-constructed, or assigned \<open>{}\<close>: status 200 and no body.\<close>

definition empty_response :: http_response where
  "empty_response = \<lparr>resp_status = 200, resp_body = []\<rparr>"

section \<open>Sessions\<close>

text \<open>Timeouts in milliseconds.\<close>

record server_config =
  read_timeout :: nat
  write_timeout :: nat

definition default_config :: server_config where
  "default_config = \<lparr>read_timeout = 60 * 60 * 1000, write_timeout = 30 * 1000\<rparr>"

text \<open>\<open>posted\<close>, \<open>reading\<close> and \<open>writing\<close> count the handlers that are pending, \<open>held\<close> the pointers of
  request handlers and \<open>due\<close> the requests they have not answered; \<open>handled\<close> and \<open>sent\<close> are the requests
  that were handed over and the responses that were written, \<open>failures\<close> the lines of \<open>fail\<close>.\<close>

record session =
  session_id :: "64 word"
  session_config :: server_config
  posted :: nat
  reading :: nat
  writing :: nat
  held :: nat
  due :: nat
  deadline :: nat
  response :: http_response
  handled :: "http_request list"
  sent :: "http_response list"
  socket_open :: bool
  alive :: bool
  failures :: "string list"

definition new_session :: "server_config \<Rightarrow> 64 word \<Rightarrow> session" where
  "new_session config ident = \<lparr>session_id = ident, session_config = config, posted = 0, reading = 0, writing = 0,
     held = 0, due = 0, deadline = 0, response = empty_response, handled = [], sent = [], socket_open = True, alive = True,
     failures = []\<rparr>"

definition fail_with :: "string \<Rightarrow> session \<Rightarrow> session" where
  "fail_with facility s = s\<lparr>failures := failures s @ [facility]\<rparr>"

definition run_session :: "session \<Rightarrow> session" where
  "run_session s = s\<lparr>posted := posted s + 1\<rparr>"

definition do_read :: "session \<Rightarrow> session" where
  "do_read s = s\<lparr>deadline := read_timeout (session_config s), reading := reading s + 1\<rparr>"

definition write_response :: "session \<Rightarrow> session" where
  "write_response s = s\<lparr>deadline := write_timeout (session_config s), writing := writing s + 1, sent := sent s @ [response s]\<rparr>"

definition do_close :: "session \<Rightarrow> session" where
  "do_close s = s\<lparr>socket_open := False\<rparr>"

text \<open>\<open>_parent.handle_request(std::move(_request), shared_from_this())\<close>\<close>

definition hand_over :: "http_request \<Rightarrow> session \<Rightarrow> session" where
  "hand_over req s = s\<lparr>held := held s + 1, due := due s + 1, handled := handled s @ [req]\<rparr>"

definition on_read :: "error_code \<Rightarrow> error_code \<Rightarrow> http_request \<Rightarrow> session \<Rightarrow> session" where
  "on_read end_of_stream ec req s =
     (if ec = end_of_stream then do_close s
      else if failed ec then fail_with ''on_read'' s
      else hand_over req s)"

definition on_write :: "error_code \<Rightarrow> session \<Rightarrow> session" where
  "on_write ec s = (if failed ec then fail_with ''on_write'' s else do_read s)"

definition destroy :: "session \<Rightarrow> session" where
  "destroy s = (do_close s)\<lparr>alive := False\<rparr>"

definition references :: "session \<Rightarrow> nat" where
  "references s = posted s + reading s + writing s + held s"

text \<open>The steps of a session. \<open>eos\<close> is the code \<open>http::error::end_of_stream\<close>.\<close>

inductive session_step :: "error_code \<Rightarrow> bool \<Rightarrow> session \<Rightarrow> session \<Rightarrow> bool" for eos strict where
  posted: "\<lbrakk>alive s; posted s = Suc n\<rbrakk> \<Longrightarrow> session_step eos strict s (do_read (s\<lparr>posted := n\<rparr>))"
| read: "\<lbrakk>alive s; reading s = Suc n\<rbrakk> \<Longrightarrow> session_step eos strict s (on_read eos ec req (s\<lparr>reading := n\<rparr>))"
| written: "\<lbrakk>alive s; writing s = Suc n\<rbrakk> \<Longrightarrow> session_step eos strict s (on_write ec (s\<lparr>writing := n\<rparr>))"
| respond: "\<lbrakk>alive s; 0 < held s\<rbrakk> \<Longrightarrow> session_step eos strict s (s\<lparr>response := r\<rparr>)"
| answer: "\<lbrakk>alive s; 0 < held s; strict \<longrightarrow> 0 < due s\<rbrakk> \<Longrightarrow> session_step eos strict s (write_response (s\<lparr>due := due s - 1\<rparr>))"
| release: "\<lbrakk>alive s; held s = Suc n\<rbrakk> \<Longrightarrow> session_step eos strict s (s\<lparr>held := n\<rparr>)"
| gone: "\<lbrakk>alive s; references s = 0\<rbrakk> \<Longrightarrow> session_step eos strict s (destroy s)"

inductive_cases session_stepE: "session_step eos strict s s'"

section \<open>The server\<close>

text \<open>\<open>accepts\<close> counts the pending \<open>async_accept\<close> operations.\<close>

record server =
  server_config :: server_config
  client_id :: "64 word"
  accepts :: nat
  sessions :: "session list"
  server_failures :: "string list"

definition new_server :: "server_config \<Rightarrow> server" where
  "new_server config = \<lparr>server_config = config, client_id = 0, accepts = 0, sessions = [], server_failures = []\<rparr>"

definition server_fail :: "string \<Rightarrow> server \<Rightarrow> server" where
  "server_fail facility v = v\<lparr>server_failures := server_failures v @ [facility]\<rparr>"

text \<open>The codes of \<open>open\<close>, \<open>bind\<close> and \<open>listen\<close>; that of \<open>set_option\<close> is overwritten.\<close>

definition start_server :: "error_code \<Rightarrow> error_code \<Rightarrow> error_code \<Rightarrow> error_code \<Rightarrow> server \<Rightarrow> server" where
  "start_server open_ec option_ec bind_ec listen_ec v =
     (if failed open_ec then server_fail ''acceptor::open'' v
      else if failed bind_ec then server_fail ''acceptor::bind'' v
      else if failed listen_ec then server_fail ''acceptor::listen'' v
      else v\<lparr>accepts := accepts v + 1\<rparr>)"

definition on_accept :: "error_code \<Rightarrow> server \<Rightarrow> server" where
  "on_accept ec v =
     (if failed ec then server_fail ''on_accept'' v
      else v\<lparr>client_id := client_id v + 1,
             sessions := sessions v @ [run_session (new_session (server_config v) (client_id v))],
             accepts := accepts v + 1\<rparr>)"

inductive server_step :: "error_code \<Rightarrow> bool \<Rightarrow> server \<Rightarrow> server \<Rightarrow> bool" for eos strict where
  accepted: "accepts v = Suc n \<Longrightarrow> server_step eos strict v (on_accept ec (v\<lparr>accepts := n\<rparr>))"
| session: "\<lbrakk>i < length (sessions v); session_step eos strict (sessions v ! i) s'\<rbrakk>
    \<Longrightarrow> server_step eos strict v (v\<lparr>sessions := (sessions v)[i := s']\<rparr>)"

inductive_cases server_stepE: "server_step eos strict v v'"

text \<open>A server that was started without an error.\<close>

definition reachable :: "error_code \<Rightarrow> bool \<Rightarrow> server_config \<Rightarrow> server \<Rightarrow> bool" where
  "reachable eos strict config v \<longleftrightarrow> (server_step eos strict)\<^sup>*\<^sup>* ((new_server config)\<lparr>accepts := 1\<rparr>) v"

section \<open>Hashing of dispatch keys\<close>

text \<open>\<open>MapHash\<close>, with the standard library's hashes of the path and of the verb.\<close>

unbundle bit_operations_syntax

definition map_hash :: "('p \<Rightarrow> 64 word) \<Rightarrow> ('v \<Rightarrow> 64 word) \<Rightarrow> 'p \<times> 'v \<Rightarrow> 64 word" where
  "map_hash hash_path hash_verb key =
     (let h1 = hash_path (fst key); h2 = hash_verb (snd key)
      in h1 XOR (h2 + 0x9e3779b9 + push_bit 6 h1 + drop_bit 2 h1))"

section \<open>Invariants of a session\<close>

lemmas session_defs = fail_with_def run_session_def do_read_def write_response_def do_close_def hand_over_def on_read_def
  on_write_def destroy_def references_def new_session_def

text \<open>At most one operation is pending when every request is answered once, and the timer was last set
  for it; a response is written for every request that is no longer due; a session whose last pointer
  is gone is closed.\<close>

definition session_ok :: "bool \<Rightarrow> session \<Rightarrow> bool" where
  "session_ok strict s \<longleftrightarrow>
     (strict \<longrightarrow> posted s + reading s + writing s + due s \<le> 1
        \<and> (0 < reading s \<longrightarrow> deadline s = read_timeout (session_config s))
        \<and> (0 < writing s \<longrightarrow> deadline s = write_timeout (session_config s))
        \<and> length (sent s) + due s = length (handled s))
     \<and> (\<not> alive s \<longrightarrow> references s = 0 \<and> \<not> socket_open s)"

lemma session_ok_new: "session_ok strict (run_session (new_session config ident))"
  by (simp add: session_ok_def session_defs)

lemma session_step_keeps:
  assumes "session_step eos strict s s'"
  shows "session_id s' = session_id s" and "session_config s' = session_config s" and "prefix (handled s) (handled s')"
proof -
  have "session_id s' = session_id s \<and> session_config s' = session_config s \<and> prefix (handled s) (handled s')"
    using assms by (cases rule: session_step.cases) (simp_all add: session_defs)
  then show "session_id s' = session_id s" "session_config s' = session_config s" "prefix (handled s) (handled s')" by simp_all
qed

lemma session_ok_step:
  assumes "session_step eos strict s s'" and "session_ok strict s"
  shows "session_ok strict s'"
  using assms(1)
proof (cases rule: session_step.cases)
  case (read n ec req)
  then show ?thesis using assms(2) by (simp add: session_ok_def session_defs) linarith
next
  case (written n ec)
  then show ?thesis using assms(2) by (auto simp: session_ok_def session_defs)
next
  case answer
  then show ?thesis using assms(2) by (cases "due s") (auto simp: session_ok_def session_defs)
qed (use assms(2) in \<open>auto simp: session_ok_def session_defs\<close>)

section \<open>Draining a session\<close>

definition load :: "session \<Rightarrow> nat" where
  "load s = 2 * posted s + reading s + writing s + held s"

lemma session_drains:
  assumes "alive s"
  shows "\<exists>s'. (session_step eos strict)\<^sup>*\<^sup>* s s' \<and> \<not> alive s' \<and> \<not> socket_open s'"
  using assms
proof (induction "load s" arbitrary: s rule: less_induct)
  case less
  have go: ?case if "session_step eos strict s s1" "load s1 < load s" "alive s1" for s1
    using less.hyps [OF that(2,3)] that(1) by (meson converse_rtranclp_into_rtranclp)
  consider n where "posted s = Suc n" | n where "reading s = Suc n" | n where "writing s = Suc n"
    | n where "held s = Suc n" | "references s = 0"
    unfolding references_def by (metis add_is_0 not0_implies_Suc)
  then show ?case
  proof cases
    case (1 n)
    show ?thesis
      by (rule go [OF session_step.posted [OF less.prems 1]]) (use less.prems 1 in \<open>simp_all add: load_def session_defs\<close>)
  next
    case (2 n)
    show ?thesis
      by (rule go [OF session_step.read [where ec = eos, OF less.prems 2]])
        (use less.prems 2 in \<open>simp_all add: load_def session_defs\<close>)
  next
    case (3 n)
    show ?thesis
      by (rule go [OF session_step.written [where ec = "\<lparr>ec_value = 1, ec_category = []\<rparr>", OF less.prems 3]])
        (use less.prems 3 in \<open>simp_all add: load_def session_defs failed_def\<close>)
  next
    case (4 n)
    show ?thesis
      by (rule go [OF session_step.release [OF less.prems 4]]) (use less.prems 4 in \<open>simp_all add: load_def\<close>)
  next
    case 5
    have "\<not> alive (destroy s)" "\<not> socket_open (destroy s)" by (simp_all add: session_defs)
    with session_step.gone [OF less.prems 5] show ?thesis by blast
  qed
qed

section \<open>Invariants of the server\<close>

definition server_ok :: "bool \<Rightarrow> server_config \<Rightarrow> server \<Rightarrow> bool" where
  "server_ok strict config v \<longleftrightarrow> server_config v = config \<and> accepts v \<le> 1
     \<and> map session_id (sessions v) = map of_nat [0..<length (sessions v)] \<and> client_id v = of_nat (length (sessions v))
     \<and> (\<forall>s \<in> set (sessions v). session_ok strict s \<and> session_config s = config)"

lemma server_ok_step:
  assumes "server_step eos strict v v'" and "server_ok strict config v"
  shows "server_ok strict config v'"
  using assms(1)
proof (cases rule: server_step.cases)
  case (accepted n ec)
  then show ?thesis
    using assms(2) session_ok_new [of strict config]
    by (auto simp: server_ok_def on_accept_def server_fail_def) (simp_all add: run_session_def new_session_def)
next
  case (session i s')
  have i: "session_ok strict (sessions v ! i)" using assms(2) session(2) by (simp add: server_ok_def)
  note s' = session_ok_step [OF session(3) i] session_step_keeps [OF session(3)]
  have "map session_id ((sessions v)[i := s']) = map session_id (sessions v)"
    using session(2) s'(2) by (simp add: map_update) (metis list_update_id map_update)
  moreover have "session_ok strict s \<and> session_config s = config" if "s \<in> set ((sessions v)[i := s'])" for s
    using that s' assms(2) session(2) by (auto simp: server_ok_def dest!: set_update_subset_insert [THEN subsetD])
  ultimately show ?thesis using assms(2) by (simp add: session(1) server_ok_def)
qed

lemma server_ok_steps: "(server_step eos strict)\<^sup>*\<^sup>* v v' \<Longrightarrow> server_ok strict config v \<Longrightarrow> server_ok strict config v'"
  by (induction rule: rtranclp_induct) (auto intro: server_ok_step)

lemma reachable_ok: "reachable eos strict config v \<Longrightarrow> server_ok strict config v"
  unfolding reachable_def by (erule server_ok_steps) (simp add: server_ok_def new_server_def)

lemma no_accept_steps:
  "(server_step eos strict)\<^sup>*\<^sup>* v v' \<Longrightarrow> accepts v = 0 \<Longrightarrow> accepts v' = 0 \<and> length (sessions v') = length (sessions v)"
  by (induction rule: rtranclp_induct) (auto elim!: server_stepE)

section \<open>Properties\<close>

text \<open>C10: the sessions of a server whose request handlers answer every request once. Of queued reads,
  reads, writes and requests being handled there is at most one at any time; a pending read runs under
  the read timeout and a pending write under the write timeout; every request that is not being handled
  has had its response written; the socket of a session without pointers is closed.\<close>

theorem session_discipline:
  assumes "reachable eos True config v" and "s \<in> set (sessions v)"
  shows "posted s + reading s + writing s + due s \<le> 1
    \<and> (0 < reading s \<longrightarrow> deadline s = read_timeout config) \<and> (0 < writing s \<longrightarrow> deadline s = write_timeout config)
    \<and> length (sent s) + due s = length (handled s) \<and> (\<not> alive s \<longrightarrow> references s = 0 \<and> \<not> socket_open s)"
  using reachable_ok [OF assms(1)] assms(2) by (auto simp: server_ok_def session_ok_def)


lemma reachable_one:
  "reachable eos strict config (on_accept no_error ((new_server config)\<lparr>accepts := 0\<rparr>))"
proof -
  have "server_step eos strict ((new_server config)\<lparr>accepts := 1\<rparr>) (on_accept no_error ((new_server config)\<lparr>accepts := 1, accepts := 0\<rparr>))"
    by (rule server_step.accepted) simp
  then show ?thesis by (simp add: reachable_def)
qed

lemma sessions_one:
  "sessions (on_accept no_error ((new_server config)\<lparr>accepts := 0\<rparr>)) = [run_session (new_session config 0)]"
  by (simp add: on_accept_def failed_def no_error_def new_server_def)

theorem session_discipline_witness:
  "let s = run_session (new_session default_config 0) in posted s + reading s + writing s + due s \<le> 1"
  using session_discipline [OF reachable_one [of no_error True default_config], where s = "run_session (new_session default_config 0)"]
  by (simp add: sessions_one Let_def)

text \<open>C26: accepting. There is never more than one pending accept, the sessions are numbered in the order
  of their connections, and the numbers are distinct for the first \<open>2 ^ 64\<close> of them. An accept that
  fails is the last one: whatever happens afterwards, no session is added.\<close>

theorem accepting:
  assumes "reachable eos strict config v"
  shows "accepts v \<le> 1 \<and> map session_id (sessions v) = map of_nat [0..<length (sessions v)]
    \<and> (length (sessions v) \<le> 2 ^ 64 \<longrightarrow> distinct (map session_id (sessions v)))
    \<and> (\<forall>ec v'. accepts v = 1 \<and> failed ec \<and> (server_step eos strict)\<^sup>*\<^sup>* (on_accept ec (v\<lparr>accepts := 0\<rparr>)) v' \<longrightarrow>
         accepts v' = 0 \<and> length (sessions v') = length (sessions v))"
proof -
  have ok: "server_ok strict config v" using assms by (rule reachable_ok)
  have "distinct (map (of_nat :: nat \<Rightarrow> 64 word) [0..<n])" if "n \<le> 2 ^ 64" for n
    using that by (auto simp: distinct_map inj_on_def word_of_nat_eq_iff take_bit_nat_eq_self)
  moreover have "accepts v' = 0 \<and> length (sessions v') = length (sessions v)"
    if "failed ec" "(server_step eos strict)\<^sup>*\<^sup>* (on_accept ec (v\<lparr>accepts := 0\<rparr>)) v'" for ec v'
    using no_accept_steps [OF that(2)] that(1) by (simp add: on_accept_def server_fail_def)
  ultimately show ?thesis using ok unfolding server_ok_def by auto
qed

theorem accepting_witness:
  "accepts (on_accept no_error ((new_server default_config)\<lparr>accepts := 0\<rparr>)) \<le> 1
    \<and> map session_id (sessions (on_accept no_error ((new_server default_config)\<lparr>accepts := 0\<rparr>))) = [0]"
  using accepting [OF reachable_one [of no_error True default_config]] by (simp add: sessions_one)

text \<open>C27: every session that is alive can be brought to its end, by completions of what is pending and
  releases of what is held: no state of a session keeps its socket open for good.\<close>

theorem session_closes:
  assumes "reachable eos strict config v" and "i < length (sessions v)" and "alive (sessions v ! i)"
  shows "\<exists>v'. (server_step eos strict)\<^sup>*\<^sup>* v v' \<and> length (sessions v') = length (sessions v)
    \<and> \<not> alive (sessions v' ! i) \<and> \<not> socket_open (sessions v' ! i)"
proof -
  have lift: "(server_step eos strict)\<^sup>*\<^sup>* v (v\<lparr>sessions := (sessions v)[i := s']\<rparr>)"
    if "(session_step eos strict)\<^sup>*\<^sup>* (sessions v ! i) s'" for s'
    using that
  proof (induction rule: rtranclp_induct)
    case base
    show ?case using assms(2) by simp
  next
    case (step s1 s2)
    let ?v1 = "v\<lparr>sessions := (sessions v)[i := s1]\<rparr>"
    have "server_step eos strict ?v1 (?v1\<lparr>sessions := (sessions ?v1)[i := s2]\<rparr>)"
      by (rule server_step.session) (use assms(2) step.hyps(2) in simp_all)
    with step.IH show ?case by (simp add: rtranclp.rtrancl_into_rtrancl)
  qed
  from session_drains [OF assms(3)] obtain s' where
    "(session_step eos strict)\<^sup>*\<^sup>* (sessions v ! i) s'" "\<not> alive s'" "\<not> socket_open s'" by blast
  with lift [of s'] assms(2) show ?thesis by (intro exI [of _ "v\<lparr>sessions := (sessions v)[i := s']\<rparr>"]) simp
qed

theorem session_closes_witness:
  "\<exists>v'. (server_step no_error True)\<^sup>*\<^sup>* (on_accept no_error ((new_server default_config)\<lparr>accepts := 0\<rparr>)) v'
    \<and> \<not> alive (sessions v' ! 0)"
  using session_closes [OF reachable_one [of no_error True default_config], of 0]
  by (auto simp: sessions_one run_session_def new_session_def)

end
