(* ===== verification/Utils.thy ===== *)
theory Utils
  imports Siesta_Prelude "HOL-Library.Word"
begin

text \<open>
  \<open>generator/src/Support/Utils.cpp\<close> and \<open>Utils.hpp\<close>: the identifier sanitiser, the C++
  string escaper, the comment writer and the type-name predicates that every later phase of the
  generator uses. A \<open>std::string\<close> is a list of bytes (\<open>char\<close>).
\<close>

section \<open>Reserved words\<close>

definition RESERVED :: "string list" where
  "RESERVED =
    [''operator'', ''long'', ''short'', ''public'',
     ''protected'', ''private'', ''default'', ''delete'',
     ''namespace'', ''template'', ''static'', ''const'',
     ''volatile'', ''virtual'', ''explicit'', ''friend'',
     ''typedef'', ''typename'', ''enum'', ''struct'',
     ''class'', ''union'', ''if'', ''else'',
     ''for'', ''while'', ''do'', ''switch'',
     ''case'', ''break'', ''continue'', ''return'',
     ''goto'', ''try'', ''catch'', ''throw'',
     ''new'', ''delete'', ''this'', ''sizeof'',
     ''alignof'', ''decltype'', ''noexcept'', ''nullptr'',
     ''true'', ''false'', ''bool'', ''char'',
     ''wchar_t'', ''char16_t'', ''char32_t'', ''signed'',
     ''unsigned'', ''int'', ''float'', ''double'',
     ''void'', ''auto'', ''register'', ''extern'',
     ''mutable'', ''inline'', ''constexpr'', ''consteval'',
     ''constinit'', ''concept'', ''requires'', ''co_await'',
     ''co_yield'', ''co_return'', ''module'', ''export'',
     ''import'',
     ''unix'', ''linux'', ''i386'', ''x86_64'', ''amd64'',
     ''arm'', ''aarch64'', ''__unix'', ''__linux'', ''__linux__'',
     ''__unix__'', ''unix__'']"

section \<open>Identifiers\<close>

definition isdigit :: "char \<Rightarrow> bool" where
  "isdigit c \<longleftrightarrow> CHR ''0'' \<le> c \<and> c \<le> CHR ''9''"

text \<open>The replacement of one character by \<open>std::replace_if\<close> in \<open>sanitize\<close>.\<close>

definition sanitize_chars :: string where
  "sanitize_chars = ''/-.:+ ()@''"

definition sanitize_char :: "char \<Rightarrow> char" where
  "sanitize_char c = (if c \<in> set sanitize_chars then CHR ''_'' else c)"

definition sanitize :: "string \<Rightarrow> string" where
  "sanitize input =
     (if input = [] then []
      else
        let r1 = map sanitize_char input;
            r2 = (if r1 \<in> set RESERVED then r1 @ ''_'' else r1)
        in if isdigit (hd r2) then CHR ''_'' # r2 else r2)"

definition sanitize_enum_identifier :: "string \<Rightarrow> string" where
  "sanitize_enum_identifier input =
     (let r1 = sanitize input;
          r2 = map (\<lambda>c. if c = CHR ''.'' then CHR ''_'' else c) r1
      in if r2 \<noteq> [] \<and> isdigit (hd r2) then CHR ''_'' # r2 else r2)"

text \<open>\<open>name.rfind("std::", 0) == 0\<close> is the test for a prefix.\<close>

definition isSyntheticCppType :: "string \<Rightarrow> bool" where
  "isSyntheticCppType name \<longleftrightarrow>
     prefix ''std::'' name \<or> name = ''int'' \<or> name = ''long'' \<or> name = ''short'' \<or>
     name = ''unsigned'' \<or> name = ''signed'' \<or> name = ''char'' \<or> name = ''wchar_t'' \<or>
     name = ''bool'' \<or> name = ''float'' \<or> name = ''double'' \<or> name = ''void''"

text \<open>\<open>path.find_last_of('/')\<close> is \<open>npos\<close>, and \<open>npos + 1\<close> is 0, when there is no slash.\<close>

definition component_path :: "string \<Rightarrow> string" where
  "component_path path = rev (takeWhile (\<lambda>c. c \<noteq> CHR ''/'') (rev path))"

subsection \<open>What sanitising guarantees\<close>

lemma sanitize_char_idem [simp]: "sanitize_char (sanitize_char c) = sanitize_char c"
  by (simp add: sanitize_char_def sanitize_chars_def)

lemma sanitize_char_notin: "sanitize_char c \<notin> set sanitize_chars"
  by (simp add: sanitize_char_def sanitize_chars_def)

lemma sanitize_char_fix: "c \<notin> set sanitize_chars \<Longrightarrow> sanitize_char c = c"
  by (simp add: sanitize_char_def)

lemma underscore_notin_chars: "CHR ''_'' \<notin> set sanitize_chars"
  by (simp add: sanitize_chars_def)

lemma isdigit_underscore [simp]: "\<not> isdigit (CHR ''_'')"
  by (simp add: isdigit_def)

lemma RESERVED_snoc: "w \<in> set RESERVED \<Longrightarrow> w @ ''_'' \<notin> set RESERVED"
  by (simp add: RESERVED_def) (elim disjE; simp)

lemma RESERVED_hd: "w \<in> set RESERVED \<Longrightarrow> w \<noteq> [] \<and> \<not> isdigit (hd w)"
  by (simp add: RESERVED_def) (elim disjE; simp add: isdigit_def)

lemma RESERVED_underscore_digit:
  "w \<in> set RESERVED \<Longrightarrow> w = CHR ''_'' # v \<Longrightarrow> v \<noteq> [] \<and> \<not> isdigit (hd v)"
  by (simp add: RESERVED_def) (elim disjE; simp add: isdigit_def)

lemma RESERVED_no_chars: "w \<in> set RESERVED \<Longrightarrow> c \<in> set sanitize_chars \<Longrightarrow> c \<notin> set w"
  by (simp add: RESERVED_def sanitize_chars_def) (elim disjE; simp)

text \<open>The three shapes a sanitised name can have.\<close>

lemma sanitize_cases:
  assumes "input \<noteq> []"
  obtains (plain) "sanitize input = map sanitize_char input"
      "map sanitize_char input \<notin> set RESERVED" "\<not> isdigit (hd (map sanitize_char input))"
  | (reserved) "sanitize input = map sanitize_char input @ ''_''"
      "map sanitize_char input \<in> set RESERVED"
  | (digit) "sanitize input = CHR ''_'' # map sanitize_char input"
      "map sanitize_char input \<notin> set RESERVED" "isdigit (hd (map sanitize_char input))"
  using assms RESERVED_hd [of "map sanitize_char input"]
  by (cases "map sanitize_char input \<in> set RESERVED";
      cases "isdigit (hd (map sanitize_char input))")
    (auto simp: sanitize_def Let_def hd_append)

lemma sanitize_Nil [simp]: "sanitize [] = []"
  by (simp add: sanitize_def)

lemma sanitize_not_Nil [simp]: "sanitize s = [] \<longleftrightarrow> s = []"
proof (cases "s = []")
  case False
  then show ?thesis by (cases rule: sanitize_cases) auto
qed simp

lemma sanitize_not_reserved: "sanitize s \<notin> set RESERVED"
proof (cases "s = []")
  case True
  then show ?thesis by (simp add: RESERVED_def)
next
  case False
  then show ?thesis
    by (cases rule: sanitize_cases)
      (auto dest: RESERVED_snoc RESERVED_underscore_digit)
qed

lemma sanitize_hd:
  assumes "s \<noteq> []"
  shows "\<not> isdigit (hd (sanitize s))"
  using assms
proof (cases rule: sanitize_cases)
  case reserved
  then have "\<not> isdigit (hd (map sanitize_char s))"
    using RESERVED_hd by blast
  with reserved(1) assms show ?thesis by (simp add: hd_append)
qed auto

lemma sanitize_no_chars: "c \<in> set (sanitize s) \<Longrightarrow> c \<notin> set sanitize_chars"
proof (cases "s = []")
  case False
  then show "c \<in> set (sanitize s) \<Longrightarrow> c \<notin> set sanitize_chars"
    by (cases rule: sanitize_cases) (auto simp: sanitize_char_notin underscore_notin_chars)
qed simp

lemma sanitize_id:
  assumes "s \<notin> set RESERVED" and "s \<noteq> [] \<Longrightarrow> \<not> isdigit (hd s)"
    and "\<And>c. c \<in> set s \<Longrightarrow> c \<notin> set sanitize_chars"
  shows "sanitize s = s"
proof -
  have "map sanitize_char s = s"
    using assms(3) by (simp add: map_idI sanitize_char_fix)
  with assms(1,2) show ?thesis by (simp add: sanitize_def Let_def)
qed

lemma sanitize_idem [simp]: "sanitize (sanitize s) = sanitize s"
  by (rule sanitize_id) (auto simp: sanitize_not_reserved sanitize_no_chars dest: sanitize_hd)

lemma sanitize_enum_identifier_eq: "sanitize_enum_identifier s = sanitize s"
proof -
  have "map (\<lambda>c. if c = CHR ''.'' then CHR ''_'' else c) (sanitize s) = sanitize s"
    by (rule map_idI) (auto dest: sanitize_no_chars simp: sanitize_chars_def)
  then show ?thesis
    using sanitize_hd [of s] by (auto simp: sanitize_enum_identifier_def Let_def)
qed

text \<open>
  \<open>sanitize\<close> never returns a reserved word or predefined macro, never a name that starts
  with a digit, never one of the characters it replaces; applying it twice is applying it once;
  and \<open>sanitize_enum_identifier\<close> computes the same name.
\<close>

theorem sanitize_identifier:
  "sanitize s \<notin> set RESERVED
   \<and> \<not> (\<exists>d r. sanitize s = d # r \<and> isdigit d)
   \<and> set (sanitize s) \<inter> set sanitize_chars = {}
   \<and> sanitize (sanitize s) = sanitize s
   \<and> sanitize_enum_identifier s = sanitize s"
proof -
  have "\<not> isdigit d" if "sanitize s = d # r" for d r
    using that sanitize_hd [of s] by (cases "s = []") auto
  then show ?thesis
    using sanitize_not_reserved [of s] sanitize_no_chars [of _ s]
    by (auto simp: sanitize_enum_identifier_eq)
qed

section \<open>C++ string literals\<close>

abbreviation bs :: char where "bs \<equiv> CHR 0x5C"
abbreviation dq :: char where "dq \<equiv> CHR 0x22"
abbreviation nl :: char where "nl \<equiv> CHR 0x0A"
abbreviation cr :: char where "cr \<equiv> CHR 0x0D"
abbreviation tb :: char where "tb \<equiv> CHR 0x09"

text \<open>The \<open>switch\<close> of \<open>escapeCppString\<close>, one character at a time.\<close>

definition escape_char :: "char \<Rightarrow> string" where
  "escape_char c =
     (if c = bs then [bs, bs]
      else if c = dq then [bs, dq]
      else if c = nl then bs # ''n''
      else if c = cr then bs # ''r''
      else if c = tb then bs # ''t''
      else [c])"

definition escapeCppString :: "string \<Rightarrow> string" where
  "escapeCppString s = concat (map escape_char s)"

text \<open>
  What the C++ compiler reads back: the escape sequences the escaper uses, and the scan of a
  string literal up to its closing quote (a raw newline in it is a lexical error).
\<close>

definition escape_value :: "char \<Rightarrow> char" where
  "escape_value e = (if e = CHR ''n'' then nl else if e = CHR ''r'' then cr
     else if e = CHR ''t'' then tb else e)"

fun cpp_unescape :: "string \<Rightarrow> string" where
  "cpp_unescape [] = []"
| "cpp_unescape [c] = [c]"
| "cpp_unescape (c # e # s) =
     (if c = bs then escape_value e # cpp_unescape s else c # cpp_unescape (e # s))"

fun lex_literal_body :: "string \<Rightarrow> (string \<times> string) option" where
  "lex_literal_body [] = None"
| "lex_literal_body [c] = (if c = dq then Some ([], []) else None)"
| "lex_literal_body (c # e # s) =
     (if c = dq then Some ([], e # s)
      else if c = nl then None
      else if c = bs then map_option (\<lambda>(v, r). (escape_value e # v, r)) (lex_literal_body s)
      else map_option (\<lambda>(v, r). (c # v, r)) (lex_literal_body (e # s)))"

definition lex_string_literal :: "string \<Rightarrow> (string \<times> string) option" where
  "lex_string_literal s = (case s of [] \<Rightarrow> None | c # r \<Rightarrow> if c = dq then lex_literal_body r else None)"

lemma cpp_unescape_escape_char: "cpp_unescape (escape_char c @ s) = c # cpp_unescape s"
  by (cases s) (auto simp: escape_char_def escape_value_def)

interpretation cpp: char_codec escape_char cpp_unescape
  by unfold_locales (simp_all add: cpp_unescape_escape_char)

lemma lex_literal_body_escape_char:
  "lex_literal_body s = Some (v, r) \<Longrightarrow> lex_literal_body (escape_char c @ s) = Some (c # v, r)"
  by (cases s) (auto simp: escape_char_def escape_value_def)

lemma lex_literal_body_escape:
  "lex_literal_body (concat (map escape_char s) @ dq # rest) = Some (s, rest)"
proof (induction s)
  case Nil
  show ?case by (cases rest) auto
next
  case (Cons c s)
  from lex_literal_body_escape_char [OF this] show ?case by simp
qed

text \<open>
  C30: the literal \<open>"\<dots>"\<close> that an emitter writes around \<open>escapeCppString(s)\<close> is one C++ string
  token whose value is \<open>s\<close>, whatever bytes \<open>s\<close> has and whatever text follows: no
  schema text can end the literal early.
\<close>

theorem escapeCppString_literal:
  "lex_string_literal (dq # escapeCppString s @ dq # rest) = Some (s, rest)
   \<and> cpp_unescape (escapeCppString s) = s
   \<and> nl \<notin> set (escapeCppString s)"
proof -
  have "nl \<notin> set (escape_char c)" for c
    by (simp add: escape_char_def)
  then show ?thesis
    by (simp add: escapeCppString_def lex_string_literal_def lex_literal_body_escape
        cpp.roundtrip set_concat_map)
qed

section \<open>Comments\<close>

definition isspace :: "char \<Rightarrow> bool" where
  "isspace c \<longleftrightarrow> c \<in> set [CHR '' '', nl, tb, cr, CHR 0x0B, CHR 0x0C]"

definition trim :: "string \<Rightarrow> string" where
  "trim s = rev (dropWhile isspace (rev (dropWhile isspace s)))"

lemma length_trim: "length (trim s) \<le> length s"
  using length_dropWhile_le [of isspace "rev (dropWhile isspace s)"]
    length_dropWhile_le [of isspace s] by (simp add: trim_def)

lemma trim_decomp: "\<exists>u v. s = u @ trim s @ v \<and> (\<forall>c \<in> set u \<union> set v. isspace c)"
proof -
  let ?t = "dropWhile isspace s"
  have "s = takeWhile isspace s @ trim s @ rev (takeWhile isspace (rev ?t))"
    unfolding trim_def
    by (metis append_assoc rev_append rev_rev_ident takeWhile_dropWhile_id)
  then show ?thesis
    by (metis Un_iff set_rev set_takeWhileD)
qed

lemma hd_trim: "trim s \<noteq> [] \<Longrightarrow> \<not> isspace (hd (trim s))"
proof -
  let ?t = "dropWhile isspace s"
  assume "trim s \<noteq> []"
  moreover have "?t = trim s @ rev (takeWhile isspace (rev ?t))"
    unfolding trim_def by (metis rev_append rev_rev_ident takeWhile_dropWhile_id)
  ultimately have "hd ?t = hd (trim s)" and "?t \<noteq> []"
    by (metis hd_append2, metis append_is_Nil_conv)
  then show ?thesis using hd_dropWhile [of isspace s] by simp
qed

lemma trim_line_length:
  assumes "split1 nl (trim s) = (line, Some r)"
  shows "Suc (length r) < length s"
proof -
  from assms have eq: "trim s = line @ nl # r" by (auto dest: split1_SomeD)
  then have "line \<noteq> []"
    using hd_trim [of s] by (auto simp: isspace_def)
  then have "Suc (length r) < length (trim s)"
    unfolding eq by (cases line) auto
  with length_trim [of s] show ?thesis by simp
qed

text \<open>
  The loop of \<open>write_multiline_comment\<close>; the text it streams is the result. After a line, the
  view still starts with the newline, which the next iteration trims.
\<close>

function write_multiline_comment :: "string \<Rightarrow> string \<Rightarrow> string" where
  "write_multiline_comment comment indent =
     (if comment = [] then []
      else case split1 nl (trim comment) of
          (line, None) \<Rightarrow> indent @ ''// '' @ line @ [nl]
        | (line, Some r) \<Rightarrow>
            indent @ ''// '' @ line @ [nl] @ write_multiline_comment (nl # r) indent)"
  by pat_completeness auto
termination
  by (relation "measure (\<lambda>(c, _). length c)") (auto dest: trim_line_length [OF sym])

declare write_multiline_comment.simps [simp del]

definition comment_text :: "string \<Rightarrow> string list \<Rightarrow> string" where
  "comment_text indent ls = concat (map (\<lambda>l. indent @ ''// '' @ l @ [nl]) ls)"

lemma filter_trim: "filter (\<lambda>c. \<not> isspace c) (trim s) = filter (\<lambda>c. \<not> isspace c) s"
proof -
  obtain u v where eq: "s = u @ trim s @ v" and sp: "\<forall>c \<in> set u \<union> set v. isspace c"
    using trim_decomp by blast
  have "filter (\<lambda>c. \<not> isspace c) s
      = filter (\<lambda>c. \<not> isspace c) u @ filter (\<lambda>c. \<not> isspace c) (trim s) @ filter (\<lambda>c. \<not> isspace c) v"
    by (subst eq) simp
  with sp show ?thesis by (simp add: filter_False)
qed

text \<open>
  The comment writer emits only comment lines: the text is a sequence of lines
  \<open>indent // l\<close>, no line has a newline inside it, and every character of the
  description that is not white space is kept, in order.
\<close>

lemma write_multiline_comment_lines:
  "\<exists>ls. write_multiline_comment comment indent = comment_text indent ls
    \<and> \<not> (\<exists>l. l \<in> set ls \<and> nl \<in> set l)
    \<and> filter (\<lambda>c. \<not> isspace c) (concat ls) = filter (\<lambda>c. \<not> isspace c) comment"
proof (induction comment indent rule: write_multiline_comment.induct)
  case (1 comment indent)
  show ?case
  proof (cases "comment = []")
    case True
    then have "write_multiline_comment comment indent = comment_text indent []"
      by (simp add: write_multiline_comment.simps comment_text_def)
    with True show ?thesis by (intro exI [of _ "[]"]) simp
  next
    case ne: False
    obtain line rest where sp: "split1 nl (trim comment) = (line, rest)" by fastforce
    show ?thesis
    proof (cases rest)
      case None
      with sp have "trim comment = line" "nl \<notin> set line" by (auto dest: split1_NoneD)
      with ne sp None filter_trim [of comment] show ?thesis
        by (intro exI [of _ "[line]"])
          (simp add: write_multiline_comment.simps [of comment] comment_text_def)
    next
      case (Some r)
      with sp have eq: "trim comment = line @ nl # r" and line: "nl \<notin> set line"
        by (auto dest: split1_SomeD)
      from "1.IH" [OF ne sp [symmetric] Some] obtain ls
        where ls: "write_multiline_comment (nl # r) indent = comment_text indent ls"
          "\<not> (\<exists>l. l \<in> set ls \<and> nl \<in> set l)"
          "filter (\<lambda>c. \<not> isspace c) (concat ls) = filter (\<lambda>c. \<not> isspace c) (nl # r)"
        by blast
      have "filter (\<lambda>c. \<not> isspace c) (concat (line # ls)) = filter (\<lambda>c. \<not> isspace c) comment"
        using ls(3) filter_trim [of comment, symmetric] eq by simp
      with ne sp Some ls line show ?thesis
        by (intro exI [of _ "line # ls"])
          (auto simp: write_multiline_comment.simps [of comment] comment_text_def)
    qed
  qed
qed

section \<open>Emitted text\<close>

text \<open>A line of output, and a string literal around its value.\<close>

definition line :: "string list \<Rightarrow> string" where "line parts = concat parts @ [nl]"
definition quoted :: "string \<Rightarrow> string" where "quoted s = [dq] @ s @ [dq]"
definition tabs :: "nat \<Rightarrow> string" where "tabs n = replicate n tb"

fun comma_join :: "string list \<Rightarrow> string" where
  "comma_join [] = []"
| "comma_join [s] = s"
| "comma_join (s # t # ts) = s @ '', '' @ comma_join (t # ts)"

lemma lex_quoted: "lex_string_literal (quoted (escapeCppString s) @ rest) = Some (s, rest)"
  by (simp add: quoted_def escapeCppString_def lex_string_literal_def lex_literal_body_escape)

section \<open>File names\<close>

text \<open>\<open>Support/Filenames.hpp\<close>: the names of the generated files.\<close>

definition SERVER_HPP :: string where "SERVER_HPP = ''server.hpp''"
definition SERVER_CPP :: string where "SERVER_CPP = ''server.cpp''"
definition CLIENT_HPP :: string where "CLIENT_HPP = ''client.hpp''"
definition DEFS_HPP :: string where "DEFS_HPP = ''openapi_defs.hpp''"
definition DEFS_CPP :: string where "DEFS_CPP = ''openapi_defs.cpp''"
definition PY_MODULE :: string where "PY_MODULE = ''py_module.cpp''"
definition SERVER_PY :: string where "SERVER_PY = ''server_py.cpp''"

end
