(* ===== verification/Openapi.thy ===== *)
theory Openapi
  imports Utils Complex_Main
begin

text \<open>
  \<open>generator/src/Frontend/openapi.hpp\<close>, \<open>openapi.cpp\<close>, \<open>openapi3.hpp\<close> and \<open>openapi3.cpp\<close>: the
  typed views over the document. The document itself is data, a JSON value; the views are the
  accessors that \<open>__detail::Object\<close>, \<open>ListAdaptor\<close> and \<open>MapAdaptor\<close> define on it, with the errors
  of a wrong shape as values:
  \<^item> \<open>Exception\<close>: a \<open>simdjson_error\<close> leaves the function;
  \<^item> \<open>Terminate\<close>: it leaves a \<open>noexcept\<close> function, so the program ends in \<open>std::terminate\<close>;
  \<^item> \<open>Undefined\<close>: the code asks a default-constructed \<open>dom::object\<close> (one that belongs to no
    document) for a key or an iterator, or dereferences the end of an array. The JSON library
    promises no result for these.
\<close>

section \<open>Documents and results\<close>

datatype json =
    J_Null
  | J_Bool bool
  | J_Int int
  | J_Double rat
  | J_String string
  | J_Array "json list"
  | J_Object "(string \<times> json) list"

datatype failure = Exception | Terminate | Undefined

type_synonym 'a result = "failure + 'a"

definition rbind :: "'a result \<Rightarrow> ('a \<Rightarrow> 'b result) \<Rightarrow> 'b result" where
  "rbind r f = (case r of Inl e \<Rightarrow> Inl e | Inr x \<Rightarrow> f x)"

definition rmap :: "('a \<Rightarrow> 'b) \<Rightarrow> 'a result \<Rightarrow> 'b result" where
  "rmap f r = rbind r (\<lambda>x. Inr (f x))"

text \<open>A \<open>noexcept\<close> function turns an exception that would leave it into termination.\<close>

definition noexcept :: "'a result \<Rightarrow> 'a result" where
  "noexcept r = (case r of Inl Exception \<Rightarrow> Inl Terminate | _ \<Rightarrow> r)"

lemma rbind_simps [simp]: "rbind (Inl e) f = Inl e" "rbind (Inr x) f = f x"
  by (simp_all add: rbind_def)

lemma rmap_simps [simp]: "rmap f (Inl e) = Inl e" "rmap f (Inr x) = Inr (f x)"
  by (simp_all add: rmap_def)

lemma rbind_Inr_iff: "rbind r f = Inr y \<longleftrightarrow> (\<exists>x. r = Inr x \<and> f x = Inr y)"
  by (cases r) auto

lemma rmap_Inr_iff: "rmap f r = Inr y \<longleftrightarrow> (\<exists>x. r = Inr x \<and> y = f x)"
  by (cases r) auto

lemma noexcept_simps [simp]:
  "noexcept (Inr x) = Inr x" "noexcept (Inl Exception) = Inl Terminate"
  "noexcept (Inl Terminate) = Inl Terminate" "noexcept (Inl Undefined) = Inl Undefined"
  by (simp_all add: noexcept_def)

lemma noexcept_Inr_iff [simp]: "noexcept r = Inr x \<longleftrightarrow> r = Inr x"
  by (cases r) (auto simp: noexcept_def split: failure.splits)

lemma rbind_cong [fundef_cong]: "r = r' \<Longrightarrow> (\<And>x. r' = Inr x \<Longrightarrow> f x = f' x) \<Longrightarrow> rbind r f = rbind r' f'"
  by (cases r) auto

section \<open>\<open>__detail::Object\<close>, \<open>ListAdaptor\<close> and \<open>MapAdaptor\<close>\<close>

text \<open>An \<open>Object\<close> with \<open>_is_valid\<close> set holds the members of a JSON object; otherwise \<open>_json\<close> is
  default-constructed. \<open>at_key\<close> returns the first member of that name. A list or map adaptor that
  is not valid iterates over nothing.\<close>

type_synonym members = "(string \<times> json) list"
type_synonym obj = "members option"

definition at_key :: "obj \<Rightarrow> string \<Rightarrow> json option result" where
  "at_key ob key = (case ob of None \<Rightarrow> Inl Undefined | Some m \<Rightarrow> Inr (map_of m key))"

definition HasKey :: "obj \<Rightarrow> string \<Rightarrow> bool result" where
  "HasKey ob key = rmap (\<lambda>v. v \<noteq> None) (at_key ob key)"

definition get_string :: "obj \<Rightarrow> string \<Rightarrow> string result" where
  "get_string ob key = rmap (\<lambda>v. case v of Some (J_String s) \<Rightarrow> s | _ \<Rightarrow> []) (at_key ob key)"

definition get_bool :: "obj \<Rightarrow> string \<Rightarrow> bool result" where
  "get_bool ob key = rmap (\<lambda>v. case v of Some (J_Bool b) \<Rightarrow> b | _ \<Rightarrow> False) (at_key ob key)"

definition get_uint64 :: "obj \<Rightarrow> string \<Rightarrow> 64 word result" where
  "get_uint64 ob key = rmap (\<lambda>v. case v of
       Some (J_Int i) \<Rightarrow> (if 0 \<le> i \<and> i < 2 ^ 64 then word_of_int i else 0) | _ \<Rightarrow> 0) (at_key ob key)"

definition get_int64 :: "obj \<Rightarrow> string \<Rightarrow> int result" where
  "get_int64 ob key = rmap (\<lambda>v. case v of
       Some (J_Int i) \<Rightarrow> (if - (2 ^ 63) \<le> i \<and> i < 2 ^ 63 then i else 0) | _ \<Rightarrow> 0) (at_key ob key)"

definition get_object :: "obj \<Rightarrow> string \<Rightarrow> obj result" where
  "get_object ob key = rbind (at_key ob key) (\<lambda>v. case v of
       None \<Rightarrow> Inr None | Some (J_Object m) \<Rightarrow> Inr (Some m) | Some _ \<Rightarrow> Inl Terminate)"

definition get_list :: "obj \<Rightarrow> string \<Rightarrow> json list result" where
  "get_list ob key = rbind (at_key ob key) (\<lambda>v. case v of
       None \<Rightarrow> Inr [] | Some (J_Array l) \<Rightarrow> Inr l | Some _ \<Rightarrow> Inl Terminate)"

definition get_map :: "obj \<Rightarrow> string \<Rightarrow> members result" where
  "get_map ob key = rbind (at_key ob key) (\<lambda>v. case v of
       None \<Rightarrow> Inr [] | Some (J_Object m) \<Rightarrow> Inr m | Some _ \<Rightarrow> Inl Terminate)"

text \<open>Dereferencing an iterator: a list element is converted with \<open>T(element)\<close>, which throws when
  it is not an object; a map value with \<open>T(get_object())\<close>, which gives an invalid object.\<close>

definition list_item :: "json \<Rightarrow> obj result" where
  "list_item v = (case v of J_Object m \<Rightarrow> Inr (Some m) | _ \<Rightarrow> Inl Exception)"

definition map_item :: "json \<Rightarrow> obj" where
  "map_item v = (case v of J_Object m \<Rightarrow> Some m | _ \<Rightarrow> None)"

definition is_valid :: "obj \<Rightarrow> bool" where
  "is_valid ob = (ob \<noteq> None)"

lemmas accessor_defs = get_string_def get_bool_def get_uint64_def get_int64_def get_object_def
  get_list_def get_map_def HasKey_def

lemma at_key_simps [simp]: "at_key None k = Inl Undefined" "at_key (Some m) k = Inr (map_of m k)"
  by (simp_all add: at_key_def)

text \<open>On a valid object the primitive accessors always return: they never fail.\<close>

lemma primitive_accessors_total:
  "\<exists>s. get_string (Some m) k = Inr s" "\<exists>b. get_bool (Some m) k = Inr b"
  "\<exists>w. get_uint64 (Some m) k = Inr w" "\<exists>i. get_int64 (Some m) k = Inr i"
  "\<exists>b. HasKey (Some m) k = Inr b"
  by (simp_all add: accessor_defs)

section \<open>References and schemas\<close>

definition ref :: "obj \<Rightarrow> string result" where "ref ob = get_string ob ''$ref''"

definition IsRef :: "obj \<Rightarrow> bool result" where "IsRef ob = rmap (\<lambda>r. r \<noteq> []) (ref ob)"

definition JsonSchema_format :: "obj \<Rightarrow> string result" where "JsonSchema_format ob = get_string ob ''format''"
definition JsonSchema_description :: "obj \<Rightarrow> string result" where
  "JsonSchema_description ob = get_string ob ''description''"
definition JsonSchema_name :: "obj \<Rightarrow> string result" where "JsonSchema_name ob = get_string ob ''name''"
definition JsonSchema_example :: "obj \<Rightarrow> string result" where "JsonSchema_example ob = get_string ob ''example''"

text \<open>The type may be an array, of which the first element counts. It is read through
  \<open>at_key(key).get_array().begin()\<close>, which on an empty array is the end.\<close>

definition JsonSchema_type :: "obj \<Rightarrow> string result" where
  "JsonSchema_type ob = rbind (at_key ob ''type'') (\<lambda>v. case v of
       Some (J_String s) \<Rightarrow> Inr s
     | Some (J_Array []) \<Rightarrow> Inl Undefined
     | Some (J_Array (J_String s # _)) \<Rightarrow> Inr s
     | Some (J_Array (_ # _)) \<Rightarrow> Inl Exception
     | _ \<Rightarrow> Inr [])"

datatype SchemaKind = T_unknown | T_string | T_number | T_integer | T_boolean | T_object | T_array | T_null

definition kind_of_name :: "string \<Rightarrow> SchemaKind" where
  "kind_of_name sv =
     (if sv = ''string'' then T_string
      else if sv = ''number'' then T_number
      else if sv = ''integer'' then T_integer
      else if sv = ''boolean'' then T_boolean
      else if sv = ''object'' then T_object
      else if sv = ''array'' then T_array
      else if sv = ''null'' then T_null
      else T_unknown)"

definition JsonSchema_Type :: "obj \<Rightarrow> SchemaKind result" where
  "JsonSchema_Type ob = noexcept (rmap kind_of_name (JsonSchema_type ob))"

definition IsPrimitive :: "SchemaKind \<Rightarrow> bool" where
  "IsPrimitive type = (case type of T_string \<Rightarrow> True | T_number \<Rightarrow> True | T_integer \<Rightarrow> True
     | T_boolean \<Rightarrow> True | _ \<Rightarrow> False)"

definition anyOf :: "obj \<Rightarrow> json list result" where "anyOf ob = get_list ob ''anyOf''"
definition oneOf :: "obj \<Rightarrow> json list result" where "oneOf ob = get_list ob ''oneOf''"
definition allOf :: "obj \<Rightarrow> json list result" where "allOf ob = get_list ob ''allOf''"
definition schema_enum :: "obj \<Rightarrow> json list result" where "schema_enum ob = get_list ob ''enum''"
definition schema_properties :: "obj \<Rightarrow> members result" where "schema_properties ob = get_map ob ''properties''"
definition schema_items :: "obj \<Rightarrow> obj result" where "schema_items ob = get_object ob ''items''"

section \<open>Parameters, request bodies, operations, components\<close>

definition Parameter_name :: "obj \<Rightarrow> string result" where "Parameter_name ob = get_string ob ''name''"
definition Parameter_in :: "obj \<Rightarrow> string result" where "Parameter_in ob = get_string ob ''in''"
definition Parameter_description :: "obj \<Rightarrow> string result" where
  "Parameter_description ob = get_string ob ''description''"
definition Parameter_required :: "obj \<Rightarrow> bool result" where "Parameter_required ob = get_bool ob ''required''"
definition Parameter_style :: "obj \<Rightarrow> string result" where "Parameter_style ob = get_string ob ''style''"
definition Parameter_schema :: "obj \<Rightarrow> obj result" where "Parameter_schema ob = get_object ob ''schema''"

datatype Location = L_path | L_query | L_header | L_cookie | L_unknown

definition Parameter_In :: "obj \<Rightarrow> Location result" where
  "Parameter_In ob = rmap (\<lambda>sv.
     if sv = ''path'' then L_path else if sv = ''query'' then L_query
     else if sv = ''header'' then L_header else if sv = ''cookie'' then L_cookie
     else L_unknown) (Parameter_in ob)"

datatype Style = St_matrix | St_label | St_form | St_simple | St_spaceDelimited | St_pipeDelimited
  | St_deepObject | St_unknown

definition Parameter_Style :: "obj \<Rightarrow> Style result" where
  "Parameter_Style ob = rmap (\<lambda>sv.
     if sv = ''matrix'' then St_matrix else if sv = ''label'' then St_label
     else if sv = ''form'' then St_form else if sv = ''simple'' then St_simple
     else if sv = ''simple'' then St_simple
     else if sv = ''spaceDelimited'' then St_spaceDelimited
     else if sv = ''pipeDelimited'' then St_pipeDelimited
     else St_unknown) (Parameter_style ob)"

definition RequestBody_content :: "obj \<Rightarrow> members result" where "RequestBody_content ob = get_map ob ''content''"
definition RequestBody_TryGetRef :: "obj \<Rightarrow> string option result" where
  "RequestBody_TryGetRef ob = rmap (\<lambda>res. if res \<noteq> [] then Some res else None) (get_string ob ''$ref'')"
definition MediaType_schema :: "obj \<Rightarrow> obj result" where "MediaType_schema ob = get_object ob ''schema''"

definition Operation_summary :: "obj \<Rightarrow> string result" where "Operation_summary ob = get_string ob ''summary''"
definition Operation_description :: "obj \<Rightarrow> string result" where
  "Operation_description ob = get_string ob ''description''"
definition Operation_operationId :: "obj \<Rightarrow> string result" where "Operation_operationId ob = get_string ob ''operationId''"
definition Operation_parameters :: "obj \<Rightarrow> json list result" where "Operation_parameters ob = get_list ob ''parameters''"
definition Operation_requestBody :: "obj \<Rightarrow> obj result" where "Operation_requestBody ob = get_object ob ''requestBody''"

definition Path_parameters :: "obj \<Rightarrow> json list result" where "Path_parameters ob = get_list ob ''parameters''"

text \<open>The operations of a path are all the members of its object.\<close>

definition Path_operations :: "obj \<Rightarrow> members result" where
  "Path_operations ob = (case ob of None \<Rightarrow> Inl Undefined | Some m \<Rightarrow> Inr m)"

definition SecurityScheme_type :: "obj \<Rightarrow> string result" where "SecurityScheme_type ob = get_string ob ''type''"
definition SecurityScheme_name :: "obj \<Rightarrow> string result" where "SecurityScheme_name ob = get_string ob ''name''"
definition SecurityScheme_in :: "obj \<Rightarrow> string result" where "SecurityScheme_in ob = get_string ob ''in''"
definition SecurityScheme_scheme :: "obj \<Rightarrow> string result" where "SecurityScheme_scheme ob = get_string ob ''scheme''"

definition Components_schemas :: "obj \<Rightarrow> members result" where "Components_schemas ob = get_map ob ''schemas''"
definition Components_parameters :: "obj \<Rightarrow> members result" where "Components_parameters ob = get_map ob ''parameters''"
definition Components_requestBodies :: "obj \<Rightarrow> members result" where
  "Components_requestBodies ob = get_map ob ''requestBodies''"
definition Components_securitySchemes :: "obj \<Rightarrow> members result" where
  "Components_securitySchemes ob = get_map ob ''securitySchemes''"

fun find_component :: "members \<Rightarrow> string \<Rightarrow> obj option" where
  "find_component [] name = None"
| "find_component ((n, entry) # ms) name =
     (if n = name then Some (map_item entry) else find_component ms name)"

definition GetSchemaByRef :: "obj \<Rightarrow> string \<Rightarrow> (string \<times> obj option) result" where
  "GetSchemaByRef ob refname =
     rmap (\<lambda>ms. (component_path refname, find_component ms (component_path refname))) (Components_schemas ob)"

definition GetParameterByRef :: "obj \<Rightarrow> string \<Rightarrow> (string \<times> obj option) result" where
  "GetParameterByRef ob refname =
     rmap (\<lambda>ms. (component_path refname, find_component ms (component_path refname))) (Components_parameters ob)"

section \<open>The root of the document\<close>

text \<open>\<open>parsed\<close> is what \<open>parser.load(path)\<close> returned, \<open>None\<close> for an error. The function is
  \<open>noexcept\<close> and always returns \<open>true\<close>.\<close>

definition OpenAPI_Load :: "json option \<Rightarrow> (bool \<times> obj) result" where
  "OpenAPI_Load parsed = (case parsed of Some (J_Object m) \<Rightarrow> Inr (True, Some m) | _ \<Rightarrow> Inl Terminate)"

text \<open>\<open>std::atoi\<close>: white space, an optional sign, the digits up to the first other character.
  (Its result is undefined beyond the range of \<open>int\<close>; no bound is put on it here.)\<close>

definition atoi :: "string \<Rightarrow> int" where
  "atoi s =
     (let s = dropWhile isspace s;
          (neg, s) = (case s of c # r \<Rightarrow> if c = CHR ''-'' then (True, r)
                        else if c = CHR ''+'' then (False, r) else (False, s) | [] \<Rightarrow> (False, []));
          n = int (string_to_nat (takeWhile isdigit s))
      in if neg then - n else n)"

definition version_of :: "obj \<Rightarrow> string \<Rightarrow> string result" where
  "version_of ob key = rbind (at_key ob key) (\<lambda>v. case v of
       None \<Rightarrow> Inr [] | Some (J_String s) \<Rightarrow> Inr s | Some _ \<Rightarrow> Inl Terminate)"

definition MajorVersion :: "obj \<Rightarrow> int result" where
  "MajorVersion ob = rbind (version_of ob ''swagger'') (\<lambda>version.
     if version \<noteq> [] then Inr (atoi version)
     else rbind (version_of ob ''openapi'') (\<lambda>version.
       if version \<noteq> [] then Inr (atoi version) else Inr (- 1)))"

definition spec_openapi :: "obj \<Rightarrow> string result" where "spec_openapi ob = get_string ob ''swagger''"
definition spec_info :: "obj \<Rightarrow> obj result" where "spec_info ob = get_object ob ''info''"
definition Info_title :: "obj \<Rightarrow> string result" where "Info_title ob = get_string ob ''title''"
definition spec_paths :: "obj \<Rightarrow> members result" where "spec_paths ob = get_map ob ''paths''"
definition spec_components :: "obj \<Rightarrow> obj result" where "spec_components ob = get_object ob ''components''"
definition hasGlobalSecurity :: "obj \<Rightarrow> bool result" where "hasGlobalSecurity ob = HasKey ob ''security''"

section \<open>Request methods and names\<close>

definition tolower :: "char \<Rightarrow> char" where
  "tolower c = (if 65 \<le> (of_char c :: nat) \<and> (of_char c :: nat) \<le> 90 then char_of ((of_char c :: nat) + 32) else c)"

datatype RequestMethod = RM_POST | RM_PUT | RM_GET | RM_DELETE | RM_PATCH | RM_HEAD | RM_CONNECT
  | RM_OPTIONS | RM_TRACE | RM_UNKNOWN

text \<open>\<open>0 == strncasecmp(key.data(), "METHOD", key.size())\<close>: the characters of \<open>key\<close> against those of
  the literal and its terminator, up to a common terminator.\<close>

fun strncasecmp_eq :: "string \<Rightarrow> string \<Rightarrow> bool" where
  "strncasecmp_eq [] l = True"
| "strncasecmp_eq (c # cs) [] = (c = CHR 0x00)"
| "strncasecmp_eq (c # cs) (d # ds) = (tolower c = tolower d \<and> strncasecmp_eq cs ds)"

definition RequestMethodFromString :: "string \<Rightarrow> RequestMethod" where
  "RequestMethodFromString key =
     (if strncasecmp_eq key ''POST'' then RM_POST
      else if strncasecmp_eq key ''PUT'' then RM_PUT
      else if strncasecmp_eq key ''GET'' then RM_GET
      else if strncasecmp_eq key ''DELETE'' then RM_DELETE
      else if strncasecmp_eq key ''PATCH'' then RM_PATCH
      else if strncasecmp_eq key ''HEAD'' then RM_HEAD
      else if strncasecmp_eq key ''CONNECT'' then RM_CONNECT
      else if strncasecmp_eq key ''OPTIONS'' then RM_OPTIONS
      else if strncasecmp_eq key ''TRACE'' then RM_TRACE
      else RM_UNKNOWN)"

definition RequestMethodToString :: "RequestMethod \<Rightarrow> string" where
  "RequestMethodToString rm =
     (case rm of
        RM_CONNECT \<Rightarrow> ''connect'' | RM_DELETE \<Rightarrow> ''delete'' | RM_GET \<Rightarrow> ''get'' | RM_HEAD \<Rightarrow> ''head''
      | RM_OPTIONS \<Rightarrow> ''options'' | RM_PATCH \<Rightarrow> ''patch'' | RM_POST \<Rightarrow> ''post'' | RM_PUT \<Rightarrow> ''put''
      | RM_TRACE \<Rightarrow> ''trace'' | RM_UNKNOWN \<Rightarrow> ''unknown'')"

definition JsonTypeToCppType :: "string \<Rightarrow> string \<Rightarrow> string" where
  "JsonTypeToCppType type format =
     (if type = ''string'' then ''std::string''
      else if type = ''number'' then (if format = ''double'' then ''double'' else ''float'')
      else if type = ''boolean'' then ''bool''
      else if type = ''integer'' then (if format = ''int64'' then ''int64_t'' else ''int32_t'')
      else ''boost::json::value'')"

definition SynthesizeFunctionName :: "string \<Rightarrow> RequestMethod \<Rightarrow> string" where
  "SynthesizeFunctionName pathstr verb =
     RequestMethodToString verb @ ''_'' @
       map (\<lambda>c. if c = CHR 0x7B \<or> c = CHR 0x7D then CHR 0x5F else c) (sanitize pathstr)"

lemma tolower_simps [simp]:
  "tolower CHR ''A'' = CHR ''a''" "tolower CHR ''C'' = CHR ''c''" "tolower CHR ''D'' = CHR ''d''"
  "tolower CHR ''E'' = CHR ''e''" "tolower CHR ''G'' = CHR ''g''" "tolower CHR ''H'' = CHR ''h''"
  "tolower CHR ''I'' = CHR ''i''" "tolower CHR ''L'' = CHR ''l''" "tolower CHR ''N'' = CHR ''n''"
  "tolower CHR ''O'' = CHR ''o''" "tolower CHR ''P'' = CHR ''p''" "tolower CHR ''R'' = CHR ''r''"
  "tolower CHR ''S'' = CHR ''s''" "tolower CHR ''T'' = CHR ''t''" "tolower CHR ''U'' = CHR ''u''"
  "tolower CHR ''a'' = CHR ''a''" "tolower CHR ''c'' = CHR ''c''" "tolower CHR ''d'' = CHR ''d''"
  "tolower CHR ''e'' = CHR ''e''" "tolower CHR ''g'' = CHR ''g''" "tolower CHR ''h'' = CHR ''h''"
  "tolower CHR ''i'' = CHR ''i''" "tolower CHR ''k'' = CHR ''k''" "tolower CHR ''l'' = CHR ''l''"
  "tolower CHR ''n'' = CHR ''n''" "tolower CHR ''o'' = CHR ''o''" "tolower CHR ''p'' = CHR ''p''"
  "tolower CHR ''r'' = CHR ''r''" "tolower CHR ''s'' = CHR ''s''" "tolower CHR ''t'' = CHR ''t''"
  "tolower CHR ''u'' = CHR ''u''" "tolower CHR ''w'' = CHR ''w''"
  by (simp_all add: tolower_def char_of_def bit_iff_odd)

lemma strncasecmp_prefix:
  "CHR 0x00 \<notin> set key \<Longrightarrow> strncasecmp_eq key l \<longleftrightarrow> prefix (map tolower key) (map tolower l)"
  by (induction key l rule: strncasecmp_eq.induct) auto

text \<open>Every method is read back from its own name, so \<open>RequestMethodFromString\<close> inverts
  \<open>RequestMethodToString\<close>; the comparison being bounded by the length of the key, the lookup
  accepts every case-insensitive prefix of a method name and the empty key is \<open>POST\<close>.\<close>

lemma RequestMethod_roundtrip:
  "RequestMethodFromString (RequestMethodToString rm) = rm
    \<and> RequestMethodFromString [] = RM_POST
    \<and> (RequestMethodFromString key = RM_UNKNOWN \<or>
        strncasecmp_eq key (RequestMethodToString (RequestMethodFromString key)))"
proof -
  have same: "strncasecmp_eq key (map tolower l) \<longleftrightarrow> strncasecmp_eq key l" for l
  proof (induction key l rule: strncasecmp_eq.induct)
    case (3 c cs d ds)
    have "tolower (tolower d) = tolower d"
      by (auto simp: tolower_def of_char_of)
    with 3 show ?case by simp
  qed simp_all
  have "RequestMethodFromString key = RM_UNKNOWN \<or>
      strncasecmp_eq key (RequestMethodToString (RequestMethodFromString key))"
    using same [of "''POST''"] same [of "''PUT''"] same [of "''GET''"] same [of "''DELETE''"]
      same [of "''PATCH''"] same [of "''HEAD''"] same [of "''CONNECT''"] same [of "''OPTIONS''"]
      same [of "''TRACE''"]
    by (simp add: RequestMethodFromString_def RequestMethodToString_def)
  then show ?thesis
    by (cases rm) (simp_all add: RequestMethodFromString_def RequestMethodToString_def)
qed

end
