(* ===== verification/Endpoint_IR.thy ===== *)
theory Endpoint_IR
  imports Openapi
begin

text \<open>
  \<open>generator/src/IR/EndpointIR.hpp\<close> and \<open>EndpointIR.cpp\<close>: the endpoints all backends are generated
  from. \<open>parseEndpoints\<close> first collects the operations of the document, then builds an endpoint from
  each one; the two phases are \<open>collect_paths\<close> and \<open>build_endpoint\<close>.
\<close>

section \<open>Data\<close>

record ClientParam =
  cp_name :: string
  wire_name :: string
  cpp_type :: string
  cp_required :: bool
  cp_description :: string
  location :: string
  schema_type :: string
  cp_format :: string
  is_string_type :: bool
  is_vector_type :: bool
  is_vector_string_type :: bool

definition empty_param :: ClientParam where
  "empty_param = \<lparr>cp_name = [], wire_name = [], cpp_type = [], cp_required = False,
     cp_description = [], location = [], schema_type = [], cp_format = [], is_string_type = False,
     is_vector_type = False, is_vector_string_type = False\<rparr>"

datatype AuthType = Auth_None | ApiKey | HttpBearer

record AuthInfo =
  ai_type :: AuthType
  ai_name :: string

record Endpoint =
  ep_method :: string
  ep_path :: string
  path_template :: string
  function_name :: string
  ep_summary :: string
  ep_description :: string
  cpp_verb :: string
  ep_params :: "ClientParam list"
  has_request_body :: bool
  body_type :: string
  body_content_type :: string
  auth_type :: AuthType
  auth_header_name :: string

section \<open>Helpers\<close>

definition detectAuth :: "Endpoint list \<Rightarrow> AuthInfo" where
  "detectAuth endpoints =
     (case find (\<lambda>ep. auth_type ep \<noteq> Auth_None) endpoints of
        Some ep \<Rightarrow> \<lparr>ai_type = auth_type ep,
          ai_name = (if auth_type ep = HttpBearer then ''bearer_token'' else ''api_key'')\<rparr>
      | None \<Rightarrow> \<lparr>ai_type = Auth_None, ai_name = []\<rparr>)"

definition refComponentName :: "string \<Rightarrow> string" where
  "refComponentName r = (if CHR ''/'' \<in> set r then last (segs (CHR ''/'') r) else r)"

definition resolveRefName :: "string \<Rightarrow> string" where
  "resolveRefName r = refComponentName r"

abbreviation obrace :: char where "obrace \<equiv> CHR 0x7B"
abbreviation cbrace :: char where "cbrace \<equiv> CHR 0x7D"

definition reserved_params :: "string list" where
  "reserved_params = [''token'', ''result'', ''error'', ''next'', ''type'', ''metadata'', ''include'',
     ''order'', ''event_types'']"

definition sanitizeParamName :: "string \<Rightarrow> string" where
  "sanitizeParamName name =
     map (\<lambda>c. if c \<in> {CHR ''['', CHR '']'', CHR ''('', CHR '')'', obrace, cbrace, CHR ''.'', CHR '',''}
            then CHR ''_'' else c)
       (if name \<in> set reserved_params then ''param_'' @ name else name)"

definition isSupportedMethod :: "string \<Rightarrow> bool" where
  "isSupportedMethod method \<longleftrightarrow> method = ''get'' \<or> method = ''post'' \<or> method = ''put''
     \<or> method = ''delete'' \<or> method = ''patch'' \<or> method = ''head'' \<or> method = ''options''"

fun name_chars :: "bool \<Rightarrow> string \<Rightarrow> string" where
  "name_chars first_char [] = []"
| "name_chars first_char (c # cs) =
     (if c = CHR ''/'' then (if \<not> first_char then CHR ''_'' # name_chars first_char cs else name_chars first_char cs)
      else if c = obrace then CHR ''_'' # name_chars first_char cs
      else if c = cbrace then name_chars first_char cs
      else if c = CHR '':'' \<or> c = CHR ''-'' then CHR ''_'' # name_chars first_char cs
      else c # name_chars False cs)"

definition generateFunctionName :: "string \<Rightarrow> string \<Rightarrow> string" where
  "generateFunctionName method path = method @ ''__'' @ name_chars True path"

definition cpp_of_type :: "string \<Rightarrow> string \<Rightarrow> string" where
  "cpp_of_type t fmt =
     (if t = ''string'' then ''std::string''
      else if t = ''integer'' then
        (if fmt = [] then ''int64_t''
         else if fmt = ''int32'' then ''int32_t''
         else if fmt = ''int64'' then ''int64_t''
         else if fmt = ''uint32'' then ''uint32_t''
         else if fmt = ''uint64'' then ''uint64_t''
         else ''int64_t'')
      else if t = ''number'' then
        (if fmt = [] then ''double''
         else if fmt = ''float'' then ''float''
         else if fmt = ''double'' then ''double''
         else ''double'')
      else if t = ''boolean'' then ''bool''
      else if t = ''array'' then ''std::vector<boost::json::value>''
      else if t = ''object'' then ''std::string''
      else ''std::string'')"

definition schemaToCppType :: "obj \<Rightarrow> string result" where
  "schemaToCppType schema =
     rbind (IsRef schema) (\<lambda>isref.
       if isref then rmap resolveRefName (ref schema)
       else
         rbind (JsonSchema_type schema) (\<lambda>t.
           if t \<noteq> [] then rmap (cpp_of_type t) (JsonSchema_format schema)
           else Inr ''std::string''))"

section \<open>Parameters\<close>

text \<open>The part of \<open>resolveParameter\<close> inside \<open>try\<close>: an exception, which only the schema's \<open>type()\<close>
  can throw, keeps what has been assigned before it.\<close>

definition param_of_schema :: "ClientParam \<Rightarrow> obj \<Rightarrow> ClientParam result" where
  "param_of_schema cp schema =
     (case JsonSchema_type schema of
        Inl Exception \<Rightarrow> Inr cp
      | Inl e \<Rightarrow> Inl e
      | Inr t \<Rightarrow>
          rbind (JsonSchema_format schema) (\<lambda>fmt.
          rbind (schemaToCppType schema) (\<lambda>cpp.
            let str = contains_sub ''string'' cpp; vec = contains_sub ''vector'' cpp
            in Inr (cp\<lparr>schema_type := t, cp_format := fmt, cpp_type := cpp, is_string_type := str,
                 is_vector_type := vec, is_vector_string_type := vec \<and> str\<rparr>))))"

definition inline_param :: "obj \<Rightarrow> ClientParam result" where
  "inline_param raw =
     rbind (Parameter_name raw) (\<lambda>name.
     rbind (Parameter_description raw) (\<lambda>desc.
     rbind (Parameter_schema raw) (\<lambda>schema.
     rbind (param_of_schema (empty_param\<lparr>cp_name := name, wire_name := name, cp_description := desc\<rparr>) schema) (\<lambda>cp.
     rbind (Parameter_in raw) (\<lambda>loc.
     rbind (Parameter_required raw) (\<lambda>req.
       Inr (cp\<lparr>location := loc, cp_required := req\<rparr>)))))))"

definition resolveParameter :: "obj \<Rightarrow> (string, ClientParam) umap \<Rightarrow> ClientParam result" where
  "resolveParameter raw fetched =
     rbind (IsRef raw) (\<lambda>isref.
       if isref then
         rbind (ref raw) (\<lambda>r.
           case map_of fetched (refComponentName r) of Some cp \<Rightarrow> Inr cp | None \<Rightarrow> inline_param raw)
       else inline_param raw)"

section \<open>Collecting\<close>

definition component_param :: "obj \<Rightarrow> ClientParam result" where
  "component_param p =
     rbind (Parameter_name p) (\<lambda>name.
     rbind (Parameter_in p) (\<lambda>loc.
     rbind (Parameter_required p) (\<lambda>req.
     rbind (Parameter_description p) (\<lambda>desc.
     rbind (Parameter_schema p) (\<lambda>schema.
     rbind (JsonSchema_type schema) (\<lambda>t.
     rbind (JsonSchema_format schema) (\<lambda>fmt.
     rbind (schemaToCppType schema) (\<lambda>cpp.
       Inr (empty_param\<lparr>cp_name := name, wire_name := name, location := loc, cp_required := req,
         cp_description := desc, schema_type := t, cp_format := fmt, cpp_type := cpp\<rparr>)))))))))"

fun fetch_params :: "members \<Rightarrow> (string, ClientParam) umap \<Rightarrow> (string, ClientParam) umap result" where
  "fetch_params [] m = Inr m"
| "fetch_params ((n, v) # ps) m =
     rbind (component_param (map_item v)) (\<lambda>cp. fetch_params ps (AList.update n cp m))"

fun fetch_bodies :: "members \<Rightarrow> (string, string) umap \<Rightarrow> (string, string) umap result" where
  "fetch_bodies [] m = Inr m"
| "fetch_bodies ((n, v) # ps) m =
     rbind (RequestBody_content (map_item v)) (\<lambda>content.
       case content of
         [] \<Rightarrow> fetch_bodies ps m
       | (ct, mt) # _ \<Rightarrow>
           rbind (MediaType_schema (map_item mt)) (\<lambda>schema.
           rbind (IsRef schema) (\<lambda>isref.
           rbind (if isref then rmap resolveRefName (ref schema) else schemaToCppType schema) (\<lambda>s.
             fetch_bodies ps (AList.update n s m)))))"

record SchemeInfo =
  si_type :: string
  si_name :: string
  si_in :: string
  si_scheme :: string

definition scheme_info :: "obj \<Rightarrow> SchemeInfo result" where
  "scheme_info s =
     rbind (SecurityScheme_type s) (\<lambda>type.
       if type = ''apiKey'' then
         rbind (SecurityScheme_name s) (\<lambda>name. rbind (SecurityScheme_in s) (\<lambda>loc.
           Inr \<lparr>si_type = type, si_name = name, si_in = loc, si_scheme = []\<rparr>))
       else if type = ''http'' then
         rbind (SecurityScheme_scheme s) (\<lambda>scheme.
           Inr \<lparr>si_type = type, si_name = [], si_in = [], si_scheme = scheme\<rparr>)
       else Inr \<lparr>si_type = type, si_name = [], si_in = [], si_scheme = []\<rparr>)"

fun fetch_schemes :: "members \<Rightarrow> (string, SchemeInfo) umap \<Rightarrow> (string, SchemeInfo) umap result" where
  "fetch_schemes [] m = Inr m"
| "fetch_schemes ((n, v) # ps) m =
     rbind (scheme_info (map_item v)) (\<lambda>info. fetch_schemes ps (AList.update n info m))"

text \<open>\<open>bodyRef\<close> is the component name when \<open>is_ref\<close> is set.\<close>

record ColOp =
  co_path :: string
  co_method :: string
  co_summary :: string
  co_description :: string
  op_params :: "ClientParam list"
  hasRequestBody :: bool
  bodyType :: string
  bodyContentType :: string
  bodyRef :: "string option"
  hasOpSecurity :: bool

fun resolve_params :: "json list \<Rightarrow> (string, ClientParam) umap \<Rightarrow> ClientParam list result" where
  "resolve_params [] fetched = Inr []"
| "resolve_params (v # vs) fetched =
     rbind (list_item v) (\<lambda>raw.
     rbind (resolveParameter raw fetched) (\<lambda>cp.
       rmap (\<lambda>cps. cp # cps) (resolve_params vs fetched)))"

definition collect_body :: "obj \<Rightarrow> (bool \<times> string option \<times> string \<times> string) result" where
  "collect_body op_obj =
     rbind (Operation_requestBody op_obj) (\<lambda>req_body.
       if is_valid req_body then
         rbind (RequestBody_TryGetRef req_body) (\<lambda>ref_opt.
           case ref_opt of
             Some r \<Rightarrow> Inr (True, Some (refComponentName r), [], [])
           | None \<Rightarrow>
               rbind (RequestBody_content req_body) (\<lambda>content.
                 case content of
                   [] \<Rightarrow> Inr (True, None, [], [])
                 | (ct, mt) # _ \<Rightarrow>
                     rbind (MediaType_schema (map_item mt)) (\<lambda>schema.
                     rbind (if is_valid schema then schemaToCppType schema else Inr []) (\<lambda>t.
                       Inr (True, None, if t = [] then ''std::string'' else t, ct)))))
       else Inr (False, None, [], []))"

definition collect_op :: "string \<Rightarrow> (string, ClientParam) umap \<Rightarrow> string \<Rightarrow> obj \<Rightarrow> ColOp result" where
  "collect_op path fetched method op_obj =
     rbind (Operation_summary op_obj) (\<lambda>summ.
     rbind (Operation_description op_obj) (\<lambda>desc.
     rbind (rbind (Operation_parameters op_obj) (\<lambda>l. resolve_params l fetched)) (\<lambda>cps.
     rbind (collect_body op_obj) (\<lambda>(has, bref, btype, bct).
     rbind (HasKey op_obj ''security'') (\<lambda>sec.
       Inr \<lparr>co_path = path, co_method = method, co_summary = summ, co_description = desc,
         op_params = cps, hasRequestBody = has, bodyType = btype, bodyContentType = bct,
         bodyRef = bref, hasOpSecurity = sec\<rparr>)))))"

fun collect_ops :: "string \<Rightarrow> (string, ClientParam) umap \<Rightarrow> members \<Rightarrow> ColOp list result" where
  "collect_ops path fetched [] = Inr []"
| "collect_ops path fetched ((method, v) # ops) =
     rbind (collect_op path fetched method (map_item v)) (\<lambda>co.
       rmap (\<lambda>cols. co # cols) (collect_ops path fetched ops))"

text \<open>\<open>path_params_map\<close> is one map for all the paths.\<close>

fun collect_paths ::
  "(string, ClientParam) umap \<Rightarrow> members \<Rightarrow> (string, ClientParam) umap \<times> ColOp list \<Rightarrow>
   ((string, ClientParam) umap \<times> ColOp list) result" where
  "collect_paths fetched [] acc = Inr acc"
| "collect_paths fetched ((path, v) # ps) (ppm, collected) =
     rbind (rbind (Path_parameters (map_item v)) (\<lambda>l. resolve_params l fetched)) (\<lambda>cps.
     rbind (Path_operations (map_item v)) (\<lambda>ops.
     rbind (collect_ops path fetched ops) (\<lambda>cols.
       collect_paths fetched ps
         (foldl (\<lambda>m cp. AList.update (cp_name cp) cp m) ppm cps, collected @ cols))))"

section \<open>Building\<close>

text \<open>The merge of path-level and operation-level parameters: \<open>param_order\<close> and \<open>op_overrides\<close>.\<close>

fun merge_params ::
  "(string, ClientParam) umap \<Rightarrow> ClientParam list \<Rightarrow> string list \<times> (string, ClientParam) umap \<Rightarrow>
   string list \<times> (string, ClientParam) umap" where
  "merge_params ppm [] acc = acc"
| "merge_params ppm (cp # cps) (order, overrides) =
     merge_params ppm cps
       (if map_of ppm (cp_name cp) = None \<and> map_of overrides (cp_name cp) = None
        then order @ [cp_name cp] else order,
        AList.update (cp_name cp) cp overrides)"

text \<open>\<open>lookup\<close>; the last case is the exception of \<open>at\<close>, for a name that is in neither map.\<close>

definition lookup_param ::
  "(string, ClientParam) umap \<Rightarrow> (string, ClientParam) umap \<Rightarrow> string \<Rightarrow> ClientParam option" where
  "lookup_param ppm overrides name =
     (case map_of overrides name of Some cp \<Rightarrow> Some cp | None \<Rightarrow> map_of ppm name)"

definition located :: "string \<Rightarrow> ClientParam option list \<Rightarrow> ClientParam list" where
  "located loc cps = filter (\<lambda>cp. location cp = loc) (List.map_filter (\<lambda>x. x) cps)"

definition ordered_params ::
  "(string list \<Rightarrow> string list) \<Rightarrow> (string, ClientParam) umap \<Rightarrow> ClientParam list \<Rightarrow> ClientParam list" where
  "ordered_params it ppm cps =
     (let (order, overrides) = merge_params ppm cps (it (keys ppm), []);
          found = map (lookup_param ppm overrides) order
      in located ''path'' found @ located ''query'' found @ located ''header'' found)"

definition rename_param :: "ClientParam \<Rightarrow> ClientParam" where
  "rename_param p = p\<lparr>cp_name := sanitizeParamName (cp_name p)\<rparr>"

definition endpoint_body :: "(string, string) umap \<Rightarrow> ColOp \<Rightarrow> Endpoint \<Rightarrow> Endpoint" where
  "endpoint_body bodies co ep =
     (if hasRequestBody co then
        (case bodyRef co of
           Some cname \<Rightarrow>
             (case map_of bodies cname of
                Some t \<Rightarrow> ep\<lparr>body_type := t, has_request_body := True\<rparr>
              | None \<Rightarrow> ep)
         | None \<Rightarrow> ep\<lparr>body_content_type := bodyContentType co, body_type := bodyType co,
             has_request_body := True\<rparr>)
      else ep)"

definition endpoint_auth ::
  "(string list \<Rightarrow> string list) \<Rightarrow> (string, SchemeInfo) umap \<Rightarrow> bool \<Rightarrow> ColOp \<Rightarrow> Endpoint \<Rightarrow> Endpoint" where
  "endpoint_auth it schemes has_global co ep =
     (if (hasOpSecurity co \<or> (\<not> hasOpSecurity co \<and> has_global)) \<and> schemes \<noteq> [] then
        (case map_of schemes (hd (it (keys schemes))) of
           Some info \<Rightarrow>
             (if si_type info = ''apiKey'' \<and> si_in info = ''header''
              then ep\<lparr>auth_type := ApiKey, auth_header_name := si_name info\<rparr>
              else if si_type info = ''http'' \<and> si_scheme info = ''bearer''
              then ep\<lparr>auth_type := HttpBearer, auth_header_name := ''Authorization''\<rparr>
              else ep)
         | None \<Rightarrow> ep)
      else ep)"

text \<open>Every occurrence of \<open>ph\<close> becomes \<open>{}\<close>; the search resumes after it, so it looks at the rest of
  the original string only.\<close>

definition braces :: string where "braces = [obrace, cbrace]"

function replace_placeholder :: "string \<Rightarrow> string \<Rightarrow> string" where
  "replace_placeholder ph tmpl =
     (case find_sub ph tmpl of
        None \<Rightarrow> tmpl
      | Some pos \<Rightarrow>
          if ph = [] then tmpl
          else take pos tmpl @ braces @ replace_placeholder ph (drop (pos + length ph) tmpl))"
  by pat_completeness auto
termination
  by (relation "measure (\<lambda>(ph, tmpl). length tmpl)")
    (auto dest!: find_sub_SomeD simp: Suc_le_eq diff_less_mono2 length_greater_0_conv [symmetric]
      simp del: length_greater_0_conv)

declare replace_placeholder.simps [simp del]

definition make_template :: "string \<Rightarrow> ClientParam list \<Rightarrow> string" where
  "make_template path ps =
     foldl (\<lambda>tmpl pp. if location pp = ''path''
         then replace_placeholder ([obrace] @ cp_name pp @ [cbrace]) tmpl else tmpl) path ps"

definition build_endpoint ::
  "(string list \<Rightarrow> string list) \<Rightarrow> (string, ClientParam) umap \<Rightarrow> (string, string) umap \<Rightarrow>
   (string, SchemeInfo) umap \<Rightarrow> bool \<Rightarrow> ColOp \<Rightarrow> Endpoint option" where
  "build_endpoint it ppm bodies schemes has_global co =
     (let method = map tolower (co_method co)
      in if \<not> isSupportedMethod method then None
         else
           (let ps = map rename_param (ordered_params it ppm (op_params co));
                ep = \<lparr>ep_method = method, ep_path = co_path co, path_template = [],
                  function_name = generateFunctionName method (co_path co),
                  ep_summary = co_summary co, ep_description = co_description co,
                  cpp_verb = (if method = ''delete'' then ''delete_'' else method),
                  ep_params = ps, has_request_body = False, body_type = [],
                  body_content_type = [], auth_type = Auth_None, auth_header_name = []\<rparr>;
                ep = endpoint_auth it schemes has_global co (endpoint_body bodies co ep)
            in Some (ep\<lparr>path_template := make_template (co_path co) ps\<rparr>)))"

definition parseEndpoints :: "(string list \<Rightarrow> string list) \<Rightarrow> obj \<Rightarrow> Endpoint list result" where
  "parseEndpoints it spec =
     rbind (spec_components spec) (\<lambda>comps.
     rbind (rbind (Components_parameters comps) (\<lambda>ps. fetch_params ps [])) (\<lambda>fetched.
     rbind (rbind (Components_requestBodies comps) (\<lambda>bs. fetch_bodies bs [])) (\<lambda>bodies.
     rbind (rbind (Components_securitySchemes comps) (\<lambda>ss. fetch_schemes ss [])) (\<lambda>schemes.
     rbind (hasGlobalSecurity spec) (\<lambda>has_global.
     rbind (rbind (spec_paths spec) (\<lambda>ps. collect_paths fetched ps ([], []))) (\<lambda>(ppm, collected).
       Inr (List.map_filter (build_endpoint it ppm bodies schemes has_global) collected)))))))"

section \<open>The parameters of an endpoint\<close>

text \<open>The parameter that counts for a name: the last one of the operation, or the path's.\<close>

definition effective ::
  "(string, ClientParam) umap \<Rightarrow> ClientParam list \<Rightarrow> string \<Rightarrow> ClientParam option" where
  "effective ppm cps name =
     (case find (\<lambda>cp. cp_name cp = name) (rev cps) of Some cp \<Rightarrow> Some cp | None \<Rightarrow> map_of ppm name)"

text \<open>The maps the code builds with \<open>m[cp.name] = cp\<close>.\<close>

definition keyed :: "(string, ClientParam) umap \<Rightarrow> bool" where
  "keyed m \<longleftrightarrow> distinct (keys m) \<and> (\<forall>n cp. map_of m n = Some cp \<longrightarrow> cp_name cp = n)"

lemma keyed_update: "keyed m \<Longrightarrow> keyed (AList.update (cp_name cp) cp m)"
  by (auto simp: keyed_def distinct_keys_update map_of_update split: if_splits)

definition merge_inv ::
  "(string, ClientParam) umap \<Rightarrow> ClientParam list \<Rightarrow> string list \<times> (string, ClientParam) umap \<Rightarrow> bool" where
  "merge_inv ppm seen acc \<longleftrightarrow>
     (let (order, overrides) = acc in
        distinct order \<and> set order = key_set ppm \<union> cp_name ` set seen
        \<and> (\<forall>n. map_of overrides n = find (\<lambda>cp. cp_name cp = n) (rev seen)))"

lemma find_name_None:
  "find (\<lambda>cp. cp_name cp = n) (rev cps) = None \<longleftrightarrow> n \<notin> cp_name ` set cps"
  by (auto simp: find_None_iff)

lemma merge_inv_step:
  "merge_inv ppm seen acc \<Longrightarrow> merge_inv ppm (seen @ cps) (merge_params ppm cps acc)"
proof (induction ppm cps acc arbitrary: seen rule: merge_params.induct)
  case (1 ppm acc)
  then show ?case by simp
next
  case (2 ppm cp cps order overrides)
  have "cp_name cp \<in> set order \<longleftrightarrow> \<not> (map_of ppm (cp_name cp) = None \<and> map_of overrides (cp_name cp) = None)"
    using 2(2) by (auto simp: merge_inv_def key_set_iff find_name_None)
  then have "merge_inv ppm (seen @ [cp])
      (if map_of ppm (cp_name cp) = None \<and> map_of overrides (cp_name cp) = None
       then order @ [cp_name cp] else order, AList.update (cp_name cp) cp overrides)"
    using 2(2) by (auto simp: merge_inv_def map_of_update)
  from 2(1) [OF this] show ?case by simp
qed

lemma merge_params_spec:
  fixes cps :: "ClientParam list"
  assumes "hash_order it" and "keyed ppm"
  defines "order \<equiv> fst (merge_params ppm cps (it (keys ppm), []))"
  shows "distinct order" "set order = key_set ppm \<union> cp_name ` set cps"
    "map (lookup_param ppm (snd (merge_params ppm cps (it (keys ppm), [])))) order
      = map (effective ppm cps) order"
proof -
  have "merge_inv ppm [] (it (keys ppm), [])"
    using assms by (auto simp: merge_inv_def keyed_def hash_order_distinct hash_order_key_set)
  from merge_inv_step [OF this, of cps]
  have inv: "merge_inv ppm cps (merge_params ppm cps (it (keys ppm), []))" by simp
  then show "distinct order" "set order = key_set ppm \<union> cp_name ` set cps"
    by (auto simp: merge_inv_def order_def case_prod_unfold Let_def)
  show "map (lookup_param ppm (snd (merge_params ppm cps (it (keys ppm), [])))) order
      = map (effective ppm cps) order"
    using inv by (auto simp: merge_inv_def lookup_param_def effective_def case_prod_unfold Let_def)
qed

lemma effective_name: "keyed ppm \<Longrightarrow> effective ppm cps n = Some cp \<Longrightarrow> cp_name cp = n"
  by (auto simp: effective_def keyed_def find_Some_iff split: option.splits)

lemma effective_None: "effective ppm cps n = None \<longleftrightarrow> n \<notin> key_set ppm \<union> cp_name ` set cps"
  using find_name_None [of n cps] by (auto simp: effective_def key_set_iff split: option.splits)

lemma located_map: "located loc (map f ns) = filter (\<lambda>cp. location cp = loc) (List.map_filter f ns)"
  by (simp add: located_def List.map_filter_def filter_map comp_def)

lemma members_map_filter: "set (List.map_filter f xs) = {y. \<exists>x \<in> set xs. f x = Some y}"
  by (induction xs) (auto simp: List.map_filter_simps split: option.splits)

text \<open>A list grouped by three distinct keys.\<close>

definition grouped :: "('a \<Rightarrow> 'b) \<Rightarrow> 'b list \<Rightarrow> 'a list \<Rightarrow> 'a list" where
  "grouped f ks xs = concat (map (\<lambda>k. filter (\<lambda>x. f x = k) xs) ks)"

lemma grouped_facts:
  assumes "distinct ks"
  shows "set (grouped f ks xs) = {x \<in> set xs. f x \<in> set ks}"
    and "distinct (map g xs) \<Longrightarrow> distinct (map g (grouped f ks xs))"
    and "grouped f ks (grouped f ks xs) = grouped f ks xs"
proof -
  show s: "set (grouped f ks xs) = {x \<in> set xs. f x \<in> set ks}" for ks
    by (auto simp: grouped_def)
  show "distinct (map g (grouped f ks xs))" if "distinct (map g xs)"
    using assms
  proof (induction ks)
    case (Cons k ks)
    have "grouped f (k # ks) xs = filter (\<lambda>x. f x = k) xs @ grouped f ks xs"
      by (simp add: grouped_def)
    moreover have "g ` set (filter (\<lambda>x. f x = k) xs) \<inter> g ` set (grouped f ks xs) = {}"
      using that Cons.prems by (auto simp: s distinct_map dest: inj_onD)
    ultimately show ?case
      using Cons that by (simp add: distinct_map_filter)
  qed (simp add: grouped_def)
  have pick: "filter (\<lambda>x. f x = k) (grouped f ks xs) = (if k \<in> set ks then filter (\<lambda>x. f x = k) xs else [])" for k
    using assms
  proof (induction ks)
    case (Cons j ks)
    have "filter (\<lambda>x. f x = k \<and> f x = j) xs = (if k = j then filter (\<lambda>x. f x = k) xs else [])"
      "filter (\<lambda>x. f x = j \<and> f x = k) xs = (if k = j then filter (\<lambda>x. f x = k) xs else [])"
      by (induction xs) auto
    with Cons show ?case by (auto simp: grouped_def)
  qed (simp add: grouped_def)
  have "map (\<lambda>k. filter (\<lambda>x. f x = k) (grouped f ks xs)) ks = map (\<lambda>k. filter (\<lambda>x. f x = k) xs) ks"
    by (simp add: pick)
  then show "grouped f ks (grouped f ks xs) = grouped f ks xs"
    by (simp only: grouped_def)
qed

definition locations :: "string list" where
  "locations = [''path'', ''query'', ''header'']"

lemma distinct_locations: "distinct locations"
  by (simp add: locations_def)

text \<open>The list in front of the renaming: the effective parameter of every name, by location.\<close>

lemma ordered_params_spec:
  fixes cps :: "ClientParam list"
  assumes it: "hash_order it" and ppm: "keyed ppm"
  defines "ps \<equiv> ordered_params it ppm cps"
  shows "distinct (map cp_name ps)"
    and "set ps = {cp. (\<exists>n. effective ppm cps n = Some cp) \<and> location cp \<in> set locations}"
    and "ps = grouped location locations ps"
proof -
  define order where "order = fst (merge_params ppm cps (it (keys ppm), []))"
  define found where "found = List.map_filter (effective ppm cps) order"
  note m = merge_params_spec [OF it ppm, of cps, folded order_def]
  have ps: "ps = grouped location locations found"
    unfolding ps_def ordered_params_def Let_def case_prod_unfold order_def [symmetric] m(3)
    unfolding located_map found_def grouped_def locations_def by simp
  note g = grouped_facts [OF distinct_locations]
  have "effective ppm cps n \<noteq> None" if "n \<in> set order" for n
    using that m(2) effective_None by blast
  then have "map cp_name found = order"
    unfolding found_def using effective_name [OF ppm]
    by (induction order) (auto simp: List.map_filter_simps split: option.splits)
  then have names: "distinct (map cp_name found)" using m(1) by simp
  have "n \<in> set order" if "effective ppm cps n = Some cp" for n cp
    using that m(2) effective_None [of ppm cps n] by (cases "n \<in> set order") auto
  then have "set found = {cp. \<exists>n. effective ppm cps n = Some cp}"
    unfolding found_def members_map_filter by blast
  then show "set ps = {cp. (\<exists>n. effective ppm cps n = Some cp) \<and> location cp \<in> set locations}"
    unfolding ps g(1) by simp
  show "distinct (map cp_name ps)" unfolding ps by (rule g(2) [OF names])
  show "ps = grouped location locations ps" unfolding ps g(3) by (rule refl)
qed

section \<open>The path template\<close>

text \<open>A path as a list of pieces: text, a parameter in braces, a hole.\<close>

datatype piece = Lit string | Par string | Hole

fun render :: "piece list \<Rightarrow> string" where
  "render [] = []"
| "render (Lit s # ps) = s @ render ps"
| "render (Par n # ps) = obrace # n @ cbrace # render ps"
| "render (Hole # ps) = obrace # cbrace # render ps"

definition no_braces :: "string \<Rightarrow> bool" where
  "no_braces s \<longleftrightarrow> obrace \<notin> set s \<and> cbrace \<notin> set s"

fun wf_piece :: "piece \<Rightarrow> bool" where
  "wf_piece (Lit s) = no_braces s"
| "wf_piece (Par n) = (no_braces n \<and> n \<noteq> [])"
| "wf_piece Hole = True"

lemma replace_skip:
  "ph \<noteq> [] \<Longrightarrow> \<not> prefix ph (c # t) \<Longrightarrow> replace_placeholder ph (c # t) = c # replace_placeholder ph t"
  by (subst replace_placeholder.simps, subst (2) replace_placeholder.simps)
    (auto split: option.splits)

lemma find_sub_prefix: "prefix p s \<Longrightarrow> find_sub p s = Some 0"
  by (cases s) auto

lemma replace_hit: "ph \<noteq> [] \<Longrightarrow> replace_placeholder ph (ph @ t) = braces @ replace_placeholder ph t"
  by (subst replace_placeholder.simps) (simp add: find_sub_prefix)

lemma replace_Nil: "ph \<noteq> [] \<Longrightarrow> replace_placeholder ph [] = []"
  by (subst replace_placeholder.simps) simp

lemma replace_text:
  "obrace \<notin> set s \<Longrightarrow> replace_placeholder (obrace # ph) (s @ t) = s @ replace_placeholder (obrace # ph) t"
  by (induction s) (auto simp: replace_skip)

lemma prefix_placeholder:
  "cbrace \<notin> set n \<Longrightarrow> cbrace \<notin> set m \<Longrightarrow>
   prefix (obrace # n @ [cbrace]) (obrace # m @ cbrace # t) \<longleftrightarrow> n = m"
proof (induction n arbitrary: m)
  case Nil
  then show ?case by (cases m) auto
next
  case (Cons c n)
  then show ?case by (cases m) auto
qed

text \<open>Replacing the placeholder of a name turns exactly the parameters of that name into holes.\<close>

fun dig :: "string set \<Rightarrow> piece \<Rightarrow> piece" where
  "dig N (Par n) = (if n \<in> N then Hole else Par n)"
| "dig N (Lit s) = Lit s"
| "dig N Hole = Hole"

lemma replace_render:
  assumes "no_braces n"
  shows "\<forall>p \<in> set ps. wf_piece p \<Longrightarrow>
    replace_placeholder (obrace # n @ [cbrace]) (render ps) = render (map (dig {n}) ps)"
proof (induction ps rule: render.induct)
  case 1
  then show ?case by (simp add: replace_Nil)
next
  case (2 s ps)
  then show ?case by (simp add: replace_text no_braces_def)
next
  case (3 m ps)
  let ?ph = "obrace # n @ [cbrace]"
  have m: "no_braces m" using 3 by simp
  show ?case
  proof (cases "m = n")
    case True
    have "replace_placeholder ?ph (?ph @ render ps) = braces @ replace_placeholder ?ph (render ps)"
      by (rule replace_hit) simp
    with True 3 show ?thesis by (simp add: braces_def)
  next
    case False
    then have "\<not> prefix ?ph (obrace # m @ cbrace # render ps)"
      using prefix_placeholder assms m by (auto simp: no_braces_def)
    then have "replace_placeholder ?ph (obrace # m @ cbrace # render ps)
        = obrace # replace_placeholder ?ph (m @ cbrace # render ps)"
      by (intro replace_skip) simp_all
    also have "\<dots> = obrace # m @ [cbrace] @ replace_placeholder ?ph (render ps)"
      using replace_text [of "m @ [cbrace]" "n @ [cbrace]" "render ps"] m by (simp add: no_braces_def)
    finally show ?thesis using 3 False by simp
  qed
next
  case (4 ps)
  let ?ph = "obrace # n @ [cbrace]"
  show ?case
  proof (cases "n = []")
    case True
    with replace_hit [of ?ph "render ps"] 4 show ?thesis by (simp add: braces_def)
  next
    case False
    then have "\<not> prefix ?ph (obrace # cbrace # render ps)"
      using assms by (cases n) (auto simp: no_braces_def)
    then have "replace_placeholder ?ph (obrace # cbrace # render ps)
        = obrace # replace_placeholder ?ph ([cbrace] @ render ps)"
      by (simp add: replace_skip)
    with 4 replace_text [of "[cbrace]" "n @ [cbrace]" "render ps"] show ?thesis by simp
  qed
qed

lemma dig_wf: "wf_piece p \<Longrightarrow> wf_piece (dig N p)"
  by (cases p) auto

lemma dig_dig: "dig N (dig M p) = dig (M \<union> N) p"
  by (cases p) auto

lemma make_template_render:
  assumes "\<forall>p \<in> set ps. wf_piece p" and "\<forall>q \<in> set qs. location q = ''path'' \<longrightarrow> no_braces (cp_name q)"
  shows "make_template (render ps) qs = render (map (dig {n. \<exists>q \<in> set qs. location q = ''path'' \<and> cp_name q = n}) ps)"
  using assms
proof (induction qs arbitrary: ps)
  case Nil
  have "dig {} p = p" for p by (cases p) auto
  then show ?case by (simp add: make_template_def map_idI)
next
  case (Cons q qs)
  let ?N = "{n. \<exists>q \<in> set qs. location q = ''path'' \<and> cp_name q = n}"
  let ?M = "{n. \<exists>r \<in> set (q # qs). location r = ''path'' \<and> cp_name r = n}"
  have IH: "make_template (render ps') qs = render (map (dig ?N) ps')" if "\<forall>p \<in> set ps'. wf_piece p" for ps'
    using Cons that by simp
  show ?case
  proof (cases "location q = ''path''")
    case True
    have M: "?M = {cp_name q} \<union> ?N" using True by auto
    have "make_template (render ps) (q # qs)
        = make_template (render (map (dig {cp_name q}) ps)) qs"
      using True Cons.prems replace_render [of "cp_name q" ps] by (simp add: make_template_def)
    also have "\<dots> = render (map (dig ?M) ps)"
      using Cons.prems(1) IH [of "map (dig {cp_name q}) ps"] unfolding M
      by (simp add: dig_wf dig_dig comp_def)
    finally show ?thesis .
  next
    case False
    then have "?M = ?N" by auto
    with False IH [OF Cons.prems(1)] show ?thesis by (simp add: make_template_def)
  qed
qed

section \<open>Properties of the endpoints\<close>

lemma endpoint_body_fields [simp]:
  "ep_params (endpoint_body bodies co ep) = ep_params ep" "ep_path (endpoint_body bodies co ep) = ep_path ep"
  "ep_method (endpoint_body bodies co ep) = ep_method ep" "cpp_verb (endpoint_body bodies co ep) = cpp_verb ep"
  "function_name (endpoint_body bodies co ep) = function_name ep"
  by (simp_all add: endpoint_body_def split: option.splits)

lemma endpoint_auth_fields [simp]:
  "ep_params (endpoint_auth it schemes g co ep) = ep_params ep"
  "ep_path (endpoint_auth it schemes g co ep) = ep_path ep"
  "ep_method (endpoint_auth it schemes g co ep) = ep_method ep"
  "cpp_verb (endpoint_auth it schemes g co ep) = cpp_verb ep"
  "function_name (endpoint_auth it schemes g co ep) = function_name ep"
  by (simp_all add: endpoint_auth_def split: option.splits)

lemma build_endpoint_fields:
  assumes "build_endpoint it ppm bodies schemes g co = Some ep"
  shows "isSupportedMethod (map tolower (co_method co))" "ep_method ep = map tolower (co_method co)"
    "ep_path ep = co_path co" "ep_params ep = map rename_param (ordered_params it ppm (op_params co))"
    "path_template ep = make_template (co_path co) (ep_params ep)"
    "function_name ep = generateFunctionName (ep_method ep) (ep_path ep)"
  using assms by (auto simp: build_endpoint_def Let_def split: if_splits)

lemma build_endpoint_None:
  "build_endpoint it ppm bodies schemes g co = None \<longleftrightarrow> \<not> isSupportedMethod (map tolower (co_method co))"
  by (simp add: build_endpoint_def Let_def)

subsection \<open>Which endpoints there are\<close>

text \<open>The operations of the document, in its order, with the method in lower case.\<close>

definition operations :: "members \<Rightarrow> (string \<times> string) list" where
  "operations paths = concat (map (\<lambda>(p, v). case v of J_Object m \<Rightarrow> map (\<lambda>(k, _). (p, map tolower k)) m | _ \<Rightarrow> []) paths)"

lemma collect_op_fields:
  "collect_op path fetched method ob = Inr co \<Longrightarrow> co_path co = path \<and> co_method co = method \<and> ob \<noteq> None"
  by (cases ob) (auto simp: collect_op_def rbind_Inr_iff Operation_summary_def get_string_def split: prod.splits)

lemma collect_ops_fields:
  "collect_ops path fetched ops = Inr cols \<Longrightarrow>
   map (\<lambda>co. (co_path co, map tolower (co_method co))) cols = map (\<lambda>(k, _). (path, map tolower k)) ops
   \<and> (\<forall>(k, v) \<in> set ops. map_item v \<noteq> None)"
proof (induction path fetched ops arbitrary: cols rule: collect_ops.induct)
  case (2 path fetched k v ops)
  then show ?case by (fastforce simp: rbind_Inr_iff rmap_Inr_iff dest: collect_op_fields)
qed simp

lemma map_item_object: "map_item v \<noteq> None \<longleftrightarrow> (\<exists>m. v = J_Object m)"
  by (auto simp: map_item_def split: json.splits)

lemma path_without_parameters:
  assumes "Path_parameters ob = Inr l" and "Path_operations ob = Inr ops"
    and "\<forall>(k, v) \<in> set ops. map_item v \<noteq> None"
  shows "l = [] \<and> (\<exists>m. ob = Some m \<and> ops = m \<and> map_of m ''parameters'' = None)"
proof -
  obtain m where ob: "ob = Some m" "ops = m"
    using assms(2) by (auto simp: Path_operations_def split: option.splits)
  have "map_of m ''parameters'' = None"
  proof (rule ccontr)
    assume "map_of m ''parameters'' \<noteq> None"
    then obtain v where v: "map_of m ''parameters'' = Some v" by blast
    with assms(3) ob map_of_SomeD [OF v] have "\<exists>o'. v = J_Object o'"
      using map_item_object by fastforce
    with assms(1) v ob show False by (auto simp: Path_parameters_def get_list_def)
  qed
  with assms(1) ob show ?thesis by (auto simp: Path_parameters_def get_list_def)
qed

lemma collect_paths_spec:
  "collect_paths fetched paths ([], acc) = Inr (ppm, collected) \<Longrightarrow>
   ppm = [] \<and> map (\<lambda>co. (co_path co, map tolower (co_method co))) collected
     = map (\<lambda>co. (co_path co, map tolower (co_method co))) acc @ operations paths
   \<and> (\<forall>(p, v) \<in> set paths. \<exists>m. v = J_Object m \<and> map_of m ''parameters'' = None)"
proof (induction paths arbitrary: acc)
  case Nil
  then show ?case by (simp add: operations_def)
next
  case (Cons pv paths)
  obtain p v where pv: "pv = (p, v)" by fastforce
  from Cons.prems obtain l cps ops cols where
      l: "Path_parameters (map_item v) = Inr l" "resolve_params l fetched = Inr cps"
    and ops: "Path_operations (map_item v) = Inr ops" "collect_ops p fetched ops = Inr cols"
    and rest: "collect_paths fetched paths
        (foldl (\<lambda>m cp. AList.update (cp_name cp) cp m) [] cps, acc @ cols) = Inr (ppm, collected)"
    by (auto simp: pv rbind_Inr_iff)
  note c = collect_ops_fields [OF ops(2)]
  obtain m where m: "l = []" "map_item v = Some m" "ops = m" "map_of m ''parameters'' = None"
    using path_without_parameters [OF l(1) ops(1)] c by blast
  then have v: "v = J_Object m" by (auto simp: map_item_def split: json.splits)
  have "collect_paths fetched paths ([], acc @ cols) = Inr (ppm, collected)"
    using rest l(2) m(1) by simp
  from Cons.IH [OF this] c m v show ?case
    by (auto simp: pv operations_def)
qed

lemma map_filter_build:
  "map (\<lambda>e. (ep_path e, ep_method e)) (List.map_filter (build_endpoint it ppm bodies schemes g) cols)
   = filter (\<lambda>o'. isSupportedMethod (snd o')) (map (\<lambda>co. (co_path co, map tolower (co_method co))) cols)"
  using build_endpoint_None [of it ppm bodies schemes g] build_endpoint_fields(1-3)
  by (induction cols) (auto simp: List.map_filter_simps split: option.splits)

text \<open>A document with one operation, for the witnesses.\<close>

definition path_param :: "string \<Rightarrow> json" where
  "path_param n = J_Object [(''name'', J_String n), (''in'', J_String ''path''),
     (''required'', J_Bool True), (''schema'', J_Object [(''type'', J_String ''string'')])]"

definition sample_spec :: "string \<Rightarrow> json list \<Rightarrow> obj" where
  "sample_spec path ps = Some
     [(''paths'', J_Object [(path, J_Object [(''get'', J_Object [(''parameters'', J_Array ps)])])]),
      (''components'', J_Object [])]"

text \<open>C13: \<open>parseEndpoints\<close> yields one endpoint for every operation of the document whose method is
  supported, in the order of the document, with the method in lower case; and it only yields a list
  when no path object has a \<open>parameters\<close> member, since that member is iterated over as if it were an
  operation.\<close>

theorem parseEndpoints_operations:
  assumes "parseEndpoints it spec = Inr eps"
  shows "\<exists>paths. spec_paths spec = Inr paths
    \<and> (\<forall>(p, v) \<in> set paths. \<exists>m. v = J_Object m \<and> map_of m ''parameters'' = None)
    \<and> map (\<lambda>e. (ep_path e, ep_method e)) eps = filter (\<lambda>op'. isSupportedMethod (snd op')) (operations paths)"
proof -
  from assms obtain paths fetched bodies schemes g ppm collected where
      paths: "spec_paths spec = Inr paths" "collect_paths fetched paths ([], []) = Inr (ppm, collected)"
    and eps: "eps = List.map_filter (build_endpoint it ppm bodies schemes g) collected"
    by (auto simp: parseEndpoints_def rbind_Inr_iff)
  from collect_paths_spec [OF paths(2)] show ?thesis
    using paths(1) map_filter_build [of it ppm bodies schemes g collected] eps by auto
qed

lemma parse_sample:
  "\<exists>eps. parseEndpoints it (sample_spec ''/a/{id}'' [path_param ''id'']) = Inr eps"
  by (simp add: parseEndpoints_def sample_spec_def path_param_def spec_components_def get_object_def
      Components_parameters_def Components_requestBodies_def Components_securitySchemes_def get_map_def
      hasGlobalSecurity_def spec_paths_def Path_parameters_def get_list_def Path_operations_def
      collect_op_def Operation_summary_def Operation_description_def Operation_parameters_def
      map_item_def list_item_def resolveParameter_def IsRef_def ref_def inline_param_def
      Parameter_name_def Parameter_description_def Parameter_schema_def Parameter_in_def
      Parameter_required_def param_of_schema_def JsonSchema_type_def JsonSchema_format_def
      schemaToCppType_def collect_body_def Operation_requestBody_def is_valid_def accessor_defs
      Let_def)

theorem parseEndpoints_operations_witness:
  "\<exists>eps. parseEndpoints id (sample_spec ''/a/{id}'' [path_param ''id'']) = Inr eps
    \<and> map (\<lambda>e. (ep_path e, ep_method e)) eps = [(''/a/{id}'', ''get'')]"
proof -
  obtain eps where eps: "parseEndpoints id (sample_spec ''/a/{id}'' [path_param ''id'']) = Inr eps"
    using parse_sample by blast
  from parseEndpoints_operations [OF this] show ?thesis
    using eps by (auto simp: sample_spec_def spec_paths_def get_map_def operations_def isSupportedMethod_def)
qed

subsection \<open>Parameters and templates\<close>

text \<open>C8: the parameters of an endpoint. Every name that the path or the operation declares contributes
  its effective parameter (the last one of the operation with that name, otherwise the path's) if it
  is located in the path, the query or the header, exactly once, in this order of locations; the only
  change is the sanitised C++ name, the wire name is kept.\<close>

theorem endpoint_parameters:
  assumes "hash_order it" and "keyed ppm" and "build_endpoint it ppm bodies schemes g co = Some ep"
  shows "\<exists>ps. ep_params ep = map rename_param ps \<and> map wire_name (ep_params ep) = map wire_name ps
    \<and> distinct (map cp_name ps) \<and> ps = grouped location locations ps
    \<and> set ps = {cp. (\<exists>n. effective ppm (op_params co) n = Some cp) \<and> location cp \<in> set locations}"
  using ordered_params_spec [OF assms(1,2), of "op_params co"] build_endpoint_fields(4) [OF assms(3)]
  by (intro exI [of _ "ordered_params it ppm (op_params co)"]) (simp add: rename_param_def comp_def)

definition sample_op :: "string \<Rightarrow> ClientParam list \<Rightarrow> ColOp" where
  "sample_op path cps = \<lparr>co_path = path, co_method = ''get'', co_summary = [], co_description = [],
     op_params = cps, hasRequestBody = False, bodyType = [], bodyContentType = [], bodyRef = None,
     hasOpSecurity = False\<rparr>"

definition sample_param :: "string \<Rightarrow> string \<Rightarrow> ClientParam" where
  "sample_param name loc = empty_param\<lparr>cp_name := name, wire_name := name, location := loc\<rparr>"

lemma keyed_Nil: "keyed []"
  by (simp add: keyed_def)

lemma build_sample: "\<exists>ep. build_endpoint it ppm bodies schemes g (sample_op path cps) = Some ep"
  using build_endpoint_None [of it ppm bodies schemes g "sample_op path cps"]
  by (cases "build_endpoint it ppm bodies schemes g (sample_op path cps)")
    (auto simp: sample_op_def isSupportedMethod_def)

theorem endpoint_parameters_witness:
  "\<exists>ep. build_endpoint rev [] [] [] False
      (sample_op ''/a'' [sample_param ''q'' ''query'', sample_param ''id'' ''path'']) = Some ep
    \<and> wire_name ` set (ep_params ep) = {''q'', ''id''}"
proof -
  let ?cps = "[sample_param ''q'' ''query'', sample_param ''id'' ''path'']"
  obtain ep where ep: "build_endpoint rev [] [] [] False (sample_op ''/a'' ?cps) = Some ep"
    using build_sample by blast
  from endpoint_parameters [OF hash_order_rev keyed_Nil ep] obtain ps where
      ps: "map wire_name (ep_params ep) = map wire_name ps"
        "set ps = {cp. (\<exists>n. effective [] ?cps n = Some cp) \<and> location cp \<in> set locations}"
    by (auto simp: sample_op_def)
  have "set ps = set ?cps"
    unfolding ps(2) by (auto simp: effective_def sample_param_def locations_def split: if_splits)
  moreover have "wire_name ` set (ep_params ep) = wire_name ` set ps"
    using ps(1) by (metis list.set_map)
  ultimately show ?thesis using ep by (auto simp: sample_param_def)
qed

lemma sanitizeParamName_no_braces: "no_braces (sanitizeParamName n)"
  by (auto simp: no_braces_def sanitizeParamName_def)

text \<open>C9: the path template. In a path made of text and parameters in braces, exactly the parameters
  whose braced name is the sanitised name of a path parameter of the endpoint become \<open>{}\<close>; all other
  text, and the placeholders of undeclared or renamed parameters, stay as they are.\<close>

theorem path_template_render:
  assumes "build_endpoint it ppm bodies schemes g co = Some ep" and "co_path co = render ps"
    and "\<forall>p \<in> set ps. wf_piece p"
  shows "path_template ep =
    render (map (dig {n. \<exists>q \<in> set (ep_params ep). location q = ''path'' \<and> cp_name q = n}) ps)"
proof -
  note f = build_endpoint_fields [OF assms(1)]
  have "\<forall>q \<in> set (ep_params ep). no_braces (cp_name q)"
    by (auto simp: f(4) rename_param_def sanitizeParamName_no_braces)
  then show ?thesis
    using make_template_render [OF assms(3), of "ep_params ep"] f(5) assms(2) by simp
qed

theorem path_template_render_witness:
  "\<exists>ep. build_endpoint id [] [] [] False
      (sample_op ''/a/{id}/b/{token}'' [sample_param ''id'' ''path'', sample_param ''token'' ''path'']) = Some ep
    \<and> path_template ep = ''/a/{}/b/{token}''"
proof -
  let ?cps = "[sample_param ''id'' ''path'', sample_param ''token'' ''path'']"
  let ?ps = "[Lit ''/a/'', Par ''id'', Lit ''/b/'', Par ''token'']"
  obtain ep where ep: "build_endpoint id [] [] [] False (sample_op ''/a/{id}/b/{token}'' ?cps) = Some ep"
    using build_sample by blast
  have path: "co_path (sample_op ''/a/{id}/b/{token}'' ?cps) = render ?ps"
    by (simp add: sample_op_def)
  have "ep_params ep = map rename_param ?cps"
    using build_endpoint_fields(4) [OF ep]
    by (simp add: sample_op_def sample_param_def ordered_params_def located_def lookup_param_def
        empty_param_def List.map_filter_simps)
  with path_template_render [OF ep path] ep show ?thesis
    by (auto simp: no_braces_def rename_param_def sample_param_def empty_param_def sanitizeParamName_def
        reserved_params_def)
qed

end
