(* ===== verification/Server_Gen.thy ===== *)
theory Server_Gen
  imports Endpoint_IR
begin

text \<open>
  \<open>generator/src/Backend/Beast/BeastServerGen.cpp\<close>: the text of the generated server, and what the
  generated routing does. \<open>emitServerHpp\<close> and \<open>emitServerCpp\<close> are the emitters; \<open>match_path\<close> and
  \<open>handle_request\<close> are the two functions whose text \<open>emitServerCpp\<close> writes, with the tables it
  writes for them.
\<close>

section \<open>The emitted text\<close>


definition emit_handler_decl :: "Endpoint \<Rightarrow> string" where
  "emit_handler_decl ep =
     (if ep_summary ep \<noteq> [] then write_multiline_comment (ep_summary ep) (tabs 1) else [])
     @ line [tabs 1, ''virtual void '', function_name ep, ''(const request, Session::Ptr) = 0;''] @ line []"

definition emitServerHpp :: "string \<Rightarrow> Endpoint list \<Rightarrow> string" where
  "emitServerHpp ns endpoints =
     line [''#pragma once''] @ line [''#include <boost/asio.hpp>''] @ line [''#include <boost/asio/ip/tcp.hpp>'']
     @ line [''#include <boost/beast/core.hpp>''] @ line [''#include <boost/beast/http.hpp>'']
     @ line [''#include <functional>''] @ line [''#include <memory>''] @ line [''#include <string>'']
     @ line [''#include <string_view>''] @ line []
     @ line [''#include '', quoted DEFS_HPP] @ line [''#include <siesta/beast/server.hpp>''] @ line []
     @ line [''namespace '', ns, '' {''] @ line []
     @ line [''class Server : public ::siesta::beast::ServerBase {''] @ line [''public:'']
     @ line [tabs 1, ''using Config = ::siesta::beast::ServerBase::Config;'']
     @ line [tabs 1, ''using ::siesta::beast::ServerBase::ServerBase;'']
     @ line [tabs 1, ''using ::siesta::beast::ServerBase::Session;'']
     @ line [tabs 1, ''using request = ::siesta::beast::ServerBase::request;''] @ line []
     @ line [tabs 1, ''void handle_request(const request, Session::Ptr) final;''] @ line []
     @ concat (map emit_handler_decl endpoints)
     @ line [''}; // class Server''] @ line [] @ line [''} // namespace '', ns]"

text \<open>The split into the two tables.\<close>

definition is_param_ep :: "Endpoint \<Rightarrow> bool" where
  "is_param_ep ep \<longleftrightarrow> contains_sub braces (path_template ep)"

definition static_eps :: "Endpoint list \<Rightarrow> Endpoint list" where
  "static_eps endpoints = filter (\<lambda>ep. \<not> is_param_ep ep) endpoints"

definition param_eps :: "Endpoint list \<Rightarrow> Endpoint list" where
  "param_eps endpoints = filter is_param_ep endpoints"

definition static_entry :: "Endpoint \<Rightarrow> string" where
  "static_entry ep = line [tabs 1, ''{{'', quoted (escapeCppString (ep_path ep)), ''sv, http::verb::'',
     cpp_verb ep, ''}, &Server::'', function_name ep, ''},'']"

definition param_entry :: "Endpoint \<Rightarrow> string" where
  "param_entry ep = line [tabs 1, ''{'', quoted (escapeCppString (path_template ep)), ''sv, {http::verb::'',
     cpp_verb ep, '', &Server::'', function_name ep, ''}},'']"

definition emit_match_path :: string where
  "emit_match_path =
     line [''bool match_path(std::string_view pattern, std::string_view target) {'']
     @ line [tabs 1, ''while (!pattern.empty() && !target.empty()) {'']
     @ line [tabs 2, ''if (pattern.front() == '', [CHR 0x27, CHR ''/'', CHR 0x27], '' && target.front() == '',
         [CHR 0x27, CHR ''/'', CHR 0x27], '') {'']
     @ line [tabs 3, ''pattern.remove_prefix(1);'']
     @ line [tabs 3, ''target.remove_prefix(1);'']
     @ line [tabs 3, ''continue;'']
     @ line [tabs 2, ''}'']
     @ line [tabs 2, ''auto pp = pattern.find('', [CHR 0x27, CHR ''/'', CHR 0x27], '');'']
     @ line [tabs 2, ''auto tp = target.find('', [CHR 0x27, CHR ''/'', CHR 0x27], '');'']
     @ line [tabs 2, ''auto ps = pattern.substr(0, pp);'']
     @ line [tabs 2, ''auto ts = target.substr(0, tp);'']
     @ line [tabs 2, ''if (ps != '', quoted braces, ''sv && ps != ts) return false;'']
     @ line [tabs 2, ''pattern = pp == std::string_view::npos ? '', quoted [], ''sv : pattern.substr(pp);'']
     @ line [tabs 2, ''target  = tp == std::string_view::npos ? '', quoted [], ''sv : target.substr(tp);'']
     @ line [tabs 1, ''}'']
     @ line [tabs 1, ''return pattern == target;'']
     @ line [''}''] @ line []"

definition emit_static_table :: "Endpoint list \<Rightarrow> string" where
  "emit_static_table eps =
     (if eps = [] then []
      else line [''const std::unordered_map<std::pair<std::string_view, http::verb>, fnptr_t,'']
        @ line [''    ::siesta::beast::__detail::MapHash> STATIC_PATHS = {'']
        @ concat (map static_entry eps) @ line [''};''] @ line [])"

definition emit_param_table :: "Endpoint list \<Rightarrow> string" where
  "emit_param_table eps =
     (if eps = [] then []
      else line [''const std::pair<std::string_view, std::pair<http::verb, fnptr_t>> PARAM_PATHS[] = {'']
        @ concat (map param_entry eps) @ line [''};''] @ line [])"

definition emit_handle_request :: "bool \<Rightarrow> bool \<Rightarrow> string" where
  "emit_handle_request has_static has_param =
     line [''void Server::handle_request(const request req, Session::Ptr session) {'']
     @ line [tabs 1, ''auto target = std::string_view(req.target());'']
     @ line [tabs 1, ''if (auto q = target.find('', [CHR 0x27, CHR ''?'', CHR 0x27],
         ''); q != std::string_view::npos) target = target.substr(0, q);'']
     @ line [tabs 1, ''const auto method = req.method();''] @ line []
     @ (if has_static then
          line [tabs 1, ''if (auto it = STATIC_PATHS.find({target, method}); it != STATIC_PATHS.end()) {'']
          @ line [tabs 2, ''return (this->*(it->second))(req, std::move(session));'']
          @ line [tabs 1, ''}''] @ line []
        else [])
     @ (if has_param then
          line [tabs 1, ''for (const auto& [pattern, verb_fn] : PARAM_PATHS) {'']
          @ line [tabs 2, ''if (match_path(pattern, target) && verb_fn.first == method) {'']
          @ line [tabs 3, ''return (this->*(verb_fn.second))(req, std::move(session));'']
          @ line [tabs 2, ''}''] @ line [tabs 1, ''}''] @ line []
        else [])
     @ line [tabs 1, ''// 404 Not Found'']
     @ line [tabs 1, ''auto& resp = session->get_response();'']
     @ line [tabs 1, ''resp.result(http::status::not_found);'']
     @ line [tabs 1, ''session->write();''] @ line [''}''] @ line []"

definition emitServerCpp :: "string \<Rightarrow> Endpoint list \<Rightarrow> string" where
  "emitServerCpp ns endpoints =
     line [''#include '', quoted ''server.hpp''] @ line []
     @ line [''#include <string_view>''] @ line [''#include <unordered_map>''] @ line [''#include <utility>''] @ line []
     @ line [''namespace http = ::boost::beast::http;'']
     @ line [''using std::literals::string_view_literals::operator'', quoted [], ''sv;''] @ line []
     @ line [''namespace '', ns, '' {''] @ line [''namespace {''] @ line []
     @ line [''using fnptr_t = void (Server::*)(const Server::request, Server::Session::Ptr);''] @ line []
     @ emit_static_table (static_eps endpoints)
     @ emit_match_path
     @ emit_param_table (param_eps endpoints)
     @ line [''} // anonymous namespace''] @ line []
     @ emit_handle_request (static_eps endpoints \<noteq> []) (param_eps endpoints \<noteq> [])
     @ line [''} // namespace '', ns]"

text \<open>The files the generator writes: none when there are no endpoints.\<close>

definition BeastServerGenerator :: "string \<Rightarrow> Endpoint list \<Rightarrow> (string \<times> string) list" where
  "BeastServerGenerator ns endpoints =
     (if endpoints = [] then []
      else [(SERVER_HPP, emitServerHpp ns endpoints), (SERVER_CPP, emitServerCpp ns endpoints)])"

section \<open>The generated routing\<close>

abbreviation slash :: char where "slash \<equiv> CHR 0x2F"

text \<open>\<open>s.substr(0, s.find('/'))\<close> and what is left, from the slash on.\<close>

definition seg_head :: "string \<Rightarrow> string" where "seg_head s = fst (split1 slash s)"
definition seg_tail :: "string \<Rightarrow> string" where
  "seg_tail s = (case snd (split1 slash s) of None \<Rightarrow> [] | Some r \<Rightarrow> slash # r)"

lemma seg_cases:
  obtains (one) "seg_head s = s" "seg_tail s = []" "slash \<notin> set s"
  | (more) r where "s = seg_head s @ slash # r" "seg_tail s = slash # r" "slash \<notin> set (seg_head s)"
proof (cases "split1 slash s")
  case (Pair t r)
  show thesis
  proof (cases r)
    case None
    with Pair split1_NoneD [of slash s t] one show thesis by (auto simp: seg_head_def seg_tail_def)
  next
    case (Some r')
    with Pair split1_SomeD [of slash s t r'] more show thesis by (auto simp: seg_head_def seg_tail_def)
  qed
qed

lemma seg_tail_less: "s \<noteq> [] \<Longrightarrow> hd s \<noteq> slash \<Longrightarrow> length (seg_tail s) < length s"
proof (cases s rule: seg_cases)
  case (more r)
  assume "s \<noteq> []" "hd s \<noteq> slash"
  with more(1) have "seg_head s \<noteq> []" by (metis append_Nil list.sel(1))
  moreover have "length s = length (seg_head s) + Suc (length r)"
    using arg_cong [OF more(1), of length] by simp
  ultimately show ?thesis using more(2) by simp
qed simp

function match_path :: "string \<Rightarrow> string \<Rightarrow> bool" where
  "match_path pattern target =
     (if pattern \<noteq> [] \<and> target \<noteq> [] then
        (if hd pattern = slash \<and> hd target = slash then match_path (tl pattern) (tl target)
         else
           (let ps = seg_head pattern; ts = seg_head target
            in if ps \<noteq> braces \<and> ps \<noteq> ts then False
               else match_path (seg_tail pattern) (seg_tail target)))
      else pattern = target)"
  by pat_completeness auto

text \<open>It ends: when the pattern starts with a slash and the target does not, the empty segment of the
  pattern is different from the target's.\<close>

lemma match_path_step:
  assumes "pattern \<noteq> []" "target \<noteq> []" "\<not> (hd pattern = slash \<and> hd target = slash)"
    "seg_head pattern = braces \<or> seg_head pattern = seg_head target"
  shows "length (seg_tail pattern) < length pattern"
proof (cases "hd pattern = slash")
  case True
  then have "seg_head pattern = []" using assms(1) by (cases pattern) (auto simp: seg_head_def)
  moreover have "seg_head target \<noteq> []"
    using True assms(2,3) by (cases target) (auto simp: seg_head_def split: prod.splits)
  ultimately show ?thesis using assms(4) by (simp add: braces_def)
next
  case False
  with assms(1) show ?thesis by (rule seg_tail_less)
qed

termination match_path
  by (relation "measure (\<lambda>(pattern, target). length pattern)") (auto intro: match_path_step)

declare match_path.simps [simp del]

text \<open>\<open>handle_request\<close>: the query is cut off, the static table is looked up (the first entry of a key
  counts), then the patterns are tried in order. \<open>None\<close> is the 404 response; a handler is named by
  its endpoint.\<close>

definition strip_query :: "string \<Rightarrow> string" where
  "strip_query target = fst (split1 (CHR ''?'') target)"

definition static_lookup :: "Endpoint list \<Rightarrow> string \<Rightarrow> string \<Rightarrow> Endpoint option" where
  "static_lookup eps target verb = find (\<lambda>ep. ep_path ep = target \<and> cpp_verb ep = verb) eps"

definition param_lookup :: "Endpoint list \<Rightarrow> string \<Rightarrow> string \<Rightarrow> Endpoint option" where
  "param_lookup eps target verb = find (\<lambda>ep. match_path (path_template ep) target \<and> cpp_verb ep = verb) eps"

definition handle_request :: "Endpoint list \<Rightarrow> string \<Rightarrow> string \<Rightarrow> Endpoint option" where
  "handle_request endpoints target verb =
     (let target = strip_query target
      in case static_lookup (static_eps endpoints) target verb of
           Some ep \<Rightarrow> Some ep
         | None \<Rightarrow> param_lookup (param_eps endpoints) target verb)"

section \<open>What the routing does\<close>

text \<open>Segment by segment: the numbers of segments are equal, and every pattern segment is equal to the
  target's or is \<open>{}\<close>; a hole at the end takes no empty segment.\<close>

fun match_segs :: "string list \<Rightarrow> string list \<Rightarrow> bool" where
  "match_segs [p] [t] = (p = t \<or> (p = braces \<and> t \<noteq> []))"
| "match_segs (p # p' # ps) (t # t' # ts) = ((p = braces \<or> p = t) \<and> match_segs (p' # ps) (t' # ts))"
| "match_segs _ _ = False"

lemma match_segs_Cons:
  "ps \<noteq> [] \<Longrightarrow> ts \<noteq> [] \<Longrightarrow> match_segs (p # ps) (t # ts) \<longleftrightarrow> (p = braces \<or> p = t) \<and> match_segs ps ts"
  by (cases ps; cases ts) auto

lemma match_segs_length: "match_segs ps ts \<Longrightarrow> length ps = length ts"
  by (induction ps ts rule: match_segs.induct) auto

lemma segs_seg: "segs slash s = (if seg_tail s = [] then [s] else seg_head s # segs slash (tl (seg_tail s)))"
  by (cases s rule: seg_cases) (auto simp: segs_no_sep, metis segs_append)

lemma segs_single: "length (segs c t) = 1 \<Longrightarrow> segs c t = [t]"
  using join_segs [of c t] by (cases "segs c t") auto

lemma match_segs_empty:
  "match_segs [[]] (segs slash t) \<longleftrightarrow> t = []" "match_segs (segs slash t) [[]] \<longleftrightarrow> t = []"
proof -
  have one: "length (segs slash t) = 1" if "match_segs [[]] (segs slash t) \<or> match_segs (segs slash t) [[]]"
    using that match_segs_length by fastforce
  show "match_segs [[]] (segs slash t) \<longleftrightarrow> t = []"
  proof
    assume m: "match_segs [[]] (segs slash t)"
    with one have "segs slash t = [t]" by (intro segs_single) blast
    with m show "t = []" by (simp add: braces_def)
  qed simp
  show "match_segs (segs slash t) [[]] \<longleftrightarrow> t = []"
  proof
    assume m: "match_segs (segs slash t) [[]]"
    with one have "segs slash t = [t]" by (intro segs_single) blast
    with m show "t = []" by simp
  qed simp
qed

lemma match_path_empty: "match_path [] t \<longleftrightarrow> t = []" "match_path t [] \<longleftrightarrow> t = []"
  by (subst match_path.simps; auto)+

lemma match_segs_diff: "ts \<noteq> [] \<Longrightarrow> \<not> match_segs [p] (t # ts)" "ts \<noteq> [] \<Longrightarrow> \<not> match_segs (t # ts) [p]"
  by (cases ts; simp)+

lemma match_path_segs: "match_path pattern target \<longleftrightarrow> match_segs (segs slash pattern) (segs slash target)"
proof (induction pattern target rule: match_path.induct)
  case (1 pattern target)
  consider (empty) "pattern = [] \<or> target = []"
    | (slashes) p t where "pattern = slash # p" "target = slash # t"
    | (seg) "pattern \<noteq> []" "target \<noteq> []" "\<not> (hd pattern = slash \<and> hd target = slash)"
    by (cases pattern; cases target) auto
  then show ?case
  proof cases
    case empty
    then show ?thesis by (subst match_path.simps) (auto simp: match_segs_empty)
  next
    case slashes
    have "match_path pattern target \<longleftrightarrow> match_path p t"
      using slashes by (subst match_path.simps) simp
    also have "\<dots> \<longleftrightarrow> match_segs (segs slash p) (segs slash t)"
      using 1(1) slashes by simp
    finally show ?thesis using slashes by (simp add: match_segs_Cons)
  next
    case seg
    let ?ok = "seg_head pattern = braces \<or> seg_head pattern = seg_head target"
    have step: "match_path pattern target \<longleftrightarrow> ?ok \<and> match_path (seg_tail pattern) (seg_tail target)"
      using seg by (subst match_path.simps) (auto simp: Let_def)
    have IH: "?ok \<Longrightarrow> match_path (seg_tail pattern) (seg_tail target)
        \<longleftrightarrow> match_segs (segs slash (seg_tail pattern)) (segs slash (seg_tail target))"
      using 1(2) seg by auto
    show ?thesis
    proof (cases pattern rule: seg_cases)
      case p: one
      then have "segs slash pattern = [pattern]" by (simp add: segs_no_sep)
      then show ?thesis
        using seg p step by (cases target rule: seg_cases)
          (auto simp: match_path_empty segs_no_sep segs_seg [of target] match_segs_diff)
    next
      case p: (more r)
      then have P: "segs slash pattern = seg_head pattern # segs slash r" by (simp add: segs_seg [of pattern])
      show ?thesis
      proof (cases target rule: seg_cases)
        case one
        with P p step show ?thesis
          by (simp add: match_path_empty segs_no_sep match_segs_diff)
      next
        case (more r')
        then have "segs slash target = seg_head target # segs slash r'" by (simp add: segs_seg [of target])
        with P p more step IH show ?thesis by (auto simp: match_segs_Cons)
      qed
    qed
  qed
qed


text \<open>The generated \<open>match_path\<close> compares segment by segment: it accepts a target exactly when it
  has as many segments as the pattern and every pattern segment equals the target's or is \<open>{}\<close>; a
  hole in the last position takes no empty segment (one in any other position does).\<close>

theorem match_path_segments:
  "match_path pattern target \<longleftrightarrow> match_segs (segs slash pattern) (segs slash target)"
  by (rule match_path_segs)

text \<open>The paths an endpoint answers to.\<close>

definition answers :: "Endpoint \<Rightarrow> string \<Rightarrow> bool" where
  "answers ep path =
     (if is_param_ep ep then match_segs (segs slash (path_template ep)) (segs slash path)
      else ep_path ep = path)"

lemma find_filter: "find P (filter Q xs) = find (\<lambda>x. Q x \<and> P x) xs"
  by (induction xs) auto

lemma find_append: "find P (xs @ ys) = (case find P xs of Some x \<Rightarrow> Some x | None \<Rightarrow> find P ys)"
  by (induction xs) auto

lemma handle_request_find:
  "handle_request endpoints target verb =
     find (\<lambda>ep. cpp_verb ep = verb \<and> answers ep (strip_query target)) (static_eps endpoints @ param_eps endpoints)"
proof -
  have "static_lookup (static_eps endpoints) path verb
      = find (\<lambda>ep. cpp_verb ep = verb \<and> answers ep path) (static_eps endpoints)" for path
    unfolding static_lookup_def static_eps_def find_filter
    by (rule arg_cong [where f = "\<lambda>P. find P endpoints"]) (auto simp: answers_def)
  moreover have "param_lookup (param_eps endpoints) path verb
      = find (\<lambda>ep. cpp_verb ep = verb \<and> answers ep path) (param_eps endpoints)" for path
    unfolding param_lookup_def param_eps_def find_filter
    by (rule arg_cong [where f = "\<lambda>P. find P endpoints"]) (auto simp: answers_def match_path_segs)
  ultimately show ?thesis
    by (simp add: handle_request_def Let_def find_append split: option.split)
qed

lemma set_tables: "set (static_eps endpoints @ param_eps endpoints) = set endpoints"
  by (auto simp: static_eps_def param_eps_def)

text \<open>C12: the generated \<open>handle_request\<close> cuts the query off and calls the first endpoint with the
  request's verb that answers to the path, all endpoints without holes before all endpoints with
  holes and otherwise in the order of the document; it answers 404 exactly when no endpoint of that
  verb answers to the path.\<close>

theorem handle_request_dispatch:
  "handle_request endpoints target verb =
     find (\<lambda>ep. cpp_verb ep = verb \<and> answers ep (strip_query target))
       (filter (\<lambda>ep. \<not> is_param_ep ep) endpoints @ filter is_param_ep endpoints)
   \<and> (handle_request endpoints target verb = None \<longleftrightarrow>
        \<not> (\<exists>ep \<in> set endpoints. cpp_verb ep = verb \<and> answers ep (strip_query target)))"
  using set_tables [of endpoints]
  by (auto simp: handle_request_find find_None_iff simp flip: static_eps_def param_eps_def)

text \<open>The entries of the two tables carry the paths exactly: read back by the rules of C++ string
  literals, the literal of a static entry is the path and the literal of a parametric entry is the
  path template, and the text goes on with the verb and the handler; every endpoint has exactly one
  entry, in one of the tables.\<close>

lemma server_table_literals:
  "lex_string_literal (drop 3 (static_entry ep)) =
     Some (ep_path ep, ''sv, http::verb::'' @ cpp_verb ep @ ''}, &Server::'' @ function_name ep @ ''},'' @ [nl])
   \<and> lex_string_literal (drop 2 (param_entry ep)) =
     Some (path_template ep, ''sv, {http::verb::'' @ cpp_verb ep @ '', &Server::'' @ function_name ep @ ''}},'' @ [nl])
   \<and> length (filter (\<lambda>x. x = ep) (static_eps eps)) + length (filter (\<lambda>x. x = ep) (param_eps eps))
     = length (filter (\<lambda>x. x = ep) eps)"
proof -
  have "length (filter (\<lambda>x. x = ep) (static_eps eps)) + length (filter (\<lambda>x. x = ep) (param_eps eps))
      = length (filter (\<lambda>x. x = ep) eps)"
    by (induction eps) (auto simp: static_eps_def param_eps_def)
  moreover have "drop 3 (static_entry ep) = quoted (escapeCppString (ep_path ep))
      @ ''sv, http::verb::'' @ cpp_verb ep @ ''}, &Server::'' @ function_name ep @ ''},'' @ [nl]"
    by (simp add: static_entry_def line_def tabs_def eval_nat_numeral)
  moreover have "drop 2 (param_entry ep) = quoted (escapeCppString (path_template ep))
      @ ''sv, {http::verb::'' @ cpp_verb ep @ '', &Server::'' @ function_name ep @ ''}},'' @ [nl]"
    by (simp add: param_entry_def line_def tabs_def eval_nat_numeral)
  ultimately show ?thesis by (simp only: lex_quoted simp_thms)
qed

end
