(* ===== verification/Encoding.thy ===== *)
theory Encoding
  imports Siesta_Prelude "HOL-Library.Word"
begin

text \<open>
  \<open>include/siesta/encoding.hpp\<close>: the percent encoder and the \<open>query_value\<close> overloads that
  every generated client uses to build a query string. The overloads for \<open>float\<close> and
  \<open>double\<close> print through the C library's formatting and are not modelled.
\<close>

unbundle bit_operations_syntax

section \<open>Percent encoding\<close>

definition hex_digits :: string where
  "hex_digits = ''0123456789ABCDEF''"

definition unreserved :: "char \<Rightarrow> bool" where
  "unreserved c \<longleftrightarrow>
     (CHR ''a'' \<le> c \<and> c \<le> CHR ''z'') \<or> (CHR ''A'' \<le> c \<and> c \<le> CHR ''Z'') \<or>
     (CHR ''0'' \<le> c \<and> c \<le> CHR ''9'') \<or> c = CHR ''-'' \<or> c = CHR ''_'' \<or>
     c = CHR ''.'' \<or> c = CHR ''~''"

text \<open>One iteration of the loop of \<open>url_encode\<close>: the byte is an \<open>unsigned char\<close>.\<close>

definition url_encode_char :: "char \<Rightarrow> string" where
  "url_encode_char ch =
     (if unreserved ch then [ch]
      else let c = (of_char ch :: 8 word)
        in [CHR ''%'', hex_digits ! unat (drop_bit 4 c), hex_digits ! unat (c AND 15)])"

definition url_encode :: "string \<Rightarrow> string" where
  "url_encode sv = concat (map url_encode_char sv)"

text \<open>The reader of the encoding, as RFC 3986 states it for upper-case digits.\<close>

definition hex_value :: "char \<Rightarrow> nat" where
  "hex_value h = (if CHR ''0'' \<le> h \<and> h \<le> CHR ''9'' then of_char h - 48 else of_char h - 55)"

fun url_decode :: "string \<Rightarrow> string" where
  "url_decode (c # h # l # s) =
     (if c = CHR ''%'' then char_of (16 * hex_value h + hex_value l) # url_decode s
      else c # url_decode (h # l # s))"
| "url_decode (c # s) = c # url_decode s"
| "url_decode [] = []"

definition url_safe :: "char \<Rightarrow> bool" where
  "url_safe c \<longleftrightarrow> unreserved c \<or> c = CHR ''%''"

text \<open>The two hexadecimal digits of a byte.\<close>

lemma hex_digit:
  assumes "n < 16"
  shows "hex_value (hex_digits ! n) = n \<and> url_safe (hex_digits ! n)"
proof -
  have "\<forall>n \<in> set [0..<16]. hex_value (hex_digits ! n) = n \<and> url_safe (hex_digits ! n)"
    by code_simp
  with assms show ?thesis by simp
qed

lemma unat_of_char: "unat (of_char c :: 8 word) = of_char c"
proof -
  have "(of_char c :: 8 word) = of_nat (of_char c)" by (simp add: of_nat_of_char)
  moreover have "of_char c < (256::nat)" by (rule nat_of_char_less_256)
  ultimately show ?thesis by (simp add: unat_of_nat)
qed

lemma url_encode_char_escape:
  assumes "\<not> unreserved c"
  shows "url_encode_char c
    = [CHR ''%'', hex_digits ! (of_char c div 16), hex_digits ! (of_char c mod 16)]"
proof -
  have "unat (drop_bit 4 (of_char c :: 8 word)) = drop_bit 4 (of_char c :: nat)"
    by (simp only: unat_drop_bit_eq unat_of_char)
  then have "unat (drop_bit 4 (of_char c :: 8 word)) = of_char c div 16"
    by (simp add: drop_bit_eq_div)
  moreover have "(of_char c :: 8 word) AND 15 = take_bit 4 (of_char c)"
    by (simp add: take_bit_eq_mask mask_eq_exp_minus_1)
  then have "unat ((of_char c :: 8 word) AND 15) = take_bit 4 (of_char c :: nat)"
    by (simp only: unsigned_take_bit_eq unat_of_char)
  then have "unat ((of_char c :: 8 word) AND 15) = of_char c mod 16"
    by (simp add: take_bit_eq_mod)
  ultimately show ?thesis
    unfolding url_encode_char_def Let_def using assms by (simp only: if_False)
qed

lemma url_encode_char_shape:
  "unreserved c \<or> (\<exists>h l. url_encode_char c = [CHR ''%'', h, l]
      \<and> char_of (16 * hex_value h + hex_value l) = c \<and> url_safe h \<and> url_safe l)"
proof (cases "unreserved c")
  case False
  let ?n = "of_char c :: nat"
  have "?n div 16 < 16" using nat_of_char_less_256 [of c] by arith
  then have "hex_value (hex_digits ! (?n div 16)) = ?n div 16" "url_safe (hex_digits ! (?n div 16))"
    "hex_value (hex_digits ! (?n mod 16)) = ?n mod 16" "url_safe (hex_digits ! (?n mod 16))"
    using hex_digit by auto
  with url_encode_char_escape [OF False] show ?thesis by simp
qed simp

lemma url_encode_unreserved: "unreserved c \<Longrightarrow> url_encode_char c = [c]"
  by (simp add: url_encode_char_def)

lemma percent_not_unreserved: "\<not> unreserved (CHR ''%'')"
  by (simp add: unreserved_def less_eq_char_def)

lemma url_decode_other: "c \<noteq> CHR ''%'' \<Longrightarrow> url_decode (c # s) = c # url_decode s"
  by (cases s; cases "tl s") auto

lemma url_decode_encode_char: "url_decode (url_encode_char c @ s) = c # url_decode s"
proof (cases "unreserved c")
  case True
  with percent_not_unreserved have "c \<noteq> CHR ''%''" by blast
  with True show ?thesis by (simp add: url_encode_unreserved url_decode_other)
next
  case False
  with url_encode_char_shape [of c] show ?thesis by auto
qed

interpretation url: char_codec url_encode_char url_decode
  by unfold_locales (simp_all add: url_decode_encode_char)

lemma url_encode_char_safe: "d \<in> set (url_encode_char c) \<Longrightarrow> url_safe d"
  using url_encode_char_shape [of c]
  by (cases "unreserved c") (auto simp: url_encode_unreserved url_safe_def)

lemma url_encode_char_length: "length (url_encode_char c) \<le> 3"
  by (simp add: url_encode_char_def Let_def)

lemma url_encode_safe: "d \<in> set (url_encode s) \<Longrightarrow> url_safe d"
  by (auto simp: url_encode_def set_concat_map dest: url_encode_char_safe)

lemma url_encode_Nil_iff [simp]: "url_encode s = [] \<longleftrightarrow> s = []"
proof -
  have "length s \<le> length (url_encode s)" by (simp add: url_encode_def url.length_ge)
  moreover have "url_encode [] = []" by (simp add: url_encode_def)
  ultimately show ?thesis by (cases s) auto
qed

text \<open>The characters with a meaning in a request target are never emitted.\<close>

definition url_delimiters :: string where
  "url_delimiters = ''&=?/#{} +''"

lemma url_safe_not_delimiter: "url_safe c \<Longrightarrow> c \<notin> set url_delimiters"
  by (auto simp: url_safe_def unreserved_def url_delimiters_def less_eq_char_def)

text \<open>
  C31: \<open>url_encode\<close> is decoded back exactly, for every byte string; it is injective; it emits
  only unreserved characters and \<open>%\<close>, so no delimiter of a URL; and its result fits in the
  \<open>3 * size\<close> bytes it reserves.
\<close>

theorem url_encode_correct:
  "url_decode (url_encode s) = s
   \<and> (url_encode s = url_encode t \<longleftrightarrow> s = t)
   \<and> set (url_encode s) \<subseteq> {c. url_safe c} \<and> set (url_encode s) \<inter> set url_delimiters = {}
   \<and> length s \<le> length (url_encode s) \<and> length (url_encode s) \<le> 3 * length s"
proof -
  have "length (url_encode s) \<le> 3 * length s"
    unfolding url_encode_def by (rule length_concat_map_le) (simp add: url_encode_char_length)
  moreover have "set (url_encode s) \<inter> set url_delimiters = {}"
    using url_encode_safe url_safe_not_delimiter by blast
  ultimately show ?thesis
    using url_encode_safe
    by (auto simp: url_encode_def url.roundtrip url.injective url.length_ge)
qed

section \<open>Query values\<close>

definition query_value_i32 :: "32 word \<Rightarrow> string" where
  "query_value_i32 v = int_to_string (sint v)"

definition query_value_i64 :: "64 word \<Rightarrow> string" where
  "query_value_i64 v = int_to_string (sint v)"

definition query_value_u32 :: "32 word \<Rightarrow> string" where
  "query_value_u32 v = nat_to_string (unat v)"

definition query_value_u64 :: "64 word \<Rightarrow> string" where
  "query_value_u64 v = nat_to_string (unat v)"

definition query_value_bool :: "bool \<Rightarrow> string" where
  "query_value_bool v = (if v then ''true'' else ''false'')"

definition query_value_string :: "string \<Rightarrow> string" where
  "query_value_string v = url_encode v"

lemma digits_url_safe: "c \<in> set (nat_to_string n) \<Longrightarrow> url_safe c"
  using nat_to_string_digits [of c n] by (auto simp: url_safe_def unreserved_def)

lemma int_to_string_url_safe: "c \<in> set (int_to_string i) \<Longrightarrow> url_safe c"
  by (auto simp: int_to_string_def digits_url_safe url_safe_def unreserved_def split: if_splits
      dest: nat_to_string_digits)

lemma query_value_not_delimiter:
  "set (int_to_string i) \<inter> set url_delimiters = {}"
  using int_to_string_url_safe url_safe_not_delimiter by blast

text \<open>\<open>string_cast\<close> of \<open>include/siesta/format.hpp\<close>: the overloads for strings, Booleans and integers,
  signed and unsigned.\<close>

definition string_cast_string :: "string \<Rightarrow> string" where
  "string_cast_string str = str"

definition string_cast_bool :: "bool \<Rightarrow> string" where
  "string_cast_bool b = (if b then ''true'' else ''false'')"

definition string_cast_signed :: "'w::len word \<Rightarrow> string" where
  "string_cast_signed v = int_to_string (sint v)"

definition string_cast_unsigned :: "'w::len word \<Rightarrow> string" where
  "string_cast_unsigned v = nat_to_string (unat v)"

lemma string_cast_value:
  "string_to_int (string_cast_signed v) = sint v" "string_to_nat (string_cast_unsigned v) = unat v"
  by (simp_all add: string_cast_signed_def string_cast_unsigned_def)

text \<open>
  The integer overloads print the value of the machine word, signed or unsigned, in a
  decimal form that reads back to that value and needs no percent encoding.
\<close>

theorem query_value_integers:
  "string_to_int (query_value_i32 a) = sint a \<and> string_to_int (query_value_i64 b) = sint b
   \<and> string_to_nat (query_value_u32 a) = unat a \<and> string_to_nat (query_value_u64 b) = unat b
   \<and> url_encode (query_value_i64 b) = query_value_i64 b"
proof -
  have "url_encode s = s" if "\<forall>c \<in> set s. unreserved c" for s
    using that by (induction s) (auto simp: url_encode_def url_encode_unreserved)
  moreover have "unreserved c" if "c \<in> set (int_to_string i)" for c i
    using that nat_to_string_digits [of c]
    by (auto simp: int_to_string_def unreserved_def split: if_splits)
  ultimately show ?thesis
    by (simp add: query_value_i32_def query_value_i64_def query_value_u32_def query_value_u64_def)
qed

end
