(* ===== verification/Client_Gen.thy ===== *)
theory Client_Gen
  imports Endpoint_IR Encoding
begin

text \<open>
  \<open>generator/src/Backend/Beast/BeastClientGen.cpp\<close>: the text of the generated client, and what a
  generated method does with its arguments. Every emitter comes with the behaviour of the statements
  it emits: \<open>emitPathParam\<close> with \<open>run_path_param\<close>, \<open>emitQueryParam\<close> with \<open>run_query_param\<close>,
  \<open>emitMethodBody\<close> with \<open>run_method\<close>.
\<close>

section \<open>The emitted text\<close>

text \<open>The members of the generator that depend on the authentication.\<close>

record client_gen =
  auth_kind :: AuthType
  auth_member_name :: string
  auth_value_member :: string
  auth_param_name :: string

definition configure :: "Endpoint list \<Rightarrow> client_gen" where
  "configure endpoints =
     (let auth = detectAuth endpoints
      in if ai_type auth \<noteq> Auth_None
         then \<lparr>auth_kind = ai_type auth, auth_member_name = ''_'' @ ai_name auth,
               auth_value_member = (if ai_type auth = HttpBearer then ''_auth_header'' else []),
               auth_param_name = ai_name auth\<rparr>
         else \<lparr>auth_kind = Auth_None, auth_member_name = [], auth_value_member = [], auth_param_name = []\<rparr>)"

definition emitClassHeader :: "client_gen \<Rightarrow> string" where
  "emitClassHeader g =
     line [] @ line [''class Client : public ::siesta::beast::ClientBase {'']
     @ (if auth_kind g \<noteq> Auth_None then
          line [tabs 1, ''std::string '', auth_member_name g, '';'']
          @ (if auth_kind g = HttpBearer then line [tabs 1, ''std::string '', auth_value_member g, '';''] else [])
        else [])
     @ line [''public:'']
     @ (if auth_kind g \<noteq> Auth_None then
          line [tabs 1, ''Client(::boost::asio::io_context& ctx, std::string '', auth_param_name g,
            '', Config conf = Config())'']
          @ line [tabs 2, '': ClientBase(ctx, conf)'']
          @ tabs 2 @ '', '' @ auth_member_name g @ ''(std::move('' @ auth_param_name g @ ''))''
          @ (if auth_kind g = HttpBearer
             then [nl] @ tabs 2 @ '', '' @ auth_value_member g @ ''('' @ quoted ''Bearer '' @ '' + '' @ auth_member_name g @ '')''
             else [])
          @ line ['' {}'']
        else line [tabs 1, ''using ::siesta::beast::ClientBase::ClientBase;''])
     @ line [tabs 1, ''using ::siesta::beast::ClientBase::Config;'']
     @ line [tabs 1, ''using ::siesta::beast::ClientBase::shared_from_this;''] @ line []"

definition param_decl :: "ClientParam \<Rightarrow> string" where
  "param_decl p = (if \<not> cp_required p then ''std::optional<'' @ cpp_type p @ ''> '' else cpp_type p @ '' '') @ cp_name p"

definition emitMethodSignature :: "Endpoint \<Rightarrow> string" where
  "emitMethodSignature ep =
     tabs 1 @ ''auto '' @ function_name ep @ ''(''
     @ comma_join
         ((if has_request_body ep then [''const '' @ body_type ep @ ''& body''] else [])
          @ map param_decl (ep_params ep)
          @ [''::boost::asio::completion_token_for<void(outcome_type)> auto&& token''])
     @ '')''"

definition replace_stmt :: "nat \<Rightarrow> string \<Rightarrow> string" where
  "replace_stmt n v = line [tabs n, ''if (auto _p = target_path.find('', quoted braces,
     ''); _p != std::string::npos) target_path.replace(_p, 2, '', v, '');'']"

definition emitPathParam :: "ClientParam \<Rightarrow> string" where
  "emitPathParam p =
     (if cp_required p then
        replace_stmt 2 (if is_string_type p then cp_name p else ''std::to_string('' @ cp_name p @ '')'')
      else
        line [tabs 2, ''if ('', cp_name p, ''.has_value()) {'']
        @ replace_stmt 3 (if is_string_type p then ''*'' @ cp_name p else ''std::to_string(*'' @ cp_name p @ '')'')
        @ line [tabs 2, ''}''])"

definition append_stmt :: "nat \<Rightarrow> string \<Rightarrow> string \<Rightarrow> string" where
  "append_stmt n wire v = line [tabs n, ''_sep(); query += '', quoted (wire @ ''=''), '' + '', v, '';'']"

definition for_stmt :: "nat \<Rightarrow> string \<Rightarrow> string" where
  "for_stmt n size_of = line [tabs n, ''for (size_t _i = 0; _i < '', size_of, ''size(); ++_i) {'']"

definition emitQueryParam :: "ClientParam \<Rightarrow> string" where
  "emitQueryParam p =
     (let n = cp_name p; w = wire_name p
      in if cp_required p then
           (if is_vector_string_type p then
              for_stmt 2 (n @ ''.'') @ append_stmt 3 w (''url_encode('' @ n @ ''[_i])'') @ line [tabs 2, ''}'']
            else if is_vector_type p then
              for_stmt 2 (n @ ''.'') @ append_stmt 3 w (''query_value('' @ n @ ''[_i])'') @ line [tabs 2, ''}'']
            else if is_string_type p then append_stmt 2 w (''url_encode('' @ n @ '')'')
            else append_stmt 2 w (''query_value('' @ n @ '')''))
         else
           line [tabs 2, ''if ('', n, ''.has_value()) {'']
           @ (if is_vector_string_type p then
                for_stmt 3 (n @ ''->'') @ append_stmt 4 w (''url_encode((*'' @ n @ '')[_i])'') @ line [tabs 3, ''}'']
              else if is_vector_type p then
                for_stmt 3 (n @ ''->'') @ append_stmt 4 w (''query_value((*'' @ n @ '')[_i])'') @ line [tabs 3, ''}'']
              else if is_string_type p then append_stmt 3 w (''url_encode(*'' @ n @ '')'')
              else append_stmt 3 w (''query_value(*'' @ n @ '')''))
           @ line [tabs 2, ''}''])"

definition emitPathParams :: "ClientParam list \<Rightarrow> string" where
  "emitPathParams ps = concat (map emitPathParam ps)"

definition emitQueryParams :: "ClientParam list \<Rightarrow> string" where
  "emitQueryParams ps = concat (map emitQueryParam ps)"

definition emitRequestBody :: "Endpoint \<Rightarrow> string" where
  "emitRequestBody ep =
     (if \<not> has_request_body ep then []
      else line [tabs 2, ''req.body() = boost::json::serialize(boost::json::value_from(body));'']
        @ line [tabs 2, ''req.set(::boost::beast::http::field::content_type, '', quoted (body_content_type ep), '');'']
        @ line [tabs 2, ''req.prepare_payload();''])"

definition emitHeaderParam :: "ClientParam \<Rightarrow> string" where
  "emitHeaderParam p =
     (if cp_required p
      then line [tabs 2, ''req.set('', quoted (wire_name p), '', '', cp_name p, '');'']
      else line [tabs 2, ''if ('', cp_name p, ''.has_value()) req.set('', quoted (wire_name p), '', *'', cp_name p, '');''])"

definition path_params :: "Endpoint \<Rightarrow> ClientParam list" where
  "path_params ep = filter (\<lambda>p. location p = ''path'') (ep_params ep)"
definition query_params :: "Endpoint \<Rightarrow> ClientParam list" where
  "query_params ep = filter (\<lambda>p. location p = ''query'') (ep_params ep)"
definition header_params :: "Endpoint \<Rightarrow> ClientParam list" where
  "header_params ep = filter (\<lambda>p. location p = ''header'') (ep_params ep)"

definition query_decls :: string where
  "query_decls = line [tabs 2, ''std::string query;'']
     @ line [tabs 2, ''auto _sep = [&query]{ if (!query.empty()) query += '', [CHR 0x27, CHR ''&'', CHR 0x27], ''; };'']"

definition question_mark :: string where "question_mark = [CHR 0x27, CHR ''?'', CHR 0x27]"

definition emit_target :: "Endpoint \<Rightarrow> string" where
  "emit_target ep =
     (let ps = path_params ep; qs = query_params ep
      in if ps = [] \<and> qs = [] then line [tabs 2, ''req.target(path);'']
         else if ps = [] then
           query_decls @ emitQueryParams qs
           @ (if \<forall>q \<in> set qs. cp_required q then
                line [tabs 2, ''std::string target_path(path);'']
                @ line [tabs 2, ''target_path += '', question_mark, '';'']
                @ line [tabs 2, ''target_path += query;'']
                @ line [tabs 2, ''req.target(target_path);'']
              else
                line [tabs 2, ''if (!query.empty()) {'']
                @ line [tabs 3, ''std::string target_path(path);'']
                @ line [tabs 3, ''target_path += '', question_mark, '';'']
                @ line [tabs 3, ''target_path += query;'']
                @ line [tabs 3, ''req.target(target_path);'']
                @ line [tabs 2, ''} else {''] @ line [tabs 3, ''req.target(path);''] @ line [tabs 2, ''}''])
         else if qs = [] then
           line [tabs 2, ''std::string target_path(path);''] @ emitPathParams ps
           @ line [tabs 2, ''req.target(target_path);'']
         else
           line [tabs 2, ''std::string target_path(path);''] @ emitPathParams ps
           @ query_decls @ emitQueryParams qs
           @ line [tabs 2, ''if (!query.empty()) { target_path += '', question_mark, ''; target_path += query; }'']
           @ line [tabs 2, ''req.target(target_path);''])"

definition emitMethodBody :: "client_gen \<Rightarrow> Endpoint \<Rightarrow> string" where
  "emitMethodBody g ep =
     line [tabs 2, ''constexpr std::string_view path = '', quoted (escapeCppString (path_template ep)), '';'']
     @ line [tabs 2, ''request_type req;'']
     @ emit_target ep
     @ emitRequestBody ep
     @ line [tabs 2, ''req.method(::boost::beast::http::verb::'', cpp_verb ep, '');'']
     @ (if auth_type ep = ApiKey
        then line [tabs 2, ''req.set('', quoted (auth_header_name ep), '', '', auth_member_name g, '');'']
        else if auth_type ep = HttpBearer
        then line [tabs 2, ''req.set('', quoted (auth_header_name ep), '', '', auth_value_member g, '');'']
        else [])
     @ concat (map emitHeaderParam (header_params ep))
     @ line [tabs 2, ''return this->async_submit_request(std::move(req), token);'']"

definition emitEndpoint :: "client_gen \<Rightarrow> Endpoint \<Rightarrow> string" where
  "emitEndpoint g ep =
     (let txt = (if ep_description ep = [] then ep_summary ep else ep_description ep)
      in (if txt \<noteq> [] then write_multiline_comment txt (tabs 1) else [])
         @ emitMethodSignature ep @ [nl] @ line [tabs 1, ''{''] @ emitMethodBody g ep
         @ line [tabs 1, ''}''] @ line [])"

definition generateClientHpp :: "string \<Rightarrow> client_gen \<Rightarrow> Endpoint list \<Rightarrow> string" where
  "generateClientHpp ns g endpoints =
     line [''#pragma once''] @ line [''#include <boost/asio.hpp>''] @ line [''#include <boost/asio/ip/tcp.hpp>'']
     @ line [''#include <boost/beast/core.hpp>''] @ line [''#include <boost/beast/http.hpp>'']
     @ line [''#include <boost/json.hpp>''] @ line [''#include <memory>''] @ line [''#include <optional>'']
     @ line [''#include <string>''] @ line [''#include <string_view>''] @ line []
     @ line [''#include '', quoted DEFS_HPP] @ line [''#include <siesta/beast/client.hpp>''] @ line []
     @ line [''namespace '', ns, '' {''] @ line [''using siesta::url_encode;'']
     @ line [''using siesta::query_value;''] @ line []
     @ emitClassHeader g
     @ concat (map (emitEndpoint g) endpoints)
     @ line [''}; // class Client''] @ line [''} // namespace '', ns]"

definition BeastClientGenerator :: "string \<Rightarrow> Endpoint list \<Rightarrow> (string \<times> string) list" where
  "BeastClientGenerator ns endpoints =
     (if endpoints = [] then []
      else [(CLIENT_HPP, generateClientHpp ns (configure endpoints) endpoints)])"

section \<open>What a generated method does\<close>

text \<open>Argument values. \<open>VReal\<close> carries the text that \<open>std::to_string\<close> prints for a floating point
  value. \<open>Absent\<close> is an empty optional. A step returns \<open>None\<close> when the emitted statement does not
  compile for the argument's type.\<close>

datatype scalar = VString string | VInt32 "32 word" | VInt64 "64 word" | VUInt32 "32 word"
  | VUInt64 "64 word" | VBool bool | VReal string

datatype arg = Absent | One scalar | Many "scalar list"

definition query_value :: "scalar \<Rightarrow> string" where
  "query_value v =
     (case v of VString s \<Rightarrow> query_value_string s | VInt32 w \<Rightarrow> query_value_i32 w | VInt64 w \<Rightarrow> query_value_i64 w
      | VUInt32 w \<Rightarrow> query_value_u32 w | VUInt64 w \<Rightarrow> query_value_u64 w | VBool b \<Rightarrow> query_value_bool b
      | VReal t \<Rightarrow> t)"

text \<open>\<open>std::to_string\<close>: it has no overload for strings, and a \<open>bool\<close> is promoted to \<open>int\<close>.\<close>

definition to_string_text :: "scalar \<Rightarrow> string option" where
  "to_string_text v =
     (case v of VString s \<Rightarrow> None | VBool b \<Rightarrow> Some (if b then ''1'' else ''0'') | _ \<Rightarrow> Some (query_value v))"

definition path_text :: "ClientParam \<Rightarrow> scalar \<Rightarrow> string option" where
  "path_text p v =
     (if is_string_type p then (case v of VString s \<Rightarrow> Some s | _ \<Rightarrow> None) else to_string_text v)"

definition replace_first :: "string \<Rightarrow> string \<Rightarrow> string" where
  "replace_first target s =
     (case find_sub braces target of None \<Rightarrow> target | Some pos \<Rightarrow> replace_at target pos 2 s)"

definition run_path_param :: "ClientParam \<times> arg \<Rightarrow> string \<Rightarrow> string option" where
  "run_path_param pa target =
     (case pa of (p, a) \<Rightarrow>
        (case a of
           Absent \<Rightarrow> if cp_required p then None else Some target
         | One v \<Rightarrow> map_option (replace_first target) (path_text p v)
         | Many vs \<Rightarrow> None))"

fun run_path_params :: "(ClientParam \<times> arg) list \<Rightarrow> string \<Rightarrow> string option" where
  "run_path_params [] target = Some target"
| "run_path_params (pa # pas) target = Option.bind (run_path_param pa target) (run_path_params pas)"

text \<open>\<open>_sep()\<close> and the appending of \<open>name=value\<close>.\<close>

definition append_query :: "string \<Rightarrow> string \<Rightarrow> string \<Rightarrow> string" where
  "append_query query wire txt =
     (if query \<noteq> [] then query @ ''&'' else query) @ wire @ ''='' @ txt"

definition scalar_text :: "bool \<Rightarrow> scalar \<Rightarrow> string option" where
  "scalar_text enc v = (if enc then (case v of VString s \<Rightarrow> Some (url_encode s) | _ \<Rightarrow> None) else Some (query_value v))"

fun texts :: "bool \<Rightarrow> scalar list \<Rightarrow> string list option" where
  "texts enc [] = Some []"
| "texts enc (v # vs) = Option.bind (scalar_text enc v) (\<lambda>t. map_option (\<lambda>ts. t # ts) (texts enc vs))"

text \<open>The values a query parameter contributes, encoded.\<close>

definition query_texts :: "ClientParam \<times> arg \<Rightarrow> string list option" where
  "query_texts pa =
     (case pa of (p, a) \<Rightarrow>
        (case a of
           Absent \<Rightarrow> if cp_required p then None else Some []
         | One v \<Rightarrow> if is_vector_type p \<or> is_vector_string_type p then None else texts (is_string_type p) [v]
         | Many vs \<Rightarrow>
             if is_vector_string_type p then texts True vs
             else if is_vector_type p then texts False vs else None))"

definition run_query_param :: "ClientParam \<times> arg \<Rightarrow> string \<Rightarrow> string option" where
  "run_query_param pa query =
     map_option (\<lambda>ts. foldl (\<lambda>q t. append_query q (wire_name (fst pa)) t) query ts) (query_texts pa)"

fun run_query_params :: "(ClientParam \<times> arg) list \<Rightarrow> string \<Rightarrow> string option" where
  "run_query_params [] query = Some query"
| "run_query_params (pa # pas) query = Option.bind (run_query_param pa query) (run_query_params pas)"

text \<open>\<open>req.set(name, value)\<close> takes a string.\<close>

definition run_header_param :: "ClientParam \<times> arg \<Rightarrow> (string \<times> string) list option" where
  "run_header_param pa =
     (case pa of (p, a) \<Rightarrow>
        (case a of
           Absent \<Rightarrow> if cp_required p then None else Some []
         | One (VString s) \<Rightarrow> Some [(wire_name p, s)]
         | _ \<Rightarrow> None))"

fun run_header_params :: "(ClientParam \<times> arg) list \<Rightarrow> (string \<times> string) list option" where
  "run_header_params [] = Some []"
| "run_header_params (pa # pas) =
     Option.bind (run_header_param pa) (\<lambda>h. map_option (\<lambda>hs. h @ hs) (run_header_params pas))"

definition run_target :: "Endpoint \<Rightarrow> (ClientParam \<times> arg) list \<Rightarrow> (ClientParam \<times> arg) list \<Rightarrow> string option" where
  "run_target ep ps qs =
     (let path = path_template ep
      in if ps = [] \<and> qs = [] then Some path
         else if ps = [] then
           Option.bind (run_query_params qs []) (\<lambda>query.
             if \<forall>q \<in> set qs. cp_required (fst q) then Some (path @ ''?'' @ query)
             else if query \<noteq> [] then Some (path @ ''?'' @ query) else Some path)
         else if qs = [] then run_path_params ps path
         else
           Option.bind (run_path_params ps path) (\<lambda>target.
           Option.bind (run_query_params qs []) (\<lambda>query.
             Some (if query \<noteq> [] then target @ ''?'' @ query else target))))"

text \<open>The request: its target, verb, body and the fields set on it, in order. \<open>body\<close> is the text of
  the serialised body argument, \<open>auth\<close> the value of the authentication member.\<close>

record client_request =
  rq_target :: string
  rq_verb :: string
  rq_body :: "string option"
  rq_fields :: "(string \<times> string) list"

definition with_location :: "string \<Rightarrow> (ClientParam \<times> arg) list \<Rightarrow> (ClientParam \<times> arg) list" where
  "with_location loc args = filter (\<lambda>pa. location (fst pa) = loc) args"

definition run_method :: "Endpoint \<Rightarrow> arg list \<Rightarrow> string \<Rightarrow> string \<Rightarrow> client_request option" where
  "run_method ep args body auth =
     (let pas = zip (ep_params ep) args
      in Option.bind (run_target ep (with_location ''path'' pas) (with_location ''query'' pas)) (\<lambda>target.
         Option.bind (run_header_params (with_location ''header'' pas)) (\<lambda>headers.
           Some \<lparr>rq_target = target, rq_verb = cpp_verb ep,
             rq_body = (if has_request_body ep then Some body else None),
             rq_fields =
               (if has_request_body ep then [(''Content-Type'', body_content_type ep)] else [])
               @ (if auth_type ep \<noteq> Auth_None then [(auth_header_name ep, auth)] else [])
               @ headers\<rparr>)))"

section \<open>The query string\<close>

text \<open>How a server reads a query: pairs between \<open>&\<close>, the name up to the first \<open>=\<close>, the value
  percent-decoded.\<close>

definition parse_pair :: "string \<Rightarrow> string \<times> string" where
  "parse_pair s = (let (k, r) = split1 (CHR ''='') s in (k, url_decode (case r of None \<Rightarrow> [] | Some v \<Rightarrow> v)))"

definition parse_query :: "string \<Rightarrow> (string \<times> string) list" where
  "parse_query q = (if q = [] then [] else map parse_pair (segs (CHR ''&'') q))"

text \<open>The value a scalar stands for.\<close>

definition scalar_value :: "scalar \<Rightarrow> string" where
  "scalar_value v = (case v of VString s \<Rightarrow> s | _ \<Rightarrow> query_value v)"

definition arg_values :: "arg \<Rightarrow> string list" where
  "arg_values a = (case a of Absent \<Rightarrow> [] | One v \<Rightarrow> [scalar_value v] | Many vs \<Rightarrow> map scalar_value vs)"

definition arg_scalars :: "arg \<Rightarrow> scalar list" where
  "arg_scalars a = (case a of Absent \<Rightarrow> [] | One v \<Rightarrow> [v] | Many vs \<Rightarrow> vs)"

text \<open>The text of a floating point value has no character that the query syntax uses.\<close>

definition real_ok :: "scalar \<Rightarrow> bool" where
  "real_ok v = (case v of VReal t \<Rightarrow> \<forall>c \<in> set t. unreserved c | _ \<Rightarrow> True)"

definition wire_ok :: "string \<Rightarrow> bool" where
  "wire_ok w \<longleftrightarrow> CHR ''&'' \<notin> set w \<and> CHR ''='' \<notin> set w"

lemma url_decode_unreserved: "\<forall>c \<in> set s. unreserved c \<Longrightarrow> url_decode s = s"
proof (induction s)
  case (Cons c s)
  with percent_not_unreserved have "c \<noteq> CHR ''%''" by auto
  with Cons show ?case by (simp add: url_decode_other)
qed simp

lemma unreserved_url_safe: "unreserved c \<Longrightarrow> url_safe c"
  by (simp add: url_safe_def)

lemma int_to_string_unreserved: "c \<in> set (int_to_string i) \<Longrightarrow> unreserved c"
  using nat_to_string_digits [of c] by (auto simp: int_to_string_def unreserved_def split: if_splits)

lemma nat_to_string_unreserved: "c \<in> set (nat_to_string i) \<Longrightarrow> unreserved c"
  using nat_to_string_digits [of c] by (auto simp: unreserved_def)

lemma bool_unreserved: "c \<in> set (query_value_bool b) \<Longrightarrow> unreserved c"
proof -
  have "\<forall>c \<in> set (query_value_bool b). unreserved c"
    by (cases b) (simp_all add: query_value_bool_def unreserved_def less_eq_char_def)
  then show "c \<in> set (query_value_bool b) \<Longrightarrow> unreserved c" by blast
qed

lemma query_value_unreserved:
  "real_ok v \<Longrightarrow> \<not> (\<exists>s. v = VString s) \<Longrightarrow> c \<in> set (query_value v) \<Longrightarrow> unreserved c"
  by (cases v) (simp_all add: query_value_def real_ok_def query_value_i32_def query_value_i64_def
      query_value_u32_def query_value_u64_def int_to_string_unreserved nat_to_string_unreserved
      bool_unreserved)

lemma scalar_text_decode:
  assumes "scalar_text enc v = Some t" and "real_ok v"
  shows "url_decode t = scalar_value v" "\<forall>c \<in> set t. url_safe c"
proof -
  have "url_decode t = scalar_value v \<and> (\<forall>c \<in> set t. url_safe c)"
  proof (cases "\<exists>s. v = VString s")
    case True
    then obtain s where v: "v = VString s" by blast
    then have t: "t = url_encode s"
      using assms(1) by (simp add: scalar_text_def query_value_def query_value_string_def split: if_splits)
    have "url_decode t = s" unfolding t url_encode_def by (rule url.roundtrip)
    moreover have "\<forall>c \<in> set t. url_safe c" unfolding t using url_encode_safe by blast
    ultimately show ?thesis using v by (simp add: scalar_value_def)
  next
    case False
    then have t: "t = query_value v" and "scalar_value v = query_value v"
      using assms(1) by (cases v; simp add: scalar_text_def scalar_value_def split: if_splits)+
    moreover have u: "\<forall>c \<in> set (query_value v). unreserved c"
      using query_value_unreserved [OF assms(2) False] by blast
    ultimately show ?thesis
      using url_decode_unreserved [OF u] unreserved_url_safe by auto
  qed
  then show "url_decode t = scalar_value v" "\<forall>c \<in> set t. url_safe c" by blast+
qed

definition pair_text :: "string \<times> string \<Rightarrow> string" where
  "pair_text p = fst p @ CHR ''='' # snd p"

definition append_pairs :: "string \<Rightarrow> (string \<times> string) list \<Rightarrow> string" where
  "append_pairs query pairs = foldl (\<lambda>q p. append_query q (fst p) (snd p)) query pairs"

lemma pair_text_not_Nil [simp]: "pair_text p \<noteq> []"
  by (simp add: pair_text_def)

lemma append_query_pair:
  "append_query q (fst p) (snd p) = (if q = [] then pair_text p else q @ CHR ''&'' # pair_text p)"
  by (simp add: append_query_def pair_text_def)

lemma append_pairs_not_Nil:
  "q \<noteq> [] \<Longrightarrow> append_pairs q pairs = (if pairs = [] then q else q @ CHR ''&'' # join (CHR ''&'') (map pair_text pairs))"
proof (induction pairs arbitrary: q)
  case (Cons p pairs)
  have "append_pairs q (p # pairs) = append_pairs (q @ CHR ''&'' # pair_text p) pairs"
    using Cons.prems by (simp add: append_pairs_def append_query_pair)
  with Cons.IH [of "q @ CHR ''&'' # pair_text p"] show ?case by (cases pairs) simp_all
qed (simp add: append_pairs_def)

lemma append_pairs_Nil: "append_pairs [] pairs = join (CHR ''&'') (map pair_text pairs)"
proof (cases pairs)
  case (Cons p ps)
  then have "append_pairs [] pairs = append_pairs (pair_text p) ps"
    by (simp add: append_pairs_def append_query_pair)
  with append_pairs_not_Nil [of "pair_text p" ps] Cons show ?thesis by (cases ps) simp_all
qed (simp add: append_pairs_def)

lemma parse_query_pairs:
  assumes "\<forall>p \<in> set pairs. wire_ok (fst p) \<and> (\<forall>c \<in> set (snd p). url_safe c)"
  shows "parse_query (append_pairs [] pairs) = map (\<lambda>p. (fst p, url_decode (snd p))) pairs"
proof -
  have safe: "url_safe c \<Longrightarrow> c \<noteq> CHR ''&''" for c
    using url_safe_not_delimiter [of c] by (auto simp: url_delimiters_def)
  have noamp: "CHR ''&'' \<notin> set (pair_text p)" if "p \<in> set pairs" for p
    using assms that safe by (fastforce simp: pair_text_def wire_ok_def)
  have pair: "parse_pair (pair_text p) = (fst p, url_decode (snd p))" if "p \<in> set pairs" for p
    using assms that by (simp add: parse_pair_def pair_text_def wire_ok_def split1_append)
  show ?thesis
  proof (cases "pairs = []")
    case False
    then have "segs (CHR ''&'') (join (CHR ''&'') (map pair_text pairs)) = map pair_text pairs"
      by (intro segs_join) (use noamp in auto)
    moreover have "join (CHR ''&'') (map pair_text pairs) \<noteq> []"
      using False by (cases pairs; cases "tl pairs") auto
    ultimately show ?thesis using pair by (simp add: parse_query_def append_pairs_Nil)
  qed (simp add: parse_query_def append_pairs_def)
qed

lemma texts_decode:
  "texts enc vs = Some ts \<Longrightarrow> \<forall>v \<in> set vs. real_ok v \<Longrightarrow>
   map url_decode ts = map scalar_value vs \<and> (\<forall>t \<in> set ts. \<forall>c \<in> set t. url_safe c)"
proof (induction vs arbitrary: ts)
  case (Cons v vs)
  then obtain t us where "scalar_text enc v = Some t" "texts enc vs = Some us" "ts = t # us"
    by (auto simp: bind_eq_Some_conv)
  with Cons scalar_text_decode [of enc v t] show ?case by simp
qed simp

lemma query_texts_decode:
  assumes "query_texts (p, a) = Some ts" and "\<forall>v \<in> set (arg_scalars a). real_ok v"
  shows "map url_decode ts = arg_values a" "\<forall>t \<in> set ts. \<forall>c \<in> set t. url_safe c"
proof -
  have "map url_decode ts = arg_values a \<and> (\<forall>t \<in> set ts. \<forall>c \<in> set t. url_safe c)"
  proof (cases a)
    case Absent
    with assms show ?thesis by (auto simp: query_texts_def arg_values_def split: if_splits)
  next
    case (One v)
    then have "texts (is_string_type p) [v] = Some ts"
      using assms(1) by (simp add: query_texts_def split: if_splits)
    from texts_decode [OF this] show ?thesis using One assms(2) by (simp add: arg_values_def arg_scalars_def)
  next
    case (Many vs)
    then obtain enc where "texts enc vs = Some ts"
      using assms(1) by (auto simp: query_texts_def split: if_splits)
    from texts_decode [OF this] show ?thesis using Many assms(2) by (simp add: arg_values_def arg_scalars_def)
  qed
  then show "map url_decode ts = arg_values a" "\<forall>t \<in> set ts. \<forall>c \<in> set t. url_safe c" by blast+
qed

definition named_values :: "ClientParam \<times> arg \<Rightarrow> (string \<times> string) list" where
  "named_values pa = map (\<lambda>v. (wire_name (fst pa), v)) (arg_values (snd pa))"

definition query_ok :: "ClientParam \<times> arg \<Rightarrow> bool" where
  "query_ok pa \<longleftrightarrow> wire_ok (wire_name (fst pa)) \<and> (\<forall>v \<in> set (arg_scalars (snd pa)). real_ok v)"

lemma run_query_params_pairs:
  assumes "run_query_params pas q = Some q'" and "\<forall>pa \<in> set pas. query_ok pa"
  shows "\<exists>pairs. q' = append_pairs q pairs
    \<and> map (\<lambda>p. (fst p, url_decode (snd p))) pairs = concat (map named_values pas)
    \<and> (\<forall>p \<in> set pairs. wire_ok (fst p) \<and> (\<forall>c \<in> set (snd p). url_safe c))"
  using assms
proof (induction pas arbitrary: q)
  case Nil
  then show ?case by (intro exI [of _ "[]"]) (simp add: append_pairs_def)
next
  case (Cons pa pas)
  obtain p a where pa: "pa = (p, a)" by fastforce
  from Cons.prems(1) obtain ts where ts: "query_texts (p, a) = Some ts"
    and rest: "run_query_params pas (foldl (\<lambda>q t. append_query q (wire_name p) t) q ts) = Some q'"
    by (auto simp: pa run_query_param_def bind_eq_Some_conv)
  have ok: "wire_ok (wire_name p)" "\<forall>v \<in> set (arg_scalars a). real_ok v"
    using Cons.prems(2) by (simp_all add: pa query_ok_def)
  note d = query_texts_decode [OF ts ok(2)]
  let ?new = "map (\<lambda>t. (wire_name p, t)) ts"
  have new: "foldl (\<lambda>q t. append_query q (wire_name p) t) q ts = append_pairs q ?new"
    by (simp add: append_pairs_def foldl_map)
  from Cons.IH [OF rest] Cons.prems(2) obtain pairs where
      pairs: "q' = append_pairs (append_pairs q ?new) pairs"
        "map (\<lambda>p. (fst p, url_decode (snd p))) pairs = concat (map named_values pas)"
        "\<forall>p \<in> set pairs. wire_ok (fst p) \<and> (\<forall>c \<in> set (snd p). url_safe c)"
    unfolding new by auto
  have "map (\<lambda>p. (fst p, url_decode (snd p))) ?new = named_values pa"
    by (simp add: named_values_def pa d(1) [symmetric])
  with pairs ok(1) d(2) show ?case
    by (intro exI [of _ "?new @ pairs"]) (auto simp: append_pairs_def)
qed

text \<open>C11: the query string of a generated method is read back by the server: split at \<open>&\<close> and the
  first \<open>=\<close> and percent-decoded it gives, in order, every value of every query argument under its
  wire name, for all strings, integers and booleans, for vectors one pair per element, and nothing for
  absent optional arguments. The wire names themselves are not encoded, so they must not contain the
  two separators.\<close>

theorem client_query_roundtrip:
  assumes "run_query_params pas [] = Some query" and "\<forall>pa \<in> set pas. query_ok pa"
  shows "parse_query query = concat (map named_values pas)"
proof -
  from run_query_params_pairs [OF assms] obtain pairs where
      "query = append_pairs [] pairs" "map (\<lambda>p. (fst p, url_decode (snd p))) pairs = concat (map named_values pas)"
      "\<forall>p \<in> set pairs. wire_ok (fst p) \<and> (\<forall>c \<in> set (snd p). url_safe c)"
    by blast
  with parse_query_pairs show ?thesis by metis
qed

theorem client_query_roundtrip_witness:
  "\<exists>query. run_query_params
      [((sample_param ''q'' ''query'')\<lparr>is_string_type := True\<rparr>, One (VString ''a&b=c'')),
       (sample_param ''n'' ''query'', One (VInt32 7))] [] = Some query
    \<and> parse_query query = [(''q'', ''a&b=c''), (''n'', query_value_i32 7)]"
proof -
  let ?pas = "[((sample_param ''q'' ''query'')\<lparr>is_string_type := True\<rparr>, One (VString ''a&b=c'')),
       (sample_param ''n'' ''query'', One (VInt32 7))]"
  obtain query where q: "run_query_params ?pas [] = Some query"
    by (simp add: run_query_param_def query_texts_def sample_param_def empty_param_def scalar_text_def
        split del: if_split)
  have "\<forall>pa \<in> set ?pas. query_ok pa"
    by (simp add: query_ok_def wire_ok_def real_ok_def arg_scalars_def sample_param_def)
  from client_query_roundtrip [OF q this] q show ?thesis
    by (simp add: named_values_def arg_values_def scalar_value_def query_value_def sample_param_def)
qed

section \<open>The request path\<close>

text \<open>A template whose holes are whole segments.\<close>

definition seg_ok :: "string \<Rightarrow> bool" where
  "seg_ok s \<longleftrightarrow> s = braces \<or> no_braces s"

definition holes :: "string list \<Rightarrow> nat" where
  "holes ss = length (filter (\<lambda>s. s = braces) ss)"

text \<open>The values take the places of the holes, in order.\<close>

fun fill_segs :: "string list \<Rightarrow> string list \<Rightarrow> string list" where
  "fill_segs [] vs = []"
| "fill_segs (s # ss) vs =
     (if s = braces then (case vs of [] \<Rightarrow> s # ss | v # vs' \<Rightarrow> v # fill_segs ss vs')
      else s # fill_segs ss vs)"

definition path_slash :: char where "path_slash = CHR ''/''"

definition plain_value :: "string \<Rightarrow> bool" where
  "plain_value v \<longleftrightarrow> no_braces v \<and> path_slash \<notin> set v"

lemma fill_segs_Nil [simp]: "fill_segs ss [] = ss"
  by (induction ss) auto

lemma prefix_braces: "prefix braces (x # y) \<longleftrightarrow> x = obrace \<and> (\<exists>z. y = cbrace # z)"
  by (auto simp: braces_def prefix_def)

lemma find_braces_skip: "obrace \<notin> set s \<Longrightarrow> find_sub braces (s @ t) = map_option (\<lambda>n. length s + n) (find_sub braces t)"
proof (induction s)
  case Nil
  then show ?case by (simp add: option.map_ident)
next
  case (Cons c s)
  then have "c \<noteq> obrace" by auto
  then have "\<not> prefix braces (c # s @ t)" by (simp add: prefix_braces)
  then have "find_sub braces ((c # s) @ t) = map_option Suc (find_sub braces (s @ t))" by simp
  with Cons show ?case by (simp add: option.map_comp comp_def)
qed

lemma replace_first_skip: "obrace \<notin> set s \<Longrightarrow> replace_first (s @ t) v = s @ replace_first t v"
  by (simp add: replace_first_def find_braces_skip replace_at_def split: option.split)

lemma replace_first_hit: "replace_first (braces @ t) v = v @ t"
  by (simp add: replace_first_def find_sub_prefix replace_at_def) (simp add: braces_def)

lemma replace_first_none: "no_braces s \<Longrightarrow> replace_first s v = s"
  using replace_first_skip [of s "[]" v] by (simp add: no_braces_def replace_first_def braces_def)

lemma replace_first_join:
  assumes "\<forall>s \<in> set ss. seg_ok s"
  shows "replace_first (join path_slash ss) v = join path_slash (fill_segs ss [v])"
  using assms
proof (induction ss rule: induct_list012)
  case 1
  then show ?case by (simp add: replace_first_def braces_def)
next
  case (2 w)
  with replace_first_hit [of "[]" v] replace_first_none [of w v] show ?case by (auto simp: seg_ok_def)
next
  case (3 w x ws)
  show ?case
  proof (cases "w = braces")
    case True
    then show ?thesis
      using replace_first_hit [of "path_slash # join path_slash (x # ws)" v] by (simp add: join_Cons)
  next
    case False
    then have w: "obrace \<notin> set (w @ [path_slash])"
      using 3(3) by (auto simp: seg_ok_def no_braces_def path_slash_def)
    have "replace_first (join path_slash (w # x # ws)) v
        = (w @ [path_slash]) @ replace_first (join path_slash (x # ws)) v"
      using replace_first_skip [OF w, of "join path_slash (x # ws)" v] by simp
    also have "\<dots> = w @ path_slash # join path_slash (fill_segs (x # ws) [v])"
      using 3 by simp
    finally show ?thesis
      using False by (simp add: join_Cons split: list.split)
  qed
qed

lemma fill_segs_ok: "\<forall>s \<in> set ss. seg_ok s \<Longrightarrow> no_braces v \<Longrightarrow> \<forall>s \<in> set (fill_segs ss [v]). seg_ok s"
  by (induction ss) (auto simp: seg_ok_def)

lemma fill_segs_step: "no_braces v \<Longrightarrow> fill_segs (fill_segs ss [v]) vs = fill_segs ss (v # vs)"
  by (induction ss) (auto simp: no_braces_def braces_def)

lemma replace_all_join:
  "\<forall>s \<in> set ss. seg_ok s \<Longrightarrow> \<forall>v \<in> set vs. no_braces v \<Longrightarrow>
   foldl replace_first (join path_slash ss) vs = join path_slash (fill_segs ss vs)"
proof (induction vs arbitrary: ss)
  case (Cons v vs)
  then show ?case
    using Cons.IH [OF fill_segs_ok [of ss v]] by (simp add: replace_first_join fill_segs_step)
qed simp

text \<open>The text of a path argument: none for an absent one.\<close>

fun path_texts :: "(ClientParam \<times> arg) list \<Rightarrow> string list option" where
  "path_texts [] = Some []"
| "path_texts ((p, a) # pas) =
     (case a of
        Absent \<Rightarrow> if cp_required p then None else path_texts pas
      | One v \<Rightarrow> Option.bind (path_text p v) (\<lambda>t. map_option (\<lambda>ts. t # ts) (path_texts pas))
      | Many vs \<Rightarrow> None)"

lemma run_path_params_texts:
  "run_path_params pas target = map_option (foldl replace_first target) (path_texts pas)"
proof (induction pas arbitrary: target)
  case (Cons pa pas)
  obtain p a where pa: "pa = (p, a)" by fastforce
  show ?case
  proof (cases a)
    case Absent
    then show ?thesis using Cons.IH by (simp add: pa run_path_param_def)
  next
    case (One v)
    then show ?thesis using Cons.IH
      by (cases "path_text p v") (simp_all add: pa run_path_param_def option.map_comp comp_def)
  qed (simp add: pa run_path_param_def)
qed (simp add: comp_def)

text \<open>C19: the path of a generated request. In a template whose holes are whole segments, the arguments
  of the path parameters that are present take the places of the holes from left to right, in the
  order of the parameters and unencoded; all other segments stay. Without a value for a hole, the hole
  stays in the request.\<close>

theorem client_path_fill:
  assumes "\<forall>s \<in> set (segs (CHR ''/'') (path_template ep)). seg_ok s"
    and "path_texts ps = Some vs" and "\<forall>v \<in> set vs. no_braces v"
  shows "run_path_params ps (path_template ep)
    = Some (join (CHR ''/'') (fill_segs (segs (CHR ''/'') (path_template ep)) vs))"
  using replace_all_join [OF assms(1,3)] by (simp add: run_path_params_texts assms(2) path_slash_def)

definition sample_endpoint :: Endpoint where
  "sample_endpoint = \<lparr>ep_method = ''get'', ep_path = ''/a/{id}/b'', path_template = ''/a/{}/b'',
     function_name = ''get__a_id_b'', ep_summary = [], ep_description = [], cpp_verb = ''get'',
     ep_params = [(sample_param ''id'' ''path'')\<lparr>cp_required := True, is_string_type := True\<rparr>,
       sample_param ''n'' ''query''], has_request_body = False, body_type = [],
     body_content_type = [], auth_type = Auth_None, auth_header_name = []\<rparr>"

lemma sample_segs: "segs (CHR ''/'') (path_template sample_endpoint) = [[], ''a'', braces, ''b'']"
  by (simp add: sample_endpoint_def braces_def)

lemma sample_segs_ok: "\<forall>s \<in> set (segs (CHR ''/'') (path_template sample_endpoint)). seg_ok s"
  unfolding sample_segs by (auto simp: seg_ok_def no_braces_def)

theorem client_path_fill_witness:
  "run_path_params [((sample_param ''id'' ''path'')\<lparr>is_string_type := True\<rparr>, One (VString ''42''))]
     (path_template sample_endpoint) = Some ''/a/42/b''"
proof -
  let ?ps = "[((sample_param ''id'' ''path'')\<lparr>is_string_type := True\<rparr>, One (VString ''42''))]"
  have t: "path_texts ?ps = Some [''42'']" by (simp add: path_text_def)
  have nb: "\<forall>v \<in> set [''42'']. no_braces v" by (simp add: no_braces_def)
  show ?thesis
    unfolding client_path_fill [OF sample_segs_ok t nb] sample_segs by (simp add: braces_def)
qed

end
