(* ===== verification/Request_Routing.thy ===== *)
theory Request_Routing
  imports Server_Gen Client_Gen
begin

text \<open>
  The generated client against the generated server: a request that a method of the client builds is
  dispatched by the server generated from the same endpoints.
\<close>

lemma fill_match:
  "length vs = holes ss \<Longrightarrow> \<forall>v \<in> set vs. v \<noteq> [] \<Longrightarrow> ss \<noteq> [] \<Longrightarrow> match_segs ss (fill_segs ss vs)"
proof (induction ss vs rule: fill_segs.induct)
  case (2 s ss vs)
  show ?case
  proof (cases "s = braces")
    case True
    with "2.prems"(1) obtain v vs' where vs: "vs = v # vs'" by (cases vs) (auto simp: holes_def)
    show ?thesis
    proof (cases "ss = []")
      case True
      with \<open>s = braces\<close> vs "2.prems" show ?thesis by (simp add: holes_def)
    next
      case False
      then have "fill_segs ss vs' \<noteq> []" by (cases ss) (auto split: list.split)
      with False 2(1) [OF True vs] \<open>s = braces\<close> vs "2.prems" show ?thesis
        by (simp add: match_segs_Cons holes_def)
    qed
  next
    case False
    show ?thesis
    proof (cases "ss = []")
      case True
      with False "2.prems" show ?thesis by simp
    next
      case nonempty: False
      then have "fill_segs ss vs \<noteq> []" by (cases ss) (auto split: list.split)
      with False nonempty 2(2) "2.prems" show ?thesis
        by (simp add: match_segs_Cons holes_def)
    qed
  qed
qed simp

lemma fill_segs_not_Nil: "ss \<noteq> [] \<Longrightarrow> fill_segs ss vs \<noteq> []"
  by (cases ss) (auto split: list.split)

lemma fill_segs_chars:
  "s \<in> set (fill_segs ss vs) \<Longrightarrow> s \<in> set ss \<or> s \<in> set vs"
  by (induction ss vs rule: fill_segs.induct) (auto split: if_splits list.splits)

lemma set_join: "c \<in> set (join d ws) \<Longrightarrow> c = d \<or> (\<exists>w \<in> set ws. c \<in> set w)"
  by (induction d ws rule: join.induct) auto

lemma set_segs: "w \<in> set (segs d s) \<Longrightarrow> c \<in> set w \<Longrightarrow> c \<in> set s"
proof (induction s arbitrary: w)
  case (Cons x s)
  then show ?case by (cases "segs d s") (fastforce split: if_splits)+
qed simp

lemma find_SomeD: "find P xs = Some x \<Longrightarrow> P x \<and> x \<in> set xs"
  by (induction xs) (auto split: if_splits)

text \<open>The values a route parameter can carry: not empty, and free of the characters that the request
  target gives a meaning to.\<close>

definition route_value :: "string \<Rightarrow> bool" where
  "route_value v \<longleftrightarrow> v \<noteq> [] \<and> no_braces v \<and> slash \<notin> set v \<and> CHR ''?'' \<notin> set v"

lemma strip_query_append: "CHR ''?'' \<notin> set s \<Longrightarrow> strip_query (s @ CHR ''?'' # q) = s"
  and strip_query_plain: "CHR ''?'' \<notin> set s \<Longrightarrow> strip_query s = s"
  by (simp_all add: strip_query_def split1_append split1_no_sep)

lemma filled_path_answers:
  assumes "is_param_ep ep" and "length vs = holes (segs slash (path_template ep))"
    and "CHR ''?'' \<notin> set (path_template ep)" and "\<forall>v \<in> set vs. route_value v"
  defines "path \<equiv> join slash (fill_segs (segs slash (path_template ep)) vs)"
  shows "answers ep path" and "CHR ''?'' \<notin> set path"
proof -
  let ?ss = "segs slash (path_template ep)"
  have "\<forall>w \<in> set (fill_segs ?ss vs). slash \<notin> set w"
    using fill_segs_chars [of _ ?ss vs] segs_notin [of _ slash "path_template ep"] assms(4)
    by (auto simp: route_value_def)
  then have "segs slash path = fill_segs ?ss vs"
    unfolding path_def by (intro segs_join fill_segs_not_Nil) auto
  then show "answers ep path"
    using assms(1,4) fill_match [OF assms(2)] by (auto simp: answers_def route_value_def)
  have "CHR ''?'' \<notin> set w" if "w \<in> set (fill_segs ?ss vs)" for w
    using fill_segs_chars [OF that] set_segs [of w slash "path_template ep"] assms(3,4)
    by (auto simp: route_value_def)
  then show "CHR ''?'' \<notin> set path"
    unfolding path_def using set_join [of "CHR ''?''" slash] by fastforce
qed

lemma param_ep_has_hole:
  assumes "is_param_ep ep" and "\<forall>s \<in> set (segs slash (path_template ep)). seg_ok s"
  shows "holes (segs slash (path_template ep)) \<noteq> 0"
proof
  assume "holes (segs slash (path_template ep)) = 0"
  then have "\<forall>s \<in> set (segs slash (path_template ep)). no_braces s"
    using assms(2) by (auto simp: holes_def filter_empty_conv seg_ok_def)
  then have "obrace \<notin> set (join slash (segs slash (path_template ep)))"
    using set_join [of obrace slash "segs slash (path_template ep)"] by (auto simp: no_braces_def)
  moreover have "obrace \<in> set (path_template ep)"
    using assms(1) by (auto simp: is_param_ep_def contains_sub_iff braces_def)
  ultimately show False by simp
qed

lemma request_target_answers:
  assumes ep: "is_param_ep ep" "\<forall>s \<in> set (segs slash (path_template ep)). seg_ok s"
      "CHR ''?'' \<notin> set (path_template ep)"
    and run: "run_method ep args body auth = Some req"
    and vs: "path_texts (with_location ''path'' (zip (ep_params ep) args)) = Some vs"
      "length vs = holes (segs slash (path_template ep))" "\<forall>v \<in> set vs. route_value v"
  shows "answers ep (strip_query (rq_target req)) \<and> rq_verb req = cpp_verb ep"
proof -
  let ?ps = "with_location ''path'' (zip (ep_params ep) args)"
  let ?qs = "with_location ''query'' (zip (ep_params ep) args)"
  let ?path = "join slash (fill_segs (segs slash (path_template ep)) vs)"
  have "vs \<noteq> []" using vs(2) param_ep_has_hole [OF ep(1,2)] by auto
  then have ps: "?ps \<noteq> []" using vs(1) by auto
  have "run_path_params ?ps (path_template ep) = Some ?path"
    using replace_all_join [OF ep(2), of vs] vs
    by (simp add: run_path_params_texts path_slash_def route_value_def)
  then have "rq_target req = ?path \<or> (\<exists>q. rq_target req = ?path @ CHR ''?'' # q)"
    and verb: "rq_verb req = cpp_verb ep"
    using run ps by (auto simp: run_method_def run_target_def Let_def bind_eq_Some_conv split: if_splits)
  with filled_path_answers [OF ep(1) vs(2) ep(3) vs(3)] show ?thesis
    by (auto simp: strip_query_append strip_query_plain)
qed

text \<open>A request whose path an endpoint answers is dispatched.\<close>

lemma answered_request_dispatched:
  assumes "ep \<in> set endpoints" and "answers ep (strip_query target)" and "cpp_verb ep = verb"
  shows "\<exists>ep'. handle_request endpoints target verb = Some ep'
    \<and> ((\<forall>e \<in> set endpoints. cpp_verb e = cpp_verb ep \<and> answers e (strip_query target) \<longrightarrow> e = ep) \<longrightarrow> ep' = ep)"
proof -
  let ?P = "\<lambda>e. cpp_verb e = verb \<and> answers e (strip_query target)"
  let ?eps = "static_eps endpoints @ param_eps endpoints"
  have ep: "?P ep" "ep \<in> set ?eps" using assms set_tables [of endpoints] by auto
  then have "find ?P ?eps \<noteq> None" by (auto simp: find_None_iff)
  then obtain ep' where f: "find ?P ?eps = Some ep'" by blast
  have "?P ep'" using find_SomeD [OF f] by blast
  moreover have "ep' \<in> set endpoints"
    using find_SomeD [OF f] set_tables [of endpoints] by (metis set_append)
  ultimately have "?P ep'" "ep' \<in> set endpoints" by blast+
  with f assms(3) show ?thesis by (auto simp: handle_request_find)
qed

text \<open>Client and server agree. If the holes of the template are whole segments and every hole gets
  a value that is not empty and contains no brace, slash or question mark, then the request that the
  generated method of an endpoint builds, with whatever query, headers and body, is dispatched by the
  generated server: never to 404, and to this endpoint if no other endpoint of the same verb answers
  to the same path.\<close>

theorem client_request_dispatched:
  assumes "ep \<in> set endpoints" and "is_param_ep ep"
    and "\<forall>s \<in> set (segs slash (path_template ep)). seg_ok s" and "CHR ''?'' \<notin> set (path_template ep)"
    and "run_method ep args body auth = Some req"
    and "path_texts (with_location ''path'' (zip (ep_params ep) args)) = Some vs"
    and "length vs = holes (segs slash (path_template ep))" and "\<forall>v \<in> set vs. route_value v"
  shows "\<exists>ep'. handle_request endpoints (rq_target req) (rq_verb req) = Some ep'
    \<and> ((\<forall>e \<in> set endpoints. cpp_verb e = cpp_verb ep \<and> answers e (strip_query (rq_target req)) \<longrightarrow> e = ep)
        \<longrightarrow> ep' = ep)"
  using request_target_answers [OF assms(2-8)] answered_request_dispatched [OF assms(1)] by auto

theorem client_request_dispatched_witness:
  "\<exists>req. run_method sample_endpoint [One (VString ''42''), Absent] [] [] = Some req
    \<and> handle_request [sample_endpoint] (rq_target req) (rq_verb req) = Some sample_endpoint"
proof -
  let ?args = "[One (VString ''42''), Absent]"
  have t: "path_texts (with_location ''path'' (zip (ep_params sample_endpoint) ?args)) = Some [''42'']"
    by (simp add: sample_endpoint_def with_location_def sample_param_def empty_param_def path_text_def)
  have "is_param_ep sample_endpoint"
    by (simp add: is_param_ep_def contains_sub_def sample_endpoint_def braces_def)
  moreover obtain req where req: "run_method sample_endpoint ?args [] [] = Some req"
    by (simp add: run_method_def run_target_def with_location_def sample_endpoint_def sample_param_def
        empty_param_def run_path_param_def path_text_def run_query_param_def query_texts_def)
  moreover have "CHR ''?'' \<notin> set (path_template sample_endpoint)" by (simp add: sample_endpoint_def)
  moreover have "length [''42''] = holes (segs slash (path_template sample_endpoint))"
    using sample_segs by (simp add: holes_def braces_def)
  moreover have "\<forall>v \<in> set [''42'']. route_value v" by (simp add: route_value_def no_braces_def)
  ultimately show ?thesis
    using client_request_dispatched [of sample_endpoint "[sample_endpoint]", OF _ _ sample_segs_ok _ req t]
    by auto
qed

end
