(* ===== verification/Document_Routing.thy ===== *)
theory Document_Routing
  imports Request_Routing "HOL-Library.Multiset"
begin

text \<open>
  From the operation of a document to the dispatch of a request: the endpoint that \<open>build_endpoint\<close> makes of
  an operation, the method that the generated client has for it, and the server generated from the same
  endpoints. The path of the operation is given by its segments, each a literal or a whole placeholder.
\<close>

section \<open>Paths by segments\<close>

definition seg_text :: "piece \<Rightarrow> string" where
  "seg_text q = render [q]"

definition path_of :: "piece list \<Rightarrow> string" where
  "path_of qs = join slash (map seg_text qs)"

fun path_segment :: "piece \<Rightarrow> bool" where
  "path_segment (Lit s) \<longleftrightarrow> no_braces s \<and> slash \<notin> set s \<and> CHR ''?'' \<notin> set s"
| "path_segment (Par n) \<longleftrightarrow> n \<noteq> [] \<and> no_braces n \<and> slash \<notin> set n \<and> CHR ''?'' \<notin> set n"
| "path_segment Hole \<longleftrightarrow> False"

fun placeholders :: "piece list \<Rightarrow> string list" where
  "placeholders [] = []"
| "placeholders (q # qs) = (case q of Par n \<Rightarrow> n # placeholders qs | _ \<Rightarrow> placeholders qs)"

fun with_slashes :: "piece list \<Rightarrow> piece list" where
  "with_slashes (q # q' # qs) = q # Lit [slash] # with_slashes (q' # qs)"
| "with_slashes qs = qs"

lemma render_Cons: "render (q # qs) = seg_text q @ render qs"
  by (cases q) (simp_all add: seg_text_def)

lemma seg_text_slash: "seg_text (Lit [slash]) = [slash]"
  by (simp add: seg_text_def)

lemma render_with_slashes: "render (with_slashes qs) = path_of qs"
  by (induction qs rule: with_slashes.induct) (simp_all add: path_of_def render_Cons seg_text_slash)

lemma with_slashes_map: "map (dig N) (with_slashes qs) = with_slashes (map (dig N) qs)"
  by (induction qs rule: with_slashes.induct) simp_all

lemma set_with_slashes: "q \<in> set (with_slashes qs) \<Longrightarrow> q \<in> set qs \<or> q = Lit [slash]"
  by (induction qs rule: with_slashes.induct) auto

lemma with_slashes_wf: "\<forall>q \<in> set qs. path_segment q \<Longrightarrow> q \<in> set (with_slashes qs) \<Longrightarrow> wf_piece q"
proof -
  assume segs: "\<forall>q \<in> set qs. path_segment q" and "q \<in> set (with_slashes qs)"
  then consider "path_segment q" | "q = Lit [slash]" using set_with_slashes by blast
  then show "wf_piece q" by cases (cases q; simp add: no_braces_def)+
qed

lemma set_placeholders: "set (placeholders qs) = {n. Par n \<in> set qs}"
  by (induction qs) (auto split: piece.splits)

section \<open>The template of a built endpoint\<close>

definition path_names :: "Endpoint \<Rightarrow> string list" where
  "path_names ep = map cp_name (filter (\<lambda>p. location p = ''path'') (ep_params ep))"

lemma built_template:
  assumes "build_endpoint it ppm bodies schemes g co = Some ep" and "co_path co = path_of qs" and "\<forall>q \<in> set qs. path_segment q"
  shows "path_template ep = path_of (map (dig (set (path_names ep))) qs)"
proof -
  note f = build_endpoint_fields [OF assms(1)]
  have "no_braces (cp_name q)" if "q \<in> set (ep_params ep)" for q
    using that by (auto simp: f(4) rename_param_def sanitizeParamName_no_braces)
  moreover have "{n. \<exists>q \<in> set (ep_params ep). location q = ''path'' \<and> cp_name q = n} = set (path_names ep)"
    by (auto simp: path_names_def)
  ultimately have "make_template (render (with_slashes qs)) (ep_params ep) = render (map (dig (set (path_names ep))) (with_slashes qs))"
    using make_template_render [of "with_slashes qs" "ep_params ep"] with_slashes_wf [OF assms(3)] by simp
  then show ?thesis using f(5) assms(2) by (simp add: with_slashes_map render_with_slashes)
qed

lemma dug_segment:
  assumes "path_segment q" and "\<And>n. q = Par n \<Longrightarrow> n \<in> N"
  shows "slash \<notin> set (seg_text (dig N q))" and "CHR ''?'' \<notin> set (seg_text (dig N q))" and "seg_ok (seg_text (dig N q))"
    and "seg_text (dig N q) = braces \<longleftrightarrow> (\<exists>n. q = Par n)"
  using assms by (cases q; auto simp: seg_text_def seg_ok_def braces_def no_braces_def)+

lemma dug_segs:
  assumes "qs \<noteq> []" and "\<forall>q \<in> set qs. path_segment q" and "set (placeholders qs) \<subseteq> N"
  shows "segs slash (path_of (map (dig N) qs)) = map (\<lambda>q. seg_text (dig N q)) qs"
proof -
  have "slash \<notin> set (seg_text (dig N q))" if "q \<in> set qs" for q
    using that assms(2,3) dug_segment(1) [of q N] by (auto simp: set_placeholders)
  then show ?thesis unfolding path_of_def using assms(1) by (subst segs_join) auto
qed

lemma dug_holes:
  assumes "\<forall>q \<in> set qs. path_segment q" and "set (placeholders qs) \<subseteq> N"
  shows "holes (map (\<lambda>q. seg_text (dig N q)) qs) = length (placeholders qs)"
  using assms
proof (induction qs)
  case (Cons q qs)
  then show ?case using dug_segment(4) [of q N]
    by (cases q) (auto simp: holes_def)
qed (simp add: holes_def)

lemma path_of_question:
  assumes "\<forall>q \<in> set qs. path_segment q" and "set (placeholders qs) \<subseteq> N"
  shows "CHR ''?'' \<notin> set (path_of (map (dig N) qs))"
proof
  assume "CHR ''?'' \<in> set (path_of (map (dig N) qs))"
  then obtain q where "q \<in> set qs" "CHR ''?'' \<in> set (seg_text (dig N q))"
    using set_join [of "CHR ''?''" slash] by (fastforce simp: path_of_def)
  then show False using dug_segment(2) [of q N] assms by (auto simp: set_placeholders)
qed

section \<open>From the operation to the dispatch\<close>

text \<open>An endpoint without a hole answers to its own path.\<close>

lemma plain_request_answers:
  assumes "\<not> is_param_ep ep" and "path_template ep = ep_path ep" and "CHR ''?'' \<notin> set (path_template ep)"
    and "run_method ep args body auth = Some req"
    and "path_texts (with_location ''path'' (zip (ep_params ep) args)) = Some []"
  shows "answers ep (strip_query (rq_target req)) \<and> rq_verb req = cpp_verb ep"
proof -
  let ?ps = "with_location ''path'' (zip (ep_params ep) args)"
  have "run_path_params ?ps (path_template ep) = Some (path_template ep)"
    by (simp add: run_path_params_texts assms(5))
  then have "rq_target req = path_template ep \<or> (\<exists>q. rq_target req = path_template ep @ CHR ''?'' # q)"
    and "rq_verb req = cpp_verb ep"
    using assms(4) by (auto simp: run_method_def run_target_def Let_def bind_eq_Some_conv split: if_splits)
  then show ?thesis
    using assms(1-3) by (auto simp: answers_def strip_query_append strip_query_plain)
qed

text \<open>A value for every path parameter.\<close>

definition path_args_ok :: "Endpoint \<Rightarrow> arg list \<Rightarrow> bool" where
  "path_args_ok ep args \<longleftrightarrow> length args = length (ep_params ep)
     \<and> (\<forall>(p, a) \<in> set (zip (ep_params ep) args). location p = ''path'' \<longrightarrow>
          (\<exists>v t. a = One v \<and> path_text p v = Some t \<and> route_value t))"

lemma path_texts_of_values:
  "\<forall>(p, a) \<in> set pas. \<exists>v t. a = One v \<and> path_text p v = Some t \<and> route_value t \<Longrightarrow>
   \<exists>vs. path_texts pas = Some vs \<and> length vs = length pas \<and> (\<forall>v \<in> set vs. route_value v)"
proof (induction pas)
  case (Cons pa pas)
  obtain p a where pa: "pa = (p, a)" by (cases pa)
  with Cons obtain v t vs where "a = One v" "path_text p v = Some t" "route_value t"
    "path_texts pas = Some vs" "length vs = length pas" "\<forall>v \<in> set vs. route_value v" by fastforce
  then show ?case by (simp add: pa)
qed simp

lemma length_with_location:
  "length args = length ps \<Longrightarrow> length (with_location loc (zip ps args)) = length (filter (\<lambda>p. location p = loc) ps)"
  by (induction ps args rule: list_induct2') (simp_all add: with_location_def)

lemma path_args_texts:
  assumes "path_args_ok ep args"
  shows "\<exists>vs. path_texts (with_location ''path'' (zip (ep_params ep) args)) = Some vs
    \<and> length vs = length (path_names ep) \<and> (\<forall>v \<in> set vs. route_value v)"
proof -
  have "\<forall>(p, a) \<in> set (with_location ''path'' (zip (ep_params ep) args)). \<exists>v t. a = One v \<and> path_text p v = Some t \<and> route_value t"
    using assms by (auto simp: path_args_ok_def with_location_def)
  then show ?thesis
    using path_texts_of_values length_with_location [of args "ep_params ep" "''path''"] assms
    by (fastforce simp: path_args_ok_def path_names_def)
qed

lemma join_part: "\<exists>u v. join c (us @ w # ws) = u @ w @ v"
proof (induction us)
  case Nil
  then show ?case by (cases ws) (auto intro: exI [of _ "[]"])
next
  case (Cons x us)
  then obtain u v where "join c (us @ w # ws) = u @ w @ v" by blast
  then have "join c ((x # us) @ w # ws) = (x @ c # u) @ w @ v" by (simp add: join_Cons)
  then show ?case by blast
qed

lemma no_placeholder: "placeholders qs = [] \<Longrightarrow> q \<in> set qs \<Longrightarrow> dig N q = q"
  by (induction qs) (auto split: piece.splits)

text \<open>An operation of the document is reached. When the placeholders of its path are whole segments
  and are the names of its path parameters as the generator spells them, every call of the method that the
  client generates for it, with a value for each path parameter that is not empty and contains no brace,
  slash or question mark, makes a request that the generated server dispatches: to the endpoint of the
  operation unless another endpoint of the verb answers to the same path.\<close>

theorem operation_dispatched:
  assumes "build_endpoint it ppm bodies schemes g co = Some ep" and "ep \<in> set endpoints"
    and "co_path co = path_of qs" and "qs \<noteq> []" and "\<forall>q \<in> set qs. path_segment q"
    and "mset (placeholders qs) = mset (path_names ep)"
    and "path_args_ok ep args" and "run_method ep args body auth = Some req"
  shows "\<exists>ep'. handle_request endpoints (rq_target req) (rq_verb req) = Some ep'
    \<and> ((\<forall>e \<in> set endpoints. cpp_verb e = cpp_verb ep \<and> answers e (strip_query (rq_target req)) \<longrightarrow> e = ep)
        \<longrightarrow> ep' = ep)"
proof -
  let ?N = "set (path_names ep)"
  have N: "set (placeholders qs) \<subseteq> ?N" using assms(6) by (metis order_refl set_mset_mset)
  have len: "length (placeholders qs) = length (path_names ep)" using assms(6) by (metis size_mset)
  have t: "path_template ep = path_of (map (dig ?N) qs)" using built_template [OF assms(1,3,5)] .
  have q: "CHR ''?'' \<notin> set (path_template ep)" unfolding t by (rule path_of_question [OF assms(5) N])
  have s: "segs slash (path_template ep) = map (\<lambda>q. seg_text (dig ?N q)) qs" unfolding t by (rule dug_segs [OF assms(4,5) N])
  have ok: "\<forall>s \<in> set (segs slash (path_template ep)). seg_ok s"
    using dug_segment(3) [of _ ?N] assms(5) N by (force simp: s set_placeholders)
  from path_args_texts [OF assms(7)] obtain vs where
    vs: "path_texts (with_location ''path'' (zip (ep_params ep) args)) = Some vs"
    "length vs = holes (segs slash (path_template ep))" "\<forall>v \<in> set vs. route_value v"
    using dug_holes [OF assms(5) N] len by (auto simp: s)
  have "answers ep (strip_query (rq_target req)) \<and> rq_verb req = cpp_verb ep"
  proof (cases "is_param_ep ep")
    case True
    then show ?thesis using request_target_answers [OF _ ok q assms(8) vs] by blast
  next
    case False
    have h: "holes (segs slash (path_template ep)) = 0"
    proof (rule ccontr)
      assume "holes (segs slash (path_template ep)) \<noteq> 0"
      then have "braces \<in> set (segs slash (path_template ep))" by (auto simp: holes_def filter_empty_conv)
      then obtain us ws where "segs slash (path_template ep) = us @ braces # ws" by (meson split_list)
      then have "\<exists>u v. path_template ep = u @ braces @ v" using join_segs [of slash "path_template ep"] join_part by metis
      then show False using False by (simp add: is_param_ep_def contains_sub_iff)
    qed
    then have "placeholders qs = []" using dug_holes [OF assms(5) N] by (simp add: s)
    then have "map (dig ?N) qs = qs"
      by (intro map_idI) (rule no_placeholder)
    then have "path_template ep = ep_path ep" using t assms(3) build_endpoint_fields(3) [OF assms(1)] by simp
    moreover have "vs = []" using vs(2) h by simp
    ultimately show ?thesis using plain_request_answers [OF False _ q assms(8)] vs(1) by simp
  qed
  then show ?thesis using answered_request_dispatched [OF assms(2)] by auto
qed

definition routed_param :: ClientParam where
  "routed_param = (sample_param ''id'' ''path'')\<lparr>is_string_type := True, cp_required := True\<rparr>"

theorem operation_dispatched_witness:
  "\<exists>ep req. build_endpoint id [] [] [] False (sample_op ''/a/{id}/b'' [routed_param]) = Some ep
    \<and> run_method ep [One (VString ''42'')] [] [] = Some req
    \<and> handle_request [ep] (rq_target req) (rq_verb req) = Some ep"
proof -
  let ?co = "sample_op ''/a/{id}/b'' [routed_param]"
  let ?qs = "[Lit [], Lit ''a'', Par ''id'', Lit ''b'']"
  obtain ep where ep: "build_endpoint id [] [] [] False ?co = Some ep" using build_sample by blast
  have ps: "ep_params ep = [routed_param]"
    using build_endpoint_fields(4) [OF ep]
    by (simp add: sample_op_def routed_param_def sample_param_def ordered_params_def located_def lookup_param_def
        empty_param_def List.map_filter_simps rename_param_def sanitizeParamName_def reserved_params_def)
  have path: "co_path ?co = path_of ?qs" by (simp add: sample_op_def path_of_def seg_text_def)
  have segs: "\<forall>q \<in> set ?qs. path_segment q" by (simp add: no_braces_def)
  have names: "mset (placeholders ?qs) = mset (path_names ep)"
    by (simp add: path_names_def ps routed_param_def sample_param_def empty_param_def)
  have args: "path_args_ok ep [One (VString ''42'')]"
    by (simp add: path_args_ok_def ps routed_param_def sample_param_def empty_param_def path_text_def route_value_def no_braces_def)
  obtain req where req: "run_method ep [One (VString ''42'')] [] [] = Some req"
    by (simp add: run_method_def run_target_def with_location_def ps routed_param_def sample_param_def
        empty_param_def run_path_param_def path_text_def)
  from operation_dispatched [OF ep _ path _ segs names args req, of "[ep]"] ep req show ?thesis by auto
qed

end
