(* ===== verification/Server_Application.thy ===== *)
theory Server_Application
  imports Server_Runtime Document_Routing
begin

text \<open>
  The server that is generated for a document, running on \<open>Server_Runtime\<close>: its \<open>handle_request\<close> dispatches a
  request to the member function of an endpoint or answers 404. The member functions are the
  application's; here they answer before they return, and \<open>app ep req\<close> is what the one of \<open>ep\<close> makes of
  the response of the session.
\<close>

section \<open>Dispatching in a session\<close>

type_synonym application = "Endpoint \<Rightarrow> http_request \<Rightarrow> http_response \<Rightarrow> http_response"

text \<open>The response with which \<open>write\<close> is called.\<close>

definition prepared :: "application \<Rightarrow> Endpoint list \<Rightarrow> http_request \<Rightarrow> http_response \<Rightarrow> http_response" where
  "prepared app eps req resp =
     (case handle_request eps (req_target req) (req_verb req) of
        Some ep \<Rightarrow> app ep req resp
      | None \<Rightarrow> resp\<lparr>resp_status := 404\<rparr>)"

text \<open>\<open>Server::handle_request\<close> and what it calls, up to its return: the response is changed and written, and
  the pointer that was handed over is dropped.\<close>

definition serve :: "application \<Rightarrow> Endpoint list \<Rightarrow> http_request \<Rightarrow> session \<Rightarrow> session" where
  "serve app eps req s =
     (let s1 = hand_over req s;
          s2 = s1\<lparr>response := prepared app eps req (response s1)\<rparr>;
          s3 = write_response (s2\<lparr>due := due s2 - 1\<rparr>)
      in s3\<lparr>held := held s3 - 1\<rparr>)"

definition on_read_app :: "application \<Rightarrow> Endpoint list \<Rightarrow> error_code \<Rightarrow> error_code \<Rightarrow> http_request \<Rightarrow> session \<Rightarrow> session" where
  "on_read_app app eps eos ec req s =
     (if ec = eos then do_close s else if failed ec then fail_with ''on_read'' s else serve app eps req s)"

inductive app_step :: "application \<Rightarrow> Endpoint list \<Rightarrow> error_code \<Rightarrow> session \<Rightarrow> session \<Rightarrow> bool" for app eps eos where
  posted: "\<lbrakk>alive s; posted s = Suc n\<rbrakk> \<Longrightarrow> app_step app eps eos s (do_read (s\<lparr>posted := n\<rparr>))"
| read: "\<lbrakk>alive s; reading s = Suc n\<rbrakk> \<Longrightarrow> app_step app eps eos s (on_read_app app eps eos ec req (s\<lparr>reading := n\<rparr>))"
| written: "\<lbrakk>alive s; writing s = Suc n\<rbrakk> \<Longrightarrow> app_step app eps eos s (on_write ec (s\<lparr>writing := n\<rparr>))"
| gone: "\<lbrakk>alive s; references s = 0\<rbrakk> \<Longrightarrow> app_step app eps eos s (destroy s)"

inductive_cases app_stepE: "app_step app eps eos s s'"

text \<open>A session of the server from its start.\<close>

definition app_reaches :: "application \<Rightarrow> Endpoint list \<Rightarrow> error_code \<Rightarrow> server_config \<Rightarrow> 64 word \<Rightarrow> session \<Rightarrow> bool" where
  "app_reaches app eps eos config ident s \<longleftrightarrow> (app_step app eps eos)\<^sup>*\<^sup>* (run_session (new_session config ident)) s"

section \<open>The session as the runtime sees it\<close>

text \<open>A step of the generated server is a sequence of steps of a session whose handlers answer once.\<close>

lemma serve_steps:
  assumes "alive s" and "reading s = Suc n" and "\<not> failed ec" and "ec \<noteq> eos"
  shows "(session_step eos True)\<^sup>*\<^sup>* s (serve app eps req (s\<lparr>reading := n\<rparr>))"
proof -
  let ?s1 = "on_read eos ec req (s\<lparr>reading := n\<rparr>)"
  have s1: "?s1 = hand_over req (s\<lparr>reading := n\<rparr>)" using assms(3,4) by (simp add: on_read_def)
  have up: "alive ?s1" "0 < held ?s1" "0 < due ?s1" by (simp_all add: s1 hand_over_def assms(1))
  let ?s2 = "?s1\<lparr>response := prepared app eps req (response ?s1)\<rparr>"
  let ?s3 = "write_response (?s2\<lparr>due := due ?s2 - 1\<rparr>)"
  have "session_step eos True s ?s1" by (rule session_step.read [OF assms(1,2)])
  moreover have "session_step eos True ?s1 ?s2" by (rule session_step.respond [OF up(1,2)])
  moreover have "session_step eos True ?s2 ?s3" by (rule session_step.answer) (use up in simp_all)
  moreover have "session_step eos True ?s3 (?s3\<lparr>held := held ?s3 - 1\<rparr>)"
    by (rule session_step.release) (use up in \<open>simp_all add: write_response_def\<close>)
  ultimately have "(session_step eos True)\<^sup>*\<^sup>* s (?s3\<lparr>held := held ?s3 - 1\<rparr>)"
    by (meson rtranclp.rtrancl_refl rtranclp.rtrancl_into_rtrancl)
  then show ?thesis by (simp add: s1 serve_def Let_def)
qed

lemma app_step_simulated:
  assumes "app_step app eps eos s s'"
  shows "(session_step eos True)\<^sup>*\<^sup>* s s'"
  using assms
proof (cases rule: app_step.cases)
  case (read n ec req)
  show ?thesis
  proof (cases "failed ec \<or> ec = eos")
    case True
    then have "s' = on_read eos ec req (s\<lparr>reading := n\<rparr>)" using read(1) by (auto simp: on_read_app_def on_read_def)
    with session_step.read [OF read(2,3)] show ?thesis by blast
  next
    case False
    then show ?thesis using serve_steps [OF read(2,3)] read(1) by (auto simp: on_read_app_def)
  qed
qed (auto intro: session_step.intros)

lemma app_steps_simulated: "(app_step app eps eos)\<^sup>*\<^sup>* s s' \<Longrightarrow> (session_step eos True)\<^sup>*\<^sup>* s s'"
  by (induction rule: rtranclp_induct) (auto dest: app_step_simulated)

lemma session_ok_steps: "(session_step eos strict)\<^sup>*\<^sup>* s s' \<Longrightarrow> session_ok strict s \<Longrightarrow> session_ok strict s'"
  by (induction rule: rtranclp_induct) (auto intro: session_ok_step)

section \<open>Requests and responses\<close>

text \<open>What the requests of a session are answered with, from the response the session starts with.\<close>

fun replies :: "application \<Rightarrow> Endpoint list \<Rightarrow> http_response \<Rightarrow> http_request list \<Rightarrow> http_response list" where
  "replies app eps resp [] = []"
| "replies app eps resp (req # reqs) = prepared app eps req resp # replies app eps (prepared app eps req resp) reqs"

lemma replies_snoc:
  "replies app eps resp (reqs @ [req]) = replies app eps resp reqs @ [prepared app eps req (last (resp # replies app eps resp reqs))]"
  by (induction reqs arbitrary: resp) auto

lemma length_replies [simp]: "length (replies app eps resp reqs) = length reqs"
  by (induction reqs arbitrary: resp) auto

lemma nth_replies:
  "i < length reqs \<Longrightarrow> replies app eps resp reqs ! i
    = prepared app eps (reqs ! i) (if i = 0 then resp else replies app eps resp reqs ! (i - 1))"
proof (induction reqs arbitrary: resp i)
  case (Cons req reqs)
  then show ?case by (cases i) (auto simp: nth_Cons')
qed simp

definition answered :: "application \<Rightarrow> Endpoint list \<Rightarrow> session \<Rightarrow> bool" where
  "answered app eps s \<longleftrightarrow> sent s = replies app eps empty_response (handled s)
     \<and> response s = last (empty_response # sent s) \<and> held s = 0 \<and> due s = 0"

lemma answered_step: "app_step app eps eos s s' \<Longrightarrow> answered app eps s \<Longrightarrow> answered app eps s'"
  by (erule app_stepE)
    (auto simp: answered_def on_read_app_def serve_def Let_def session_defs replies_snoc)

lemma app_reaches_answered:
  assumes "app_reaches app eps eos config ident s"
  shows "answered app eps s"
  using assms unfolding app_reaches_def
proof (induction rule: rtranclp_induct)
  case base
  show ?case by (simp add: answered_def run_session_def new_session_def)
next
  case (step s1 s2)
  then show ?case by (blast intro: answered_step)
qed

lemma app_reaches_ok: "app_reaches app eps eos config ident s \<Longrightarrow> session_ok True s"
  unfolding app_reaches_def by (drule app_steps_simulated) (erule session_ok_steps [OF _ session_ok_new])

section \<open>Properties\<close>

text \<open>C5: a session of the generated server, whatever its operations complete with. There is one response for
  every request, in their order: the member function of the endpoint that \<open>handle_request\<close> finds for the
  request makes it from the response before, and without an endpoint the status is 404 and the body is
  the one of the response before. At most one operation is pending, and the steps are steps of a
  session whose handlers answer every request once.\<close>

theorem served_in_order:
  assumes "app_reaches app eps eos config ident s"
  shows "length (sent s) = length (handled s) \<and> posted s + reading s + writing s \<le> 1
    \<and> (session_step eos True)\<^sup>*\<^sup>* (run_session (new_session config ident)) s
    \<and> (\<forall>i < length (handled s).
         let req = handled s ! i; previous = (if i = 0 then empty_response else sent s ! (i - 1)) in
         case handle_request eps (req_target req) (req_verb req) of
           Some ep \<Rightarrow> sent s ! i = app ep req previous
         | None \<Rightarrow> sent s ! i = \<lparr>resp_status = 404, resp_body = resp_body previous\<rparr>)"
proof -
  from app_reaches_answered [OF assms] have r: "sent s = replies app eps empty_response (handled s)" and "due s = 0"
    by (simp_all add: answered_def)
  moreover have "session_ok True s" using assms by (rule app_reaches_ok)
  moreover have "sent s ! i = prepared app eps (handled s ! i) (if i = 0 then empty_response else sent s ! (i - 1))"
    if "i < length (handled s)" for i
    unfolding r using that by (rule nth_replies)
  moreover have "(session_step eos True)\<^sup>*\<^sup>* (run_session (new_session config ident)) s"
    using assms unfolding app_reaches_def by (rule app_steps_simulated)
  ultimately show ?thesis
    by (auto simp: session_ok_def prepared_def Let_def split: option.split)
qed

text \<open>A kept-alive connection: the answer to a request that no endpoint answers to carries the body of the
  response before.\<close>

definition pets_endpoint :: Endpoint where
  "pets_endpoint = \<lparr>ep_method = ''get'', ep_path = ''/pets'', path_template = ''/pets'', function_name = ''get_pets'', ep_summary = [],
     ep_description = [], cpp_verb = ''get'', ep_params = [], has_request_body = False, body_type = [], body_content_type = [],
     auth_type = Auth_None, auth_header_name = []\<rparr>"

definition get_request :: "string \<Rightarrow> http_request" where
  "get_request target = \<lparr>req_verb = ''get'', req_target = target, req_host = [], req_fields = [], req_body = []\<rparr>"

definition pets_app :: application where
  "pets_app ep req resp = resp\<lparr>resp_status := 200, resp_body := ''[1, 2]''\<rparr>"

definition end_code :: error_code where
  "end_code = \<lparr>ec_value = 1, ec_category = ''beast.http''\<rparr>"

lemma pets_routed: "handle_request [pets_endpoint] ''/pets'' ''get'' = Some pets_endpoint"
  "handle_request [pets_endpoint] ''/none'' ''get'' = None"
  by (simp_all add: handle_request_def static_lookup_def param_lookup_def static_eps_def param_eps_def is_param_ep_def pets_endpoint_def
      strip_query_def braces_def contains_sub_def Let_def)

lemma pets_session:
  "\<exists>s. app_reaches pets_app [pets_endpoint] end_code config ident s \<and> handled s = [get_request ''/pets'', get_request ''/none'']"
proof -
  let ?step = "app_step pets_app [pets_endpoint] end_code"
  let ?s0 = "run_session (new_session config ident)"
  let ?s1 = "do_read (?s0\<lparr>posted := 0\<rparr>)"
  let ?s2 = "serve pets_app [pets_endpoint] (get_request ''/pets'') (?s1\<lparr>reading := 0\<rparr>)"
  let ?s3 = "on_write no_error (?s2\<lparr>writing := 0\<rparr>)"
  let ?s4 = "serve pets_app [pets_endpoint] (get_request ''/none'') (?s3\<lparr>reading := 0\<rparr>)"
  note defs = session_defs serve_def Let_def failed_def no_error_def end_code_def
  have read: "on_read_app app eps end_code no_error req s = serve app eps req s" for app eps req s
    by (simp add: on_read_app_def failed_def no_error_def end_code_def)
  have "?step ?s0 ?s1" by (rule app_step.posted) (simp_all add: defs)
  moreover have "?step ?s1 ?s2"
    using app_step.read [of ?s1 0 pets_app "[pets_endpoint]" end_code no_error "get_request ''/pets''"] unfolding read by (simp add: defs)
  moreover have "?step ?s2 ?s3" by (rule app_step.written) (simp_all add: defs)
  moreover have "?step ?s3 ?s4"
    using app_step.read [of ?s3 0 pets_app "[pets_endpoint]" end_code no_error "get_request ''/none''"] unfolding read by (simp add: defs)
  ultimately have "?step\<^sup>*\<^sup>* ?s0 ?s4" by (meson rtranclp.rtrancl_refl rtranclp.rtrancl_into_rtrancl)
  moreover have "handled ?s4 = [get_request ''/pets'', get_request ''/none'']" by (simp add: defs)
  ultimately show ?thesis unfolding app_reaches_def by blast
qed

theorem served_in_order_witness:
  "\<exists>s. app_reaches pets_app [pets_endpoint] end_code default_config 0 s
    \<and> sent s = [\<lparr>resp_status = 200, resp_body = ''[1, 2]''\<rparr>, \<lparr>resp_status = 404, resp_body = ''[1, 2]''\<rparr>]"
proof -
  obtain s where s: "app_reaches pets_app [pets_endpoint] end_code default_config 0 s"
    "handled s = [get_request ''/pets'', get_request ''/none'']" using pets_session by blast
  note served = served_in_order [OF s(1), unfolded s(2), THEN conjunct2, THEN conjunct2, THEN conjunct2, rule_format]
  have "sent s ! 0 = \<lparr>resp_status = 200, resp_body = ''[1, 2]''\<rparr>"
    using served [of 0] by (simp add: get_request_def pets_routed pets_app_def empty_response_def)
  moreover from this have "sent s ! 1 = \<lparr>resp_status = 404, resp_body = ''[1, 2]''\<rparr>"
    using served [of 1] by (simp add: get_request_def pets_routed)
  moreover have "length (sent s) = 2" using served_in_order [OF s(1)] s(2) by simp
  ultimately have "sent s = [\<lparr>resp_status = 200, resp_body = ''[1, 2]''\<rparr>, \<lparr>resp_status = 404, resp_body = ''[1, 2]''\<rparr>]"
    by (intro nth_equalityI) (auto simp: less_2_cases_iff)
  with s(1) show ?thesis by blast
qed

end
