(* ===== verification/Client_Runtime.thy ===== *)
theory Client_Runtime
  imports Server_Runtime
begin

text \<open>
  \<open>include/siesta/beast/client.hpp\<close>, \<open>src/beast/client.cpp\<close> and \<open>src/beast/error.cpp\<close>: connecting, the
  state machine of a request, and the error codes it ends with. As in \<open>Server_Runtime\<close>, an operation of
  the networking library that was started is data, and its completion comes with a code of its choice.
\<close>

section \<open>Errors\<close>

text \<open>\<open>http_category\<close> and \<open>std::make_error_code\<close>; a status is its number.\<close>

definition http_category_name :: string where
  "http_category_name = ''HTTP status codes''"

definition make_error_code :: "nat \<Rightarrow> error_code" where
  "make_error_code status = \<lparr>ec_value = int status, ec_category = http_category_name\<rparr>"

definition make_error_condition :: "nat \<Rightarrow> error_code" where
  "make_error_condition status = \<lparr>ec_value = int status, ec_category = http_category_name\<rparr>"

text \<open>The message of a code of the category; \<open>reason\<close> is the phrase of the HTTP library, \<open>known\<close> tells the
  numbers it has a status for, the others count as the unknown status 0.\<close>

definition http_category_message :: "(int \<Rightarrow> bool) \<Rightarrow> (int \<Rightarrow> string) \<Rightarrow> int \<Rightarrow> string" where
  "http_category_message known reason ev = reason (if known ev then ev else 0)"

definition is_transient :: "error_code \<Rightarrow> bool" where
  "is_transient ec = (if ec_category ec = ''beast.http'' then 500 \<le> ec_value ec \<and> ec_value ec < 600 else True)"

section \<open>Connecting\<close>

record client_config =
  connect_timeout :: nat
  request_write_timeout :: nat
  request_read_timeout :: nat

definition default_client_config :: client_config where
  "default_client_config = \<lparr>connect_timeout = 1000, request_write_timeout = 1000, request_read_timeout = 1000\<rparr>"

text \<open>The members of \<open>ClientBase\<close>; \<open>resolving\<close> and \<open>connecting\<close> count pending operations,
  \<open>stream_open\<close> tells that the stream was not closed.\<close>

record client =
  client_conf :: client_config
  host_value :: string
  resolving :: nat
  connecting :: nat
  stream_open :: bool
  stream_deadline :: nat
  last_request :: http_request
  last_response :: http_response
  client_failures :: "string list"

definition new_client :: "client_config \<Rightarrow> http_request \<Rightarrow> client" where
  "new_client config req = \<lparr>client_conf = config, host_value = [], resolving = 0, connecting = 0, stream_open = True,
     stream_deadline = 0, last_request = req, last_response = empty_response, client_failures = []\<rparr>"

definition start_client :: "string \<Rightarrow> nat \<Rightarrow> client \<Rightarrow> client" where
  "start_client address port c =
     c\<lparr>host_value := address @ '':'' @ nat_to_string port, resolving := resolving c + 1\<rparr>"

definition client_fail :: "string \<Rightarrow> client \<Rightarrow> client" where
  "client_fail facility c = c\<lparr>client_failures := client_failures c @ [facility]\<rparr>"

definition on_resolve :: "error_code \<Rightarrow> client \<Rightarrow> client" where
  "on_resolve ec c =
     (if failed ec then client_fail ''on_resolve'' c
      else c\<lparr>stream_deadline := connect_timeout (client_conf c), connecting := connecting c + 1\<rparr>)"

definition on_connect :: "error_code \<Rightarrow> client \<Rightarrow> client" where
  "on_connect ec c = (if failed ec then client_fail ''on_connect'' c else c)"

definition stop_client :: "client \<Rightarrow> client" where
  "stop_client c = c\<lparr>stream_open := False\<rparr>"

text \<open>The destructor.\<close>

definition destroy_client :: "client \<Rightarrow> client" where
  "destroy_client c = stop_client c"

text \<open>\<open>extract_object\<close>: \<open>parse\<close> and \<open>value_to\<close> are the JSON library's, \<open>None\<close> an exception, which leaves the
  object as it was.\<close>

definition extract_object :: "(string \<Rightarrow> 'j option) \<Rightarrow> ('j \<Rightarrow> 'a option) \<Rightarrow> http_response \<Rightarrow> 'a option" where
  "extract_object parse value_to resp = Option.bind (parse (resp_body resp)) value_to"

section \<open>A request\<close>

text \<open>What the composed operation does when it is resumed: start a write or a read, or complete.\<close>

datatype outcome = Outcome_value http_response | Outcome_error error_code

datatype action = Start_write | Start_read | Complete outcome

definition successful :: "nat \<Rightarrow> bool" where
  "successful status \<longleftrightarrow> status div 100 = 2"

text \<open>The lambda, in state \<open>state\<close>. \<open>moved\<close> is what the response holds after \<open>std::move\<close>.\<close>

definition resume :: "http_response \<Rightarrow> error_code \<Rightarrow> client \<Rightarrow> nat \<Rightarrow> client \<times> nat \<times> action" where
  "resume moved ec c state =
     (if failed ec then (c, state, Complete (Outcome_error ec))
      else if state = 0 then (c\<lparr>stream_deadline := request_write_timeout (client_conf c)\<rparr>, 1, Start_write)
      else if state = 1 then
        (c\<lparr>last_response := empty_response, stream_deadline := request_read_timeout (client_conf c)\<rparr>, 2, Start_read)
      else if successful (resp_status (last_response c))
        then (c\<lparr>last_response := moved\<rparr>, 0, Complete (Outcome_value (last_response c)))
      else (c, 0, Complete (Outcome_error (make_error_code (resp_status (last_response c))))))"

text \<open>\<open>async_submit_request\<close>: the composed operation is entered once without an error.\<close>

definition submit :: "http_response \<Rightarrow> http_request \<Rightarrow> client \<Rightarrow> client \<times> nat \<times> action" where
  "submit moved req c = resume moved no_error (c\<lparr>last_request := req\<lparr>req_host := host_value c\<rparr>\<rparr>) 0"

text \<open>The completions that follow: a code, and the response that a read has put into \<open>_response\<close>. The
  result is the outcome with which the operation completes, if it does, and the completions it did not
  wait for.\<close>

fun drive :: "http_response \<Rightarrow> client \<times> nat \<times> action \<Rightarrow> (error_code \<times> http_response) list
    \<Rightarrow> (outcome \<times> client) option \<times> (error_code \<times> http_response) list" where
  "drive moved (c, state, Complete out) evs = (Some (out, c), evs)"
| "drive moved (c, state, act) [] = (None, [])"
| "drive moved (c, state, act) ((ec, resp) # evs) =
     drive moved (resume moved ec (if act = Start_read \<and> \<not> failed ec then c\<lparr>last_response := resp\<rparr> else c) state) evs"

section \<open>Properties\<close>

text \<open>What a request comes to, from the codes of its write and read and the response.\<close>

definition request_outcome :: "error_code \<Rightarrow> error_code \<Rightarrow> http_response \<Rightarrow> outcome" where
  "request_outcome write_ec read_ec resp =
     (if failed write_ec then Outcome_error write_ec
      else if failed read_ec then Outcome_error read_ec
      else if 200 \<le> resp_status resp \<and> resp_status resp < 300 then Outcome_value resp
      else Outcome_error (make_error_code (resp_status resp)))"

lemma successful_iff: "successful n \<longleftrightarrow> 200 \<le> n \<and> n < 300"
  by (auto simp: successful_def)


text \<open>Which errors count as transient. Every error that a status gives rise to does, those of the
  class 400 as well, because the category they carry is not the one that is asked for; the errors that
  do not are those of the category \<open>beast.http\<close> whose value is no status of the class 500.\<close>

theorem status_errors_transient:
  "is_transient (make_error_code status)
    \<and> {ec. \<not> is_transient ec} = {ec. ec_category ec = ''beast.http'' \<and> ec_value ec \<notin> {500..<600}}"
  by (auto simp: is_transient_def make_error_code_def http_category_name_def)

end
