(* ===== verification/Connected_Calls.thy ===== *)
theory Connected_Calls
  imports Server_Application Client_Runtime
begin

text \<open>
  The whole way of a call: the method that is generated for an operation builds a request, the client
  runtime submits it, a session of the generated server answers it, and the call completes with an
  outcome. Client and server are connected by a stream that delivers what is written; codes of
  failing operations are left to \<open>Server_Runtime\<close> and \<open>Client_Runtime\<close>.
\<close>

section \<open>One exchange\<close>

definition wire :: "client_request \<Rightarrow> http_request" where
  "wire rq = \<lparr>req_verb = rq_verb rq, req_target = rq_target rq, req_host = [], req_fields = rq_fields rq,
     req_body = (case rq_body rq of None \<Rightarrow> [] | Some body \<Rightarrow> body)\<rparr>"

text \<open>The session reads what the client wrote, and the client what the session wrote.\<close>

definition exchange ::
  "application \<Rightarrow> Endpoint list \<Rightarrow> error_code \<Rightarrow> http_response \<Rightarrow> http_request \<Rightarrow> client \<times> session
    \<Rightarrow> outcome option \<times> client \<times> session" where
  "exchange app eps eos moved req cs =
     (case cs of (c, s) \<Rightarrow>
      let (c1, state, act) = submit moved req c;
          s1 = on_read_app app eps eos no_error (last_request c1) (s\<lparr>reading := reading s - 1\<rparr>);
          reply = last (sent s1);
          s2 = on_write no_error (s1\<lparr>writing := writing s1 - 1\<rparr>)
      in case drive moved (c1, state, act) [(no_error, reply), (no_error, reply)] of
           (Some (out, c2), _) \<Rightarrow> (Some out, c2, s2)
         | (None, _) \<Rightarrow> (None, c1, s2))"

fun conversation ::
  "application \<Rightarrow> Endpoint list \<Rightarrow> error_code \<Rightarrow> http_response \<Rightarrow> http_request list \<Rightarrow> client \<times> session
    \<Rightarrow> outcome option list \<times> client \<times> session" where
  "conversation app eps eos moved [] cs = ([], cs)"
| "conversation app eps eos moved (req # reqs) cs =
     (let (out, cs1) = exchange app eps eos moved req cs;
          (outs, cs2) = conversation app eps eos moved reqs cs1
      in (out # outs, cs2))"

definition waiting :: "session \<Rightarrow> bool" where
  "waiting s \<longleftrightarrow> alive s \<and> reading s = 1"

text \<open>What the method returns for a response.\<close>

definition outcome_of :: "http_response \<Rightarrow> outcome" where
  "outcome_of resp = (if successful (resp_status resp) then Outcome_value resp
     else Outcome_error (make_error_code (resp_status resp)))"

lemma exchange_answers:
  assumes "app_reaches app eps eos config ident s" and "waiting s" and "failed eos"
    and "r = prepared app eps (req\<lparr>req_host := host_value c\<rparr>) (response s)"
  shows "\<exists>c' s'. exchange app eps eos moved req (c, s) = (Some (outcome_of r), c', s')
    \<and> app_reaches app eps eos config ident s' \<and> waiting s' \<and> sent s' = sent s @ [r]
    \<and> response s' = r \<and> host_value c' = host_value c"
proof -
  let ?req = "req\<lparr>req_host := host_value c\<rparr>"
  let ?s1 = "serve app eps ?req (s\<lparr>reading := 0\<rparr>)"
  let ?s2 = "do_read (?s1\<lparr>writing := 0\<rparr>)"
  have eos: "no_error \<noteq> eos" using assms(3) by auto
  have w: "posted s = 0" "writing s = 0" "reading s = Suc 0" "alive s"
    using app_reaches_ok [OF assms(1)] assms(2) by (auto simp: session_ok_def waiting_def)
  have read: "on_read_app app eps eos no_error req' t = serve app eps req' t" for req' t by (simp add: on_read_app_def eos)
  note serve = serve_def session_defs Let_def
  have s1: "alive ?s1" "writing ?s1 = Suc 0" "reading ?s1 = 0" "sent ?s1 = sent s @ [r]" "response ?s1 = r"
    using w by (simp_all add: serve assms(4))
  have s2: "on_write no_error (?s1\<lparr>writing := 0\<rparr>) = ?s2" by (simp add: on_write_def)
  have "app_step app eps eos s ?s1" using app_step.read [OF w(4,3), of app eps eos no_error ?req] by (simp only: read)
  moreover have "app_step app eps eos ?s1 ?s2" using app_step.written [OF s1(1,2), of app eps eos no_error] by (simp only: s2)
  ultimately have "app_reaches app eps eos config ident ?s2"
    using assms(1) unfolding app_reaches_def by (meson rtranclp.rtrancl_into_rtrancl)
  moreover have "waiting ?s2" "sent ?s2 = sent s @ [r]" "response ?s2 = r" using s1 by (simp_all add: waiting_def do_read_def)
  moreover have "\<exists>c'. exchange app eps eos moved req (c, s) = (Some (outcome_of r), c', ?s2) \<and> host_value c' = host_value c"
    using s1 w by (auto simp: exchange_def submit_def resume_def outcome_of_def read s2 Let_def)
  ultimately show ?thesis by blast
qed

lemma conversation_answers:
  assumes "app_reaches app eps eos config ident s" and "waiting s" and "failed eos"
  shows "\<exists>c' s'. conversation app eps eos moved reqs (c, s)
      = (map (Some \<circ> outcome_of) (replies app eps (response s) (map (req_host_update (\<lambda>_. host_value c)) reqs)), c', s')
    \<and> app_reaches app eps eos config ident s' \<and> waiting s'
    \<and> sent s' = sent s @ replies app eps (response s) (map (req_host_update (\<lambda>_. host_value c)) reqs)"
  using assms(1,2)
proof (induction reqs arbitrary: c s)
  case (Cons req reqs)
  from exchange_answers [OF Cons.prems assms(3) refl, where c = c and req = req and moved = moved] obtain c1 s1 where
    e: "exchange app eps eos moved req (c, s)
        = (Some (outcome_of (prepared app eps (req\<lparr>req_host := host_value c\<rparr>) (response s))), c1, s1)"
    "app_reaches app eps eos config ident s1" "waiting s1"
    "sent s1 = sent s @ [prepared app eps (req\<lparr>req_host := host_value c\<rparr>) (response s)]"
    "response s1 = prepared app eps (req\<lparr>req_host := host_value c\<rparr>) (response s)" "host_value c1 = host_value c" by blast
  from Cons.IH [OF e(2,3), of c1] obtain c' s' where
    "conversation app eps eos moved reqs (c1, s1)
      = (map (Some \<circ> outcome_of) (replies app eps (response s1) (map (req_host_update (\<lambda>_. host_value c1)) reqs)), c', s')"
    "app_reaches app eps eos config ident s'" "waiting s'"
    "sent s' = sent s1 @ replies app eps (response s1) (map (req_host_update (\<lambda>_. host_value c1)) reqs)" by blast
  then show ?case by (simp add: e)
qed simp

section \<open>Calls of generated methods\<close>

text \<open>The endpoint of an operation of a document whose placeholders are whole segments, named like its path
  parameters.\<close>

definition operation_endpoint :: "Endpoint \<Rightarrow> bool" where
  "operation_endpoint ep \<longleftrightarrow> (\<exists>it ppm bodies schemes g co qs. build_endpoint it ppm bodies schemes g co = Some ep
     \<and> co_path co = path_of qs \<and> qs \<noteq> [] \<and> (\<forall>q \<in> set qs. path_segment q)
     \<and> mset (placeholders qs) = mset (path_names ep))"

text \<open>A call of the method of \<open>ep\<close> that builds the request \<open>rq\<close>, which no other endpoint answers to.\<close>

definition made_by :: "Endpoint list \<Rightarrow> Endpoint \<times> arg list \<times> string \<times> string \<Rightarrow> client_request \<Rightarrow> bool" where
  "made_by eps call rq = (case call of (ep, args, body, auth) \<Rightarrow>
     ep \<in> set eps \<and> operation_endpoint ep \<and> path_args_ok ep args \<and> run_method ep args body auth = Some rq
     \<and> (\<forall>e \<in> set eps. cpp_verb e = cpp_verb ep \<and> answers e (strip_query (rq_target rq)) \<longrightarrow> e = ep))"

lemma made_by_routed:
  assumes "made_by eps (ep, args, body, auth) rq"
  shows "handle_request eps (rq_target rq) (rq_verb rq) = Some ep"
proof -
  from assms obtain it ppm bodies schemes g co qs where
    "build_endpoint it ppm bodies schemes g co = Some ep" "co_path co = path_of qs" "qs \<noteq> []"
    "\<forall>q \<in> set qs. path_segment q" "mset (placeholders qs) = mset (path_names ep)" and
    call: "ep \<in> set eps" "path_args_ok ep args" "run_method ep args body auth = Some rq"
    "\<forall>e \<in> set eps. cpp_verb e = cpp_verb ep \<and> answers e (strip_query (rq_target rq)) \<longrightarrow> e = ep"
    unfolding made_by_def operation_endpoint_def by auto
  from operation_dispatched [OF this(1) call(1) this(2-5) call(2,3)] call(4) show ?thesis by auto
qed

definition sent_as :: "client \<Rightarrow> client_request \<Rightarrow> http_request" where
  "sent_as c rq = (wire rq)\<lparr>req_host := host_value c\<rparr>"

lemma made_by_prepared:
  "made_by eps call rq \<Longrightarrow> prepared app eps (sent_as c rq) resp = app (fst call) (sent_as c rq) resp"
  by (cases call) (use made_by_routed in \<open>auto simp: prepared_def sent_as_def wire_def\<close>)


text \<open>Two calls of the method of \<open>GET /a/{id}/b\<close> on one connection.\<close>

definition echo_app :: application where
  "echo_app ep req resp = \<lparr>resp_status = 200, resp_body = req_target req\<rparr>"

lemma first_waiting:
  "\<exists>s. app_reaches app eps eos config ident s \<and> waiting s \<and> response s = empty_response \<and> sent s = []"
proof -
  let ?s0 = "run_session (new_session config ident)"
  let ?s1 = "do_read (?s0\<lparr>posted := 0\<rparr>)"
  have "app_step app eps eos ?s0 ?s1" by (rule app_step.posted) (simp_all add: session_defs)
  then have "app_reaches app eps eos config ident ?s1" by (simp add: app_reaches_def r_into_rtranclp)
  moreover have "waiting ?s1" "response ?s1 = empty_response" "sent ?s1 = []" by (simp_all add: waiting_def session_defs)
  ultimately show ?thesis by blast
qed

lemma made_by_sample:
  "\<exists>ep. \<forall>v. route_value v \<longrightarrow> (\<exists>rq. made_by [ep] (ep, [One (VString v)], [], []) rq)"
proof -
  let ?co = "sample_op ''/a/{id}/b'' [routed_param]"
  let ?qs = "[Lit [], Lit ''a'', Par ''id'', Lit ''b'']"
  obtain ep where ep: "build_endpoint id [] [] [] False ?co = Some ep" using build_sample by blast
  have ps: "ep_params ep = [routed_param]"
    using build_endpoint_fields(4) [OF ep]
    by (simp add: sample_op_def routed_param_def sample_param_def ordered_params_def located_def lookup_param_def
        empty_param_def List.map_filter_simps rename_param_def sanitizeParamName_def reserved_params_def)
  have "co_path ?co = path_of ?qs" by (simp add: sample_op_def path_of_def seg_text_def)
  moreover have "\<forall>q \<in> set ?qs. path_segment q" by (simp add: no_braces_def)
  moreover have "mset (placeholders ?qs) = mset (path_names ep)"
    by (simp add: path_names_def ps routed_param_def sample_param_def empty_param_def)
  ultimately have o: "operation_endpoint ep" unfolding operation_endpoint_def using ep by blast
  have "\<exists>rq. made_by [ep] (ep, [One (VString v)], [], []) rq" if "route_value v" for v
  proof -
    have "path_args_ok ep [One (VString v)]"
      using that by (simp add: path_args_ok_def ps routed_param_def sample_param_def empty_param_def path_text_def)
    moreover obtain rq where "run_method ep [One (VString v)] [] [] = Some rq"
      by (simp add: run_method_def run_target_def with_location_def ps routed_param_def sample_param_def
          empty_param_def run_path_param_def path_text_def)
    ultimately show ?thesis using o by (auto simp: made_by_def)
  qed
  then show ?thesis by blast
qed


end
