(* ===== verification/Ast.thy ===== *)
theory Ast
  imports Utils
begin

text \<open>
  \<open>generator/src/Frontend/AST.hpp\<close> and \<open>AST.cpp\<close>: the normalized representation of the schema
  types of an OpenAPI document that every later phase reads, and its validation. The C++ types
  of primitives (\<open>primitiveToCpp\<close> of \<open>Support/Utils.cpp\<close>) are here, with the kinds they
  depend on.
\<close>

section \<open>Data\<close>

datatype type_ref = TypeRef (tr_name: string) (is_inline: bool)

text \<open>The defaulted \<open><=>\<close> of \<open>TypeRef\<close> compares the members in their order.\<close>

instantiation type_ref :: linorder
begin

definition less_eq_type_ref :: "type_ref \<Rightarrow> type_ref \<Rightarrow> bool" where
  "less_eq_type_ref a b \<longleftrightarrow>
     tr_name a < tr_name b \<or> (tr_name a = tr_name b \<and> is_inline a \<le> is_inline b)"

definition less_type_ref :: "type_ref \<Rightarrow> type_ref \<Rightarrow> bool" where
  "less_type_ref a b \<longleftrightarrow>
     tr_name a < tr_name b \<or> (tr_name a = tr_name b \<and> is_inline a < is_inline b)"

instance
  by standard
    (auto simp: less_eq_type_ref_def less_type_ref_def intro: type_ref.expand)

end

datatype PrimitiveKind = PK_String | PK_Integer | PK_Number | PK_Boolean | PK_Null
datatype IntegerFormat = Int32 | Int64 | UInt32 | UInt64
datatype NumberFormat = NF_Float | NF_Double
datatype StringFormat = SF_None | SF_Date | SF_DateTime | SF_Email | SF_UUID | SF_URI | SF_Base64

record PrimitiveType =
  pt_kind :: PrimitiveKind
  int_format :: "IntegerFormat option"
  num_format :: "NumberFormat option"
  str_format :: "StringFormat option"
  enum_values :: "string list"
  pt_description :: string

record ArrayType =
  element_type :: type_ref
  at_description :: string

record MapType =
  value_type :: type_ref
  mt_description :: string

record EnumValue =
  ev_name :: string
  ev_value :: string
  ev_description :: string

record EnumType =
  et_name :: string
  et_values :: "EnumValue list"
  is_string :: bool
  et_description :: string

record Member =
  mb_name :: string
  mb_type :: type_ref
  mb_required :: bool
  default_value :: "string option"
  mb_description :: string

record StructType =
  st_name :: string
  st_fields :: "Member list"
  allOf_bases :: "type_ref list"
  st_description :: string

record VariantType =
  vt_name :: string
  alternatives :: "type_ref list"
  is_nullable :: bool
  discriminator_property :: "string option"
  vt_description :: string

datatype SchemaType =
  SStruct StructType | SVariant VariantType | SArray ArrayType | SMap MapType
| SEnum EnumType | SPrimitive PrimitiveType

record PathItem =
  pi_path :: string
  pi_operations :: "(string, string) umap"
  pi_parameters :: "Member list"
  pi_description :: string

record NormalizedAST =
  ast_types :: "(string, SchemaType) umap"
  ast_paths :: "(string, PathItem) umap"

definition empty_ast :: NormalizedAST where
  "empty_ast = \<lparr>ast_types = [], ast_paths = []\<rparr>"

section \<open>Operations\<close>

definition addType :: "string \<Rightarrow> SchemaType \<Rightarrow> NormalizedAST \<Rightarrow> NormalizedAST" where
  "addType name t ast = ast\<lparr>ast_types := AList.update name t (ast_types ast)\<rparr>"

definition addPath :: "string \<Rightarrow> PathItem \<Rightarrow> NormalizedAST \<Rightarrow> NormalizedAST" where
  "addPath path item ast = ast\<lparr>ast_paths := AList.update path item (ast_paths ast)\<rparr>"

definition getType :: "NormalizedAST \<Rightarrow> string \<Rightarrow> SchemaType option" where
  "getType ast name = map_of (ast_types ast) name"

definition hasType :: "NormalizedAST \<Rightarrow> string \<Rightarrow> bool" where
  "hasType ast name \<longleftrightarrow> getType ast name \<noteq> None"

definition getTypeCount :: "NormalizedAST \<Rightarrow> nat" where
  "getTypeCount ast = length (ast_types ast)"

definition getPath :: "NormalizedAST \<Rightarrow> string \<Rightarrow> PathItem option" where
  "getPath ast path = map_of (ast_paths ast) path"

text \<open>The type map is a map: what the constructor and the two adders keep.\<close>

definition wf_ast :: "NormalizedAST \<Rightarrow> bool" where
  "wf_ast ast \<longleftrightarrow> distinct (keys (ast_types ast)) \<and> distinct (keys (ast_paths ast))"

lemma wf_empty_ast [simp]: "wf_ast empty_ast"
  by (simp add: wf_ast_def empty_ast_def)

lemma wf_addType [simp]: "wf_ast ast \<Longrightarrow> wf_ast (addType name t ast)"
  by (simp add: wf_ast_def addType_def distinct_keys_update)

lemma wf_addPath [simp]: "wf_ast ast \<Longrightarrow> wf_ast (addPath p i ast)"
  by (simp add: wf_ast_def addPath_def distinct_keys_update)

lemma getType_empty_ast [simp]: "getType empty_ast n = None"
  by (simp add: getType_def empty_ast_def)

lemma getType_addType [simp]:
  "getType (addType name t ast) n = (if n = name then Some t else getType ast n)"
  by (simp add: getType_def addType_def map_of_update)

lemma getType_addPath [simp]: "getType (addPath p i ast) n = getType ast n"
  by (simp add: getType_def addPath_def)

lemma hasType_addType [simp]: "hasType (addType name t ast) n \<longleftrightarrow> n = name \<or> hasType ast n"
  by (simp add: hasType_def)

lemma hasType_keys: "hasType ast n \<longleftrightarrow> n \<in> key_set (ast_types ast)"
  by (simp add: hasType_def getType_def key_set_iff)

text \<open>A type carries the name it is filed under.\<close>

definition own_name :: "string \<Rightarrow> SchemaType \<Rightarrow> bool" where
  "own_name n type =
     (case type of SStruct t \<Rightarrow> st_name t = n | SVariant t \<Rightarrow> vt_name t = n | SEnum t \<Rightarrow> et_name t = n | _ \<Rightarrow> True)"

section \<open>Validation\<close>

definition quote :: "string \<Rightarrow> string" where
  "quote s = [CHR 0x27] @ s @ [CHR 0x27]"

definition validateType :: "NormalizedAST \<Rightarrow> SchemaType \<Rightarrow> string \<Rightarrow> string list" where
  "validateType ast type context =
     (case type of
        SStruct t \<Rightarrow>
          concat (map (\<lambda>field.
             if \<not> is_inline (mb_type field) \<and> \<not> hasType ast (tr_name (mb_type field)) then
               [context @ '': field '' @ quote (mb_name field) @ '' references unknown type ''
                  @ quote (tr_name (mb_type field))]
             else []) (st_fields t))
          @ concat (map (\<lambda>base.
             if \<not> hasType ast (tr_name base) then
               [context @ '': base type '' @ quote (tr_name base) @ '' not found'']
             else []) (allOf_bases t))
      | SVariant t \<Rightarrow>
          concat (map (\<lambda>alt.
             if \<not> is_inline alt \<and> \<not> hasType ast (tr_name alt) then
               [context @ '': variant alternative '' @ quote (tr_name alt) @ '' not found'']
             else []) (alternatives t))
      | SArray t \<Rightarrow>
          (if \<not> is_inline (element_type t) \<and> \<not> hasType ast (tr_name (element_type t)) then
             [context @ '': array element type '' @ quote (tr_name (element_type t)) @ '' not found'']
           else [])
      | SMap t \<Rightarrow>
          (if \<not> is_inline (value_type t) \<and> \<not> hasType ast (tr_name (value_type t)) then
             [context @ '': map value type '' @ quote (tr_name (value_type t)) @ '' not found'']
           else [])
      | SEnum _ \<Rightarrow> []
      | SPrimitive _ \<Rightarrow> [])"

definition validate :: "(string list \<Rightarrow> string list) \<Rightarrow> NormalizedAST \<Rightarrow> string list" where
  "validate it ast =
     concat (map (\<lambda>name. case getType ast name of
         Some type \<Rightarrow> validateType ast type name | None \<Rightarrow> []) (it (keys (ast_types ast))))"

text \<open>
  The references a validated type must resolve: every base class, and every reference that is
  not inline.
\<close>

definition must_resolve :: "SchemaType \<Rightarrow> string set" where
  "must_resolve type =
     (case type of
        SStruct t \<Rightarrow> {tr_name (mb_type f) | f. f \<in> set (st_fields t) \<and> \<not> is_inline (mb_type f)}
          \<union> tr_name ` set (allOf_bases t)
      | SVariant t \<Rightarrow> {tr_name a | a. a \<in> set (alternatives t) \<and> \<not> is_inline a}
      | SArray t \<Rightarrow> (if is_inline (element_type t) then {} else {tr_name (element_type t)})
      | SMap t \<Rightarrow> (if is_inline (value_type t) then {} else {tr_name (value_type t)})
      | SEnum _ \<Rightarrow> {}
      | SPrimitive _ \<Rightarrow> {})"

lemma validateType_Nil: "validateType ast type context = [] \<longleftrightarrow> (\<forall>n \<in> must_resolve type. hasType ast n)"
proof (cases type)
  case (SStruct t)
  then show ?thesis
    by (simp add: validateType_def must_resolve_def del: concat_eq_Nil_conv) blast
next
  case (SVariant t)
  then show ?thesis
    by (simp add: validateType_def must_resolve_def del: concat_eq_Nil_conv) blast
qed (simp_all add: validateType_def must_resolve_def)

lemma validate_iff:
  assumes "hash_order it" and "wf_ast ast"
  shows "validate it ast = [] \<longleftrightarrow>
    (\<forall>name type. getType ast name = Some type \<longrightarrow> (\<forall>n \<in> must_resolve type. hasType ast n))"
proof -
  have "set (it (keys (ast_types ast))) = key_set (ast_types ast)"
    using assms by (simp add: hash_order_key_set wf_ast_def)
  then have "validate it ast = [] \<longleftrightarrow>
      (\<forall>name. hasType ast name \<longrightarrow> (case getType ast name of
         Some type \<Rightarrow> validateType ast type name = [] | None \<Rightarrow> True))"
    by (auto simp: validate_def hasType_keys split: option.splits)
  then show ?thesis
    by (auto simp: hasType_def validateType_Nil split: option.splits)
qed

text \<open>
  C29: validation accepts exactly the closed type tables, whatever the order of iteration: no
  error is reported if and only if every reference of every type names a type of the table.
\<close>

theorem validate_closed:
  assumes "hash_order it" and "wf_ast ast"
  shows "validate it ast = [] \<longleftrightarrow>
    (\<forall>name type. getType ast name = Some type \<longrightarrow> (\<forall>n \<in> must_resolve type. hasType ast n))"
  using assms by (rule validate_iff)

definition sample_ast :: NormalizedAST where
  "sample_ast = addType ''Pets'' (SArray \<lparr>element_type = TypeRef ''Pet'' False, at_description = []\<rparr>)
     (addType ''Pet'' (SStruct \<lparr>st_name = ''Pet'', st_fields = [], allOf_bases = [], st_description = []\<rparr>)
       empty_ast)"

theorem validate_closed_witness: "hash_order rev \<and> wf_ast sample_ast \<and> validate rev sample_ast = []"
proof -
  have w: "wf_ast sample_ast" by (simp add: sample_ast_def)
  have "validate rev sample_ast = []"
    by (subst validate_closed [OF hash_order_rev w])
      (auto simp: sample_ast_def must_resolve_def split: if_splits)
  with w show ?thesis by (simp add: hash_order_rev)
qed

section \<open>C++ types of primitives\<close>

definition primitiveToCpp ::
  "PrimitiveKind \<Rightarrow> IntegerFormat option \<Rightarrow> NumberFormat option \<Rightarrow> string" where
  "primitiveToCpp kind fmt num_fmt =
     (case kind of
        PK_String \<Rightarrow> ''std::string''
      | PK_Integer \<Rightarrow>
          (if fmt = Some Int64 then ''int64_t''
           else if fmt = Some UInt64 then ''uint64_t''
           else if fmt = Some UInt32 then ''uint32_t''
           else ''int32_t'')
      | PK_Number \<Rightarrow> (if num_fmt = Some NF_Double then ''double'' else ''float'')
      | PK_Boolean \<Rightarrow> ''bool''
      | PK_Null \<Rightarrow> ''std::nullptr_t'')"

lemma primitiveToCpp_not_Nil [simp]: "primitiveToCpp k f n \<noteq> []"
  by (simp add: primitiveToCpp_def split: PrimitiveKind.splits)

end
