(* ===== verification/Schema_Parser.thy ===== *)
theory Schema_Parser
  imports Openapi Ast
begin

text \<open>
  \<open>generator/src/Frontend/SchemaParser.cpp\<close>: the parser that turns JSON schemas into types, adding
  the inline structs it meets to the AST. The parsers are functions of the document and of a state,
  the AST and \<open>added_types\<close>; the state survives an exception, because \<open>parseSchemas\<close> in
  \<open>Driver.cpp\<close> catches it and goes on with the next schema.
\<close>

section \<open>State and exceptions\<close>

record parse_state =
  ps_ast :: NormalizedAST
  added_types :: "string set"

type_synonym 'a parse = "parse_state \<Rightarrow> 'a result \<times> parse_state"

definition pbind :: "'a parse \<Rightarrow> ('a \<Rightarrow> 'b parse) \<Rightarrow> 'b parse" where
  "pbind m f st = (case m st of (Inl e, st') \<Rightarrow> (Inl e, st') | (Inr x, st') \<Rightarrow> f x st')"

definition plift :: "'a result \<Rightarrow> 'a parse" where "plift r st = (r, st)"
definition preturn :: "'a \<Rightarrow> 'a parse" where "preturn x st = (Inr x, st)"

lemma pbind_cong [fundef_cong]:
  assumes "m s = m' s'" and "\<And>x t. m' s' = (Inr x, t) \<Longrightarrow> f x t = f' x t"
  shows "pbind m f s = pbind m' f' s'"
  using assms by (auto simp: pbind_def split: prod.splits sum.splits)

section \<open>Sizes of the parts of a document\<close>

definition obj_size :: "obj \<Rightarrow> nat" where
  "obj_size ob = (case ob of None \<Rightarrow> 0 | Some m \<Rightarrow> size (J_Object m))"

definition list_size :: "json list \<Rightarrow> nat" where "list_size l = size (J_Array l)"
definition map_size :: "members \<Rightarrow> nat" where "map_size m = size (J_Object m)"

lemma size_simps [simp]:
  "list_size (v # l) = size v + list_size l + 1" "0 < list_size l"
  "size v < map_size ((k, v) # m)" "map_size m < map_size (p # m)" "0 < map_size m"
  by (simp_all add: list_size_def map_size_def)

lemma map_of_size: "map_of m k = Some v \<Longrightarrow> size v < map_size m"
proof (induction m)
  case (Cons p m)
  then show ?case
    by (cases p) (auto simp: map_size_def split: if_splits)
qed simp

lemma list_item_size: "list_item v = Inr ob \<Longrightarrow> obj_size ob = size v"
  by (auto simp: list_item_def obj_size_def split: json.splits)

lemma map_item_size: "obj_size (map_item v) \<le> size v"
  by (auto simp: map_item_def obj_size_def split: json.splits)

lemma get_list_size: "get_list ob k = Inr l \<Longrightarrow> l \<noteq> [] \<Longrightarrow> list_size l < obj_size ob"
  using map_of_size [of _ k "J_Array l"]
  by (auto simp: get_list_def rbind_Inr_iff at_key_def obj_size_def map_size_def list_size_def
      split: option.splits json.splits)

lemma get_map_size: "get_map ob k = Inr m \<Longrightarrow> m \<noteq> [] \<Longrightarrow> map_size m < obj_size ob"
  using map_of_size [of _ k "J_Object m"]
  by (auto simp: get_map_def rbind_Inr_iff at_key_def obj_size_def map_size_def
      split: option.splits json.splits)

lemma get_object_size: "get_object ob k = Inr ob' \<Longrightarrow> obj_size ob' < obj_size ob"
  using map_of_size [of _ k]
  by (fastforce simp: get_object_def rbind_Inr_iff at_key_def obj_size_def map_size_def
      split: option.splits json.splits)

section \<open>Parts without recursion\<close>

definition default_ref :: type_ref where "default_ref = TypeRef [] False"

definition extractTypeRef :: "obj \<Rightarrow> type_ref result" where
  "extractTypeRef schema = rbind (ref schema) (\<lambda>r.
     Inr (if r \<noteq> [] \<and> CHR ''/'' \<in> set r
          then TypeRef (sanitize (last (segs (CHR ''/'') r))) False else default_ref))"

definition parseIntegerFormat :: "string \<Rightarrow> IntegerFormat option" where
  "parseIntegerFormat format =
     (if format = ''int32'' then Some Int32 else if format = ''int64'' then Some Int64
      else if format = ''uint32'' then Some UInt32 else if format = ''uint64'' then Some UInt64 else None)"

definition parseNumberFormat :: "string \<Rightarrow> NumberFormat option" where
  "parseNumberFormat format =
     (if format = ''float'' then Some NF_Float else if format = ''double'' then Some NF_Double else None)"

definition parseStringFormat :: "string \<Rightarrow> StringFormat option" where
  "parseStringFormat format =
     (if format = ''date'' then Some SF_Date else if format = ''date-time'' then Some SF_DateTime
      else if format = ''email'' then Some SF_Email else if format = ''uuid'' then Some SF_UUID
      else if format = ''uri'' then Some SF_URI
      else if format = ''byte'' \<or> format = ''base64'' then Some SF_Base64 else None)"

definition cppTypeFromTypeRef :: "type_ref \<Rightarrow> string" where
  "cppTypeFromTypeRef r = (if tr_name r = [] then ''std::string'' else tr_name r)"

definition vector_of :: "type_ref \<Rightarrow> string" where
  "vector_of r = ''std::vector<'' @ cppTypeFromTypeRef r @ ''>''"

definition map_to :: "type_ref \<Rightarrow> string" where
  "map_to r = ''std::map<std::string, '' @ cppTypeFromTypeRef r @ ''>''"

definition plain_primitive :: "PrimitiveKind \<Rightarrow> string \<Rightarrow> PrimitiveType" where
  "plain_primitive kind desc = \<lparr>pt_kind = kind, int_format = None, num_format = None,
     str_format = None, enum_values = [], pt_description = desc\<rparr>"

definition string_enum :: "json \<Rightarrow> string list" where
  "string_enum v = (case v of J_String s \<Rightarrow> [s] | _ \<Rightarrow> [])"

definition integer_enum :: "json \<Rightarrow> string list" where
  "integer_enum v =
     (case v of
        J_Int i \<Rightarrow> if - (2 ^ 63) \<le> i \<and> i < 2 ^ 63 then [int_to_string i] else []
      | J_String s \<Rightarrow> [s]
      | _ \<Rightarrow> [])"

definition parsePrimitiveSchema :: "obj \<Rightarrow> PrimitiveType result" where
  "parsePrimitiveSchema schema =
     rbind (JsonSchema_Type schema) (\<lambda>type.
     rbind (JsonSchema_description schema) (\<lambda>desc.
       case type of
         T_string \<Rightarrow> rbind (JsonSchema_format schema) (\<lambda>format. rbind (schema_enum schema) (\<lambda>vals.
           Inr ((plain_primitive PK_String desc)\<lparr>str_format := parseStringFormat format,
             enum_values := concat (map string_enum vals)\<rparr>)))
       | T_integer \<Rightarrow> rbind (JsonSchema_format schema) (\<lambda>format. rbind (schema_enum schema) (\<lambda>vals.
           Inr ((plain_primitive PK_Integer desc)\<lparr>int_format := parseIntegerFormat format,
             enum_values := concat (map integer_enum vals)\<rparr>)))
       | T_number \<Rightarrow> rbind (JsonSchema_format schema) (\<lambda>format.
           Inr ((plain_primitive PK_Number desc)\<lparr>num_format := parseNumberFormat format\<rparr>))
       | T_boolean \<Rightarrow> Inr (plain_primitive PK_Boolean desc)
       | _ \<Rightarrow> Inr (plain_primitive PK_String [])))"

text \<open>\<open>if (added_types.find(n) == added_types.end()) \{ ast.addType(n, t); added_types.insert(n); \}\<close>
  with \<open>t.name = n\<close>.\<close>

definition add_inline_struct :: "string \<Rightarrow> StructType \<Rightarrow> parse_state \<Rightarrow> parse_state" where
  "add_inline_struct n t st =
     (if n \<notin> added_types st
      then st\<lparr>ps_ast := addType n (SStruct (t\<lparr>st_name := n\<rparr>)) (ps_ast st),
              added_types := insert n (added_types st)\<rparr>
      else st)"

definition prim_cpp :: "PrimitiveType \<Rightarrow> string" where
  "prim_cpp t = primitiveToCpp (pt_kind t) (int_format t) (num_format t)"

text \<open>The C++ type of an inline property of an \<open>object\<close> schema.\<close>

definition object_member_cpp :: "string \<Rightarrow> string \<Rightarrow> SchemaType \<Rightarrow> string parse" where
  "object_member_cpp name prop_name type st =
     (case type of
        SPrimitive t \<Rightarrow> (Inr (prim_cpp t), st)
      | SArray t \<Rightarrow> (Inr (vector_of (element_type t)), st)
      | SMap t \<Rightarrow> (Inr (map_to (value_type t)), st)
      | SStruct t \<Rightarrow> (let mangled = sanitize (name @ ''_'' @ prop_name)
                    in (Inr mangled, add_inline_struct mangled t st))
      | _ \<Rightarrow> (Inr ''std::string'', st))"

text \<open>The C++ type of an inline property of an implicit object: the same cases, in the order of the
  \<open>get_if\<close> chain.\<close>

definition implicit_member_cpp :: "string \<Rightarrow> string \<Rightarrow> SchemaType \<Rightarrow> string parse" where
  "implicit_member_cpp name prop_name type st =
     (case type of
        SStruct t \<Rightarrow> (let mangled = sanitize (name @ ''_'' @ prop_name)
                    in (Inr mangled, add_inline_struct mangled t st))
      | SPrimitive t \<Rightarrow> (Inr (prim_cpp t), st)
      | SArray t \<Rightarrow> (Inr (vector_of (element_type t)), st)
      | SMap t \<Rightarrow> (Inr (map_to (value_type t)), st)
      | _ \<Rightarrow> (Inr ''std::string'', st))"

text \<open>The name of an inline array element, and its C++ type.\<close>

definition array_elem_name :: "string \<Rightarrow> string parse" where
  "array_elem_name name st =
     (Inr (if name = [] then ''ArrayEntry_'' @ nat_to_string (getTypeCount (ps_ast st))
           else name @ ''_entry''), st)"

definition elem_cpp :: "string \<Rightarrow> SchemaType \<Rightarrow> string parse" where
  "elem_cpp elem_name type st =
     (case type of
        SPrimitive t \<Rightarrow> (Inr (prim_cpp t), st)
      | SStruct t \<Rightarrow> (let san = sanitize elem_name in (Inr san, add_inline_struct san t st))
      | _ \<Rightarrow> (Inr ''std::string'', st))"

text \<open>An inline base of an implicit object: only a struct becomes one.\<close>

definition add_base :: "SchemaType \<Rightarrow> type_ref list \<Rightarrow> type_ref list parse" where
  "add_base type bases st =
     (case type of
        SStruct t \<Rightarrow> (let mangled = sanitize (st_name t)
                    in (Inr (bases @ [TypeRef mangled False]), add_inline_struct mangled t st))
      | _ \<Rightarrow> (Inr bases, st))"

text \<open>An inline alternative: the alternatives of a nested variant are spliced in.\<close>

definition add_alternative :: "string \<Rightarrow> SchemaType \<Rightarrow> type_ref list \<Rightarrow> type_ref list parse" where
  "add_alternative name type alts st =
     (case type of
        SPrimitive t \<Rightarrow> (Inr (alts @ [TypeRef (prim_cpp t) True]), st)
      | SArray t \<Rightarrow> (Inr (alts @ [TypeRef (vector_of (element_type t)) True]), st)
      | SStruct t \<Rightarrow>
          (let san = sanitize (name @ ''_alt_'' @ nat_to_string (length alts))
           in (Inr (if san \<noteq> [] then alts @ [TypeRef san True] else alts), add_inline_struct san t st))
      | SVariant t \<Rightarrow> (Inr (alts @ alternatives t), st)
      | _ \<Rightarrow> (Inr (alts @ [TypeRef ''std::string'' True]), st))"

definition new_member :: "string \<Rightarrow> type_ref \<Rightarrow> string \<Rightarrow> Member" where
  "new_member prop_name type desc = \<lparr>mb_name = sanitize prop_name, mb_type = type,
     mb_required = False, default_value = None, mb_description = desc\<rparr>"

definition new_struct :: "string \<Rightarrow> Member list \<Rightarrow> type_ref list \<Rightarrow> string \<Rightarrow> StructType" where
  "new_struct name flds bases desc =
     \<lparr>st_name = name, st_fields = flds, allOf_bases = bases, st_description = desc\<rparr>"

definition new_variant :: "string \<Rightarrow> type_ref list \<Rightarrow> string \<Rightarrow> VariantType" where
  "new_variant name alts desc = \<lparr>vt_name = name, alternatives = alts, is_nullable = False,
     discriminator_property = None, vt_description = desc\<rparr>"

text \<open>The references among the bases of an \<open>object\<close> schema; inline bases are passed over.\<close>

fun object_bases :: "json list \<Rightarrow> type_ref list result" where
  "object_bases [] = Inr []"
| "object_bases (v # vs) =
     rbind (list_item v) (\<lambda>schema. rbind (IsRef schema) (\<lambda>isref.
       rbind (if isref then rmap (\<lambda>r. if tr_name r \<noteq> [] then [r] else []) (extractTypeRef schema) else Inr [])
         (\<lambda>r. rmap (\<lambda>rs. r @ rs) (object_bases vs))))"

section \<open>The parsers\<close>

function (sequential) parseSchema :: "obj \<Rightarrow> string \<Rightarrow> SchemaType parse"
  and parseObjectSchema :: "obj \<Rightarrow> string \<Rightarrow> SchemaType parse"
  and object_fields :: "members \<Rightarrow> string \<Rightarrow> Member list \<Rightarrow> Member list parse"
  and parseArraySchema :: "obj \<Rightarrow> string \<Rightarrow> SchemaType parse"
  and parseUnknownSchema :: "obj \<Rightarrow> string \<Rightarrow> SchemaType parse"
  and parseImplicitObject :: "obj \<Rightarrow> string \<Rightarrow> SchemaType parse"
  and implicit_bases :: "json list \<Rightarrow> string \<Rightarrow> type_ref list \<Rightarrow> type_ref list parse"
  and implicit_fields :: "members \<Rightarrow> string \<Rightarrow> Member list \<Rightarrow> Member list parse"
  and buildVariant :: "json list \<Rightarrow> string \<Rightarrow> string \<Rightarrow> SchemaType parse"
  and variant_alts :: "json list \<Rightarrow> string \<Rightarrow> type_ref list \<Rightarrow> type_ref list parse"
  where
  "parseSchema schema name st =
     pbind (plift (JsonSchema_Type schema)) (\<lambda>type st.
       case type of
         T_object \<Rightarrow> parseObjectSchema schema name st
       | T_array \<Rightarrow> parseArraySchema schema name st
       | T_unknown \<Rightarrow> parseUnknownSchema schema name st
       | T_null \<Rightarrow> plift (rmap (\<lambda>desc. SPrimitive (plain_primitive PK_String desc)) (JsonSchema_description schema)) st
       | _ \<Rightarrow> plift (rmap SPrimitive (parsePrimitiveSchema schema)) st) st"
| "parseObjectSchema schema name st =
     pbind (plift (JsonSchema_description schema)) (\<lambda>desc.
     pbind (plift (oneOf schema)) (\<lambda>one.
     pbind (plift (anyOf schema)) (\<lambda>any st.
       if one \<noteq> [] then buildVariant one name desc st
       else if any \<noteq> [] then buildVariant any name desc st
       else
         pbind (plift (rbind (allOf schema) object_bases)) (\<lambda>bases.
         pbind (plift (schema_properties schema)) (\<lambda>props.
         pbind (object_fields props name []) (\<lambda>flds.
           preturn (SStruct (new_struct name flds bases desc))))) st))) st"
| "object_fields [] name flds st = (Inr flds, st)"
| "object_fields ((prop_name, v) # props) name flds st =
     pbind (plift (JsonSchema_description (map_item v))) (\<lambda>desc.
     pbind (plift (IsRef (map_item v))) (\<lambda>isref.
     pbind (if isref then plift (extractTypeRef (map_item v))
            else pbind (parseSchema (map_item v) (name @ ''_'' @ prop_name)) (\<lambda>type.
                 pbind (object_member_cpp name prop_name type) (\<lambda>cpp_type.
                 preturn (TypeRef cpp_type True)))) (\<lambda>r.
       object_fields props name (flds @ [new_member prop_name r desc])))) st"
| "parseArraySchema schema name st =
     pbind (plift (JsonSchema_description schema)) (\<lambda>desc.
     pbind (plift (schema_items schema)) (\<lambda>items.
     pbind (plift (IsRef items)) (\<lambda>isref.
     pbind (if isref then plift (extractTypeRef items)
            else pbind (array_elem_name name) (\<lambda>elem_name.
                 pbind (parseSchema items elem_name) (\<lambda>type.
                 pbind (elem_cpp elem_name type) (\<lambda>cpp_type.
                 preturn (TypeRef cpp_type True))))) (\<lambda>r.
       preturn (SArray \<lparr>element_type = r, at_description = desc\<rparr>))))) st"
| "parseUnknownSchema schema name st =
     pbind (plift (JsonSchema_description schema)) (\<lambda>desc.
     pbind (plift (oneOf schema)) (\<lambda>one st.
       if one \<noteq> [] then buildVariant one name desc st
       else
         pbind (plift (anyOf schema)) (\<lambda>any st.
           if any \<noteq> [] then buildVariant any name desc st
           else
             pbind (plift (HasKey schema ''properties'')) (\<lambda>p.
             pbind (plift (HasKey schema ''allOf'')) (\<lambda>a.
             pbind (plift (HasKey schema ''additionalProperties'')) (\<lambda>d st.
               if p \<or> a \<or> d then parseImplicitObject schema name st
               else preturn (SPrimitive (plain_primitive PK_String desc)) st))) st) st)) st"
| "parseImplicitObject schema name st =
     pbind (plift (JsonSchema_description schema)) (\<lambda>desc.
     pbind (plift (allOf schema)) (\<lambda>bs.
     pbind (implicit_bases bs name []) (\<lambda>bases.
     pbind (plift (schema_properties schema)) (\<lambda>props.
     pbind (implicit_fields props name []) (\<lambda>flds.
       preturn (SStruct (new_struct name flds bases desc))))))) st"
| "implicit_bases [] name bases st = (Inr bases, st)"
| "implicit_bases (v # vs) name bases st =
     pbind (plift (list_item v)) (\<lambda>schema.
     pbind (plift (IsRef schema)) (\<lambda>isref.
     pbind (if isref then plift (rmap (\<lambda>r. if tr_name r \<noteq> [] then bases @ [r] else bases) (extractTypeRef schema))
            else pbind (parseSchema schema (name @ ''_base_'' @ nat_to_string (length bases))) (\<lambda>type.
                 add_base type bases)) (\<lambda>bases.
       implicit_bases vs name bases))) st"
| "implicit_fields [] name flds st = (Inr flds, st)"
| "implicit_fields ((prop_name, v) # props) name flds st =
     pbind (plift (JsonSchema_description (map_item v))) (\<lambda>desc.
     pbind (plift (IsRef (map_item v))) (\<lambda>isref.
     pbind (if isref then plift (extractTypeRef (map_item v))
            else pbind (parseSchema (map_item v) []) (\<lambda>type.
                 pbind (implicit_member_cpp name prop_name type) (\<lambda>cpp_type.
                 preturn (TypeRef cpp_type True)))) (\<lambda>r.
       implicit_fields props name (flds @ [new_member prop_name r desc])))) st"
| "buildVariant alts name desc st =
     pbind (variant_alts alts name []) (\<lambda>rs. preturn (SVariant (new_variant name rs desc))) st"
| "variant_alts [] name rs st = (Inr rs, st)"
| "variant_alts (v # vs) name rs st =
     pbind (plift (list_item v)) (\<lambda>alt.
     pbind (plift (extractTypeRef alt)) (\<lambda>r.
     pbind (if tr_name r \<noteq> [] then preturn (rs @ [r])
            else pbind (parseSchema alt (name @ ''_inline'')) (\<lambda>type. add_alternative name type rs)) (\<lambda>rs.
       variant_alts vs name rs))) st"
  by pat_completeness auto


text \<open>The recursion ends: every nested schema is a proper part of the document.\<close>

lemma plift_Inr [simp]: "plift r st = (Inr x, st') \<longleftrightarrow> r = Inr x \<and> st' = st"
  by (auto simp: plift_def)

definition parse_size ::
  "(((obj \<times> string \<times> parse_state) + (obj \<times> string \<times> parse_state)) +
     ((members \<times> string \<times> Member list \<times> parse_state) +
      ((obj \<times> string \<times> parse_state) + (obj \<times> string \<times> parse_state)))) +
    (((obj \<times> string \<times> parse_state) + (json list \<times> string \<times> type_ref list \<times> parse_state)) +
     ((members \<times> string \<times> Member list \<times> parse_state) +
      ((json list \<times> string \<times> string \<times> parse_state) +
       (json list \<times> string \<times> type_ref list \<times> parse_state)))) \<Rightarrow> nat" where
  "parse_size x =
     (case x of
        Inl (Inl (Inl (ob, _))) \<Rightarrow> 4 * obj_size ob + 3
      | Inl (Inl (Inr (ob, _))) \<Rightarrow> 4 * obj_size ob + 2
      | Inl (Inr (Inl (m, _))) \<Rightarrow> 4 * map_size m
      | Inl (Inr (Inr (Inl (ob, _)))) \<Rightarrow> 4 * obj_size ob + 2
      | Inl (Inr (Inr (Inr (ob, _)))) \<Rightarrow> 4 * obj_size ob + 2
      | Inr (Inl (Inl (ob, _))) \<Rightarrow> 4 * obj_size ob + 1
      | Inr (Inl (Inr (l, _))) \<Rightarrow> 4 * list_size l
      | Inr (Inr (Inl (m, _))) \<Rightarrow> 4 * map_size m
      | Inr (Inr (Inr (Inl (l, _)))) \<Rightarrow> 4 * list_size l + 1
      | Inr (Inr (Inr (Inr (l, _)))) \<Rightarrow> 4 * list_size l)"

lemma accessor_sizes:
  "oneOf ob = Inr l \<Longrightarrow> list_size l \<le> obj_size ob"
  "anyOf ob = Inr l \<Longrightarrow> list_size l \<le> obj_size ob"
  "allOf ob = Inr l \<Longrightarrow> list_size l \<le> obj_size ob"
  "schema_properties ob = Inr m \<Longrightarrow> map_size m \<le> obj_size ob"
  "schema_items ob = Inr ob' \<Longrightarrow> obj_size ob' < obj_size ob"
  using get_list_size [of ob _ l] get_map_size [of ob _ m] get_object_size [of ob _ ob']
  unfolding oneOf_def anyOf_def allOf_def schema_properties_def schema_items_def
  by (cases "l = []"; cases "m = []"; fastforce simp: get_list_def get_map_def at_key_def obj_size_def
      list_size_def map_size_def rbind_Inr_iff split: option.splits)+

lemma map_item_size_less:
  "4 * obj_size (map_item v) + 3 < 4 * map_size ((k, v) # m)"
  using map_item_size [of v] size_simps(3) [of v k m] by linarith

termination parseSchema
  by (relation "measure parse_size")
    (auto simp: parse_size_def map_item_size_less dest: accessor_sizes list_item_size)

section \<open>What the parsers keep\<close>

definition cpp_primitives :: "string set" where
  "cpp_primitives = {''std::string'', ''int32_t'', ''int64_t'', ''uint32_t'', ''uint64_t'', ''float'',
     ''double'', ''bool''}"

text \<open>An inline reference names a C++ type that exists: a primitive, an inline struct of the set \<open>A\<close>,
  or a vector of one of these or of a component that the document names with \<open>$ref\<close>.\<close>

definition base_ok :: "string set \<Rightarrow> string \<Rightarrow> bool" where
  "base_ok A n \<longleftrightarrow> n \<in> cpp_primitives \<or> n \<in> A"

definition elem_ok :: "string set \<Rightarrow> type_ref \<Rightarrow> bool" where
  "elem_ok A r \<longleftrightarrow> (is_inline r \<longrightarrow> base_ok A (tr_name r))"

definition ref_ok :: "string set \<Rightarrow> type_ref \<Rightarrow> bool" where
  "ref_ok A r \<longleftrightarrow> elem_ok A r \<or> (\<exists>e. elem_ok A e \<and> tr_name r = vector_of e)"

definition type_ok :: "string set \<Rightarrow> SchemaType \<Rightarrow> bool" where
  "type_ok A type =
     (case type of
        SStruct t \<Rightarrow> (\<forall>f \<in> set (st_fields t). ref_ok A (mb_type f))
          \<and> (\<forall>b \<in> set (allOf_bases t). \<not> is_inline b)
      | SVariant t \<Rightarrow> \<forall>a \<in> set (alternatives t). ref_ok A a
      | SArray t \<Rightarrow> elem_ok A (element_type t)
      | SPrimitive t \<Rightarrow> pt_kind t \<noteq> PK_Null
      | SMap t \<Rightarrow> False
      | SEnum t \<Rightarrow> False)"

definition parse_inv :: "parse_state \<Rightarrow> bool" where
  "parse_inv st \<longleftrightarrow> wf_ast (ps_ast st) \<and> (\<forall>n \<in> added_types st. hasType (ps_ast st) n)
     \<and> (\<forall>n type. getType (ps_ast st) n = Some type \<longrightarrow>
          type_ok (added_types st) type \<and> own_name n type \<and> n \<in> range sanitize)"

text \<open>A parser only adds: it keeps the added names, and the types of all names it did not add.\<close>

definition extends :: "parse_state \<Rightarrow> parse_state \<Rightarrow> bool" where
  "extends st st' \<longleftrightarrow> added_types st \<subseteq> added_types st'
     \<and> ast_paths (ps_ast st') = ast_paths (ps_ast st)
     \<and> (\<forall>n. n \<in> added_types st \<or> n \<notin> added_types st' \<longrightarrow>
          getType (ps_ast st') n = getType (ps_ast st) n)"

lemma extends_refl [simp]: "extends st st"
  by (simp add: extends_def)

lemma extends_trans: "extends st st' \<Longrightarrow> extends st' st'' \<Longrightarrow> extends st st''"
  by (auto simp: extends_def)

lemma base_ok_mono: "base_ok A n \<Longrightarrow> A \<subseteq> B \<Longrightarrow> base_ok B n"
  by (auto simp: base_ok_def)

lemma elem_ok_mono: "elem_ok A r \<Longrightarrow> A \<subseteq> B \<Longrightarrow> elem_ok B r"
  by (auto simp: elem_ok_def intro: base_ok_mono)

lemma ref_ok_mono: "ref_ok A r \<Longrightarrow> A \<subseteq> B \<Longrightarrow> ref_ok B r"
  by (auto simp: ref_ok_def intro: elem_ok_mono)

lemma type_ok_mono: "type_ok A t \<Longrightarrow> A \<subseteq> B \<Longrightarrow> type_ok B t"
  by (auto simp: type_ok_def intro: ref_ok_mono elem_ok_mono split: SchemaType.splits)

lemma prim_cpp_primitive: "pt_kind t \<noteq> PK_Null \<Longrightarrow> prim_cpp t \<in> cpp_primitives"
  by (auto simp: prim_cpp_def primitiveToCpp_def cpp_primitives_def split: PrimitiveKind.splits)

lemma add_inline_struct_spec:
  assumes "parse_inv st" and "type_ok (added_types st) (SStruct t)"
  shows "parse_inv (add_inline_struct (sanitize s) t st)" and "extends st (add_inline_struct (sanitize s) t st)"
    and "sanitize s \<in> added_types (add_inline_struct (sanitize s) t st)"
proof -
  let ?n = "sanitize s"
  have "type_ok (insert ?n (added_types st)) type" if "type_ok (added_types st) type" for type
    using that by (rule type_ok_mono) auto
  moreover have "type_ok (added_types st) (SStruct (t\<lparr>st_name := ?n\<rparr>))"
    using assms(2) by (simp add: type_ok_def)
  ultimately show "parse_inv (add_inline_struct ?n t st)"
    using assms(1) by (auto simp: parse_inv_def add_inline_struct_def own_name_def split: if_splits)
  show "extends st (add_inline_struct ?n t st)" "?n \<in> added_types (add_inline_struct ?n t st)"
    by (auto simp: extends_def add_inline_struct_def) (simp add: addType_def)
qed

subsection \<open>Rules for the parsers\<close>

text \<open>\<open>good Q m st\<close>: from a good state the parser \<open>m\<close> ends in a good state that extends it, whether
  it returns or fails, and a result satisfies \<open>Q\<close> for the names added by then.\<close>

definition good :: "(string set \<Rightarrow> 'a \<Rightarrow> bool) \<Rightarrow> 'a parse \<Rightarrow> parse_state \<Rightarrow> bool" where
  "good Q m st \<longleftrightarrow> (parse_inv st \<longrightarrow> parse_inv (snd (m st)) \<and> extends st (snd (m st))
     \<and> (\<forall>x. fst (m st) = Inr x \<longrightarrow> Q (added_types (snd (m st))) x))"

lemma good_bind:
  assumes m: "good Q m st"
    and f: "\<And>x st'. m st = (Inr x, st') \<Longrightarrow> Q (added_types st') x \<Longrightarrow>
      added_types st \<subseteq> added_types st' \<Longrightarrow> good R (f x) st'"
  shows "good R (pbind m f) st"
proof (cases "m st")
  case (Pair r st')
  show ?thesis
  proof (cases r)
    case (Inl e)
    with m Pair show ?thesis by (auto simp: good_def pbind_def)
  next
    case (Inr x)
    show ?thesis
      unfolding good_def
    proof (intro impI)
      assume inv: "parse_inv st"
      with m Pair Inr have s: "parse_inv st'" "extends st st'" "Q (added_types st') x"
        by (auto simp: good_def)
      with f [of x st'] Pair Inr have "good R (f x) st'"
        by (auto simp: extends_def)
      with s show "parse_inv (snd (pbind m f st)) \<and> extends st (snd (pbind m f st))
          \<and> (\<forall>y. fst (pbind m f st) = Inr y \<longrightarrow> R (added_types (snd (pbind m f st))) y)"
        using Pair Inr by (auto simp: good_def pbind_def intro: extends_trans)
    qed
  qed
qed

lemma good_plift: "(\<And>x. r = Inr x \<Longrightarrow> Q (added_types st) x) \<Longrightarrow> good Q (plift r) st"
  by (simp add: good_def plift_def)

lemma good_read: "(\<And>x. r = Inr x \<Longrightarrow> good R (f x) st) \<Longrightarrow> good R (pbind (plift r) f) st"
  by (rule good_bind [where Q = "\<lambda>_ x. r = Inr x"]) (auto intro: good_plift)

lemma good_preturn: "Q (added_types st) x \<Longrightarrow> good Q (preturn x) st"
  by (simp add: good_def preturn_def)

lemma good_pure: "(parse_inv st \<Longrightarrow> Q (added_types st) x) \<Longrightarrow> good Q (\<lambda>st. (Inr x, st)) st"
  by (simp add: good_def)

lemma good_add:
  assumes "type_ok (added_types st) (SStruct t)"
    and "\<And>A. added_types st \<subseteq> A \<Longrightarrow> sanitize s \<in> A \<Longrightarrow> Q A x"
  shows "good Q (\<lambda>st. (Inr x, add_inline_struct (sanitize s) t st)) st"
  using assms add_inline_struct_spec [of st t s] by (auto simp: good_def extends_def)

lemma good_eta: "good Q m st \<Longrightarrow> m st = m' st \<Longrightarrow> good Q m' st"
  by (simp add: good_def)

lemma good_cong: "m st = m' st \<Longrightarrow> good Q m st \<longleftrightarrow> good Q m' st"
  by (simp add: good_def)

lemma good_if:
  "(c \<Longrightarrow> good Q m st) \<Longrightarrow> (\<not> c \<Longrightarrow> good Q m' st) \<Longrightarrow> good Q (\<lambda>st. if c then m st else m' st) st"
  "(c \<Longrightarrow> good Q m st) \<Longrightarrow> (\<not> c \<Longrightarrow> good Q m' st) \<Longrightarrow> good Q (if c then m else m') st"
  by (cases c; simp)+

lemma type_ok_simps [simp]:
  "type_ok A (SPrimitive p) \<longleftrightarrow> pt_kind p \<noteq> PK_Null"
  "type_ok A (SArray a) \<longleftrightarrow> elem_ok A (element_type a)"
  "type_ok A (SVariant v) \<longleftrightarrow> (\<forall>r \<in> set (alternatives v). ref_ok A r)"
  "type_ok A (SMap m) \<longleftrightarrow> False" "type_ok A (SEnum e) \<longleftrightarrow> False"
  "type_ok A (SStruct (new_struct name flds bases desc)) \<longleftrightarrow>
     (\<forall>f \<in> set flds. ref_ok A (mb_type f)) \<and> (\<forall>b \<in> set bases. \<not> is_inline b)"
  by (simp_all add: type_ok_def new_struct_def)

lemma string_primitive: "''std::string'' \<in> cpp_primitives"
  by (simp add: cpp_primitives_def)

lemma ref_ok_inline:
  "n \<in> cpp_primitives \<Longrightarrow> ref_ok A (TypeRef n True)" "n \<in> A \<Longrightarrow> ref_ok A (TypeRef n True)"
  "elem_ok A e \<Longrightarrow> ref_ok A (TypeRef (vector_of e) True)" "ref_ok A (TypeRef n False)"
  by (auto simp: ref_ok_def elem_ok_def base_ok_def)

lemmas inline_facts = good_def Let_def ref_ok_inline base_ok_def prim_cpp_primitive string_primitive
  add_inline_struct_spec

lemma good_object_member:
  "type_ok (added_types st) type \<Longrightarrow> good (\<lambda>A n. ref_ok A (TypeRef n True)) (object_member_cpp name prop type) st"
  by (cases type) (auto simp: object_member_cpp_def inline_facts)

lemma good_implicit_member:
  "type_ok (added_types st) type \<Longrightarrow> good (\<lambda>A n. ref_ok A (TypeRef n True)) (implicit_member_cpp name prop type) st"
  by (cases type) (auto simp: implicit_member_cpp_def inline_facts)

lemma good_elem:
  "type_ok (added_types st) type \<Longrightarrow> good (\<lambda>A n. base_ok A n) (elem_cpp name type) st"
  by (cases type) (auto simp: elem_cpp_def inline_facts)

lemma good_add_base:
  "type_ok (added_types st) type \<Longrightarrow> \<forall>b \<in> set bases. \<not> is_inline b \<Longrightarrow>
   good (\<lambda>A bs. \<forall>b \<in> set bs. \<not> is_inline b) (add_base type bases) st"
  by (cases type) (auto simp: add_base_def inline_facts)

lemma good_add_alternative:
  assumes "type_ok (added_types st) type" and "\<forall>r \<in> set rs. ref_ok (added_types st) r"
  shows "good (\<lambda>A rs. \<forall>r \<in> set rs. ref_ok A r) (add_alternative name type rs) st"
proof (cases type)
  case (SStruct t)
  let ?n = "sanitize (name @ ''_alt_'' @ nat_to_string (length rs))"
  have "extends st (add_inline_struct ?n t st)" if "parse_inv st"
    using add_inline_struct_spec(2) that assms(1) SStruct by blast
  then show ?thesis
    using SStruct assms ref_ok_mono by (fastforce simp: add_alternative_def inline_facts extends_def)
qed (use assms in \<open>auto simp: add_alternative_def inline_facts\<close>)

lemma extractTypeRef_not_inline: "extractTypeRef schema = Inr r \<Longrightarrow> \<not> is_inline r"
  by (auto simp: extractTypeRef_def rbind_Inr_iff default_ref_def split: if_splits)

lemma ref_ok_extractTypeRef: "extractTypeRef schema = Inr r \<Longrightarrow> ref_ok A r"
  using extractTypeRef_not_inline by (auto simp: ref_ok_def elem_ok_def)

lemma object_bases_not_inline: "object_bases vs = Inr rs \<Longrightarrow> b \<in> set rs \<Longrightarrow> \<not> is_inline b"
  by (induction vs arbitrary: rs)
    (auto simp: rbind_Inr_iff rmap_def split: if_splits dest: extractTypeRef_not_inline)

lemma parsePrimitiveSchema_ok: "parsePrimitiveSchema schema = Inr p \<Longrightarrow> pt_kind p \<noteq> PK_Null"
  by (auto simp: parsePrimitiveSchema_def rbind_Inr_iff plain_primitive_def split: SchemaKind.splits)
    (metis SchemaKind.exhaust)

lemma mb_type_new_member [simp]: "mb_type (new_member n r d) = r"
  by (simp add: new_member_def)

declare parseSchema.simps [simp del] parseObjectSchema.simps [simp del] parseArraySchema.simps [simp del]
  parseUnknownSchema.simps [simp del] parseImplicitObject.simps [simp del] buildVariant.simps [simp del]
  object_fields.simps(2) [simp del] implicit_fields.simps(2) [simp del]
  implicit_bases.simps(2) [simp del] variant_alts.simps(2) [simp del]

lemma plift_I: "r = Inr x \<Longrightarrow> plift r st = (Inr x, st)"
  by simp

text \<open>All the parsers keep the invariant, whatever the document, and so does a failing one.\<close>

lemma parsers_good:
  "good type_ok (parseSchema schema name) st"
  "good type_ok (parseObjectSchema schema name) st"
  "\<forall>f \<in> set flds. ref_ok (added_types st) (mb_type f) \<Longrightarrow>
    good (\<lambda>A fs. \<forall>f \<in> set fs. ref_ok A (mb_type f)) (object_fields props name flds) st"
  "good type_ok (parseArraySchema schema name) st"
  "good type_ok (parseUnknownSchema schema name) st"
  "good type_ok (parseImplicitObject schema name) st"
  "\<forall>b \<in> set bases. \<not> is_inline b \<Longrightarrow>
    good (\<lambda>A rs. \<forall>b \<in> set rs. \<not> is_inline b) (implicit_bases vs name bases) st"
  "\<forall>f \<in> set flds. ref_ok (added_types st) (mb_type f) \<Longrightarrow>
    good (\<lambda>A fs. \<forall>f \<in> set fs. ref_ok A (mb_type f)) (implicit_fields props name flds) st"
  "good type_ok (buildVariant vs name desc) st"
  "\<forall>r \<in> set rs. ref_ok (added_types st) r \<Longrightarrow>
    good (\<lambda>A rs. \<forall>r \<in> set rs. ref_ok A r) (variant_alts vs name rs) st"
proof (induction schema name st and schema name st and props name flds st and schema name st
    and schema name st and schema name st and vs name bases st and props name flds st
    and vs name desc st and vs name rs st
    rule: parseSchema_parseObjectSchema_object_fields_parseArraySchema_parseUnknownSchema_parseImplicitObject_implicit_bases_implicit_fields_buildVariant_variant_alts.induct)
  case (1 schema name st)
  show ?case
    apply (subst good_cong, rule parseSchema.simps)
    apply (rule good_read)
    subgoal for x using 1 [of x st]
      by (cases x) (auto intro!: good_plift simp: parsePrimitiveSchema_ok
          plain_primitive_def rmap_Inr_iff)
    done
next
  case (2 schema name st)
  show ?case
    apply (subst good_cong, rule parseObjectSchema.simps)
    apply (rule good_read)+
    apply (intro good_if)
      apply (rule "2.IH"(1); simp)
     apply (rule "2.IH"(2); simp)
    apply (rule good_read)+
    apply (rule good_bind)
     apply (rule "2.IH"(3); simp)
    apply (auto intro!: good_preturn dest: object_bases_not_inline simp: rbind_Inr_iff)
    done
next
  case (3 name flds st)
  then show ?case by (simp add: good_def)
next
  case (4 prop_name v props name flds st)
  show ?case
    apply (subst good_cong, rule object_fields.simps)
    apply (rule good_read)+
    apply (rule good_bind [where Q = ref_ok])
     apply (intro good_if good_plift ref_ok_extractTypeRef, assumption)
     apply (rule good_bind, (rule "4.IH"(1) [OF plift_I plift_I]; assumption))
     apply (rule good_bind, rule good_object_member, assumption)
     apply (rule good_preturn, assumption)
    apply (rule "4.IH"(2); simp)
    using "4.prems" by (auto intro: ref_ok_mono)
next
  case (5 schema name st)
  show ?case
    apply (subst good_cong, rule parseArraySchema.simps)
    apply (rule good_read)+
    apply (rule good_bind [where Q = elem_ok])
     apply (intro good_if good_plift)
      apply (auto dest: extractTypeRef_not_inline simp: elem_ok_def)[1]
     apply (rule good_bind [where Q = "\<lambda>_ _. True"], simp add: good_def array_elem_name_def)
     apply (rule good_bind, (rule "5.IH"(1) [OF plift_I plift_I plift_I]; assumption))
     apply (rule good_bind, rule good_elem, assumption)
     apply (rule good_preturn, simp add: elem_ok_def)
    apply (rule good_preturn, simp)
    done
next
  case (6 schema name st)
  show ?case
    apply (subst good_cong, rule parseUnknownSchema.simps)
    apply (rule good_read)+
    apply (intro good_if)
     apply (rule "6.IH"(1); simp)
    apply (rule good_read)
    apply (intro good_if)
     apply (rule "6.IH"(2); simp)
    apply (rule good_read)+
    apply (intro good_if)
     apply (rule "6.IH"(3); simp)
    apply (rule good_preturn, simp add: plain_primitive_def)
    done
next
  case (7 schema name st)
  show ?case
    apply (subst good_cong, rule parseImplicitObject.simps)
    apply (rule good_read)+
    apply (rule good_bind, (rule "7.IH"(1); simp))
    apply (rule good_read)
    apply (rule good_bind, (rule "7.IH"(2); simp))
    apply (rule good_preturn, simp)
    done
next
  case (8 name bases st)
  then show ?case by (simp add: good_def)
next
  case (9 v vs name bases st)
  show ?case
    apply (subst good_cong, rule implicit_bases.simps)
    apply (rule good_read)+
    apply (rule good_bind [where Q = "\<lambda>A rs. \<forall>b \<in> set rs. \<not> is_inline b"])
     apply (intro good_if good_plift)
    using "9.prems" apply (auto dest: extractTypeRef_not_inline simp: rmap_Inr_iff split: if_splits)[1]
     apply (rule good_bind, (rule "9.IH"(1) [OF plift_I plift_I]; assumption))
     apply (rule good_add_base, assumption, rule "9.prems")
    apply (rule "9.IH"(2); simp)
    done
next
  case (10 name flds st)
  then show ?case by (simp add: good_def)
next
  case (11 prop_name v props name flds st)
  show ?case
    apply (subst good_cong, rule implicit_fields.simps)
    apply (rule good_read)+
    apply (rule good_bind [where Q = ref_ok])
     apply (intro good_if good_plift ref_ok_extractTypeRef, assumption)
     apply (rule good_bind, (rule "11.IH"(1) [OF plift_I plift_I]; assumption))
     apply (rule good_bind, rule good_implicit_member, assumption)
     apply (rule good_preturn, assumption)
    apply (rule "11.IH"(2); simp)
    using "11.prems" by (auto intro: ref_ok_mono)
next
  case (12 vs name desc st)
  show ?case
    apply (subst good_cong, rule buildVariant.simps)
    apply (rule good_bind, (rule "12.IH"; simp))
    apply (rule good_preturn, simp add: new_variant_def)
    done
next
  case (13 name rs st)
  then show ?case by (simp add: good_def)
next
  case (14 v vs name rs st)
  show ?case
    apply (subst good_cong, rule variant_alts.simps)
    apply (rule good_read)+
    apply (rule good_bind [where Q = "\<lambda>A rs. \<forall>r \<in> set rs. ref_ok A r"])
     apply (intro good_if good_preturn)
    using "14.prems" apply (auto intro: ref_ok_extractTypeRef)[1]
     apply (rule good_bind, (rule "14.IH"(1); simp))
     apply (rule good_add_alternative, assumption)
    using "14.prems" apply (auto intro: ref_ok_mono)[1]
    apply (rule "14.IH"(2); simp)
    done
qed

text \<open>The returned type has the name the parser was called with.\<close>

lemma pbind_Inr: "fst (pbind m f st) = Inr y \<Longrightarrow> \<exists>x st'. m st = (Inr x, st') \<and> fst (f x st') = Inr y"
  by (auto simp: pbind_def split: prod.splits sum.splits)

lemma parseSchema_own_name:
  assumes "fst (parseSchema schema name st) = Inr type"
  shows "own_name name type"
proof -
  have n [simp]: "own_name name (SStruct (new_struct name flds bases desc))" "own_name name (SPrimitive p)"
    "own_name name (SVariant (new_variant name rs desc))" "own_name name (SArray a)" for flds bases desc p rs a
    by (simp_all add: own_name_def new_struct_def new_variant_def)
  have v: "own_name name t" if "fst (buildVariant vs name desc st) = Inr t" for vs desc st t
    using that by (auto simp: buildVariant.simps preturn_def dest!: pbind_Inr)
  have i: "own_name name t" if "fst (parseImplicitObject schema name st) = Inr t" for st t
    using that by (auto simp: parseImplicitObject.simps preturn_def dest!: pbind_Inr)
  have o: "own_name name t" if "fst (parseObjectSchema schema name st) = Inr t" for st t
    using that by (auto simp: parseObjectSchema.simps preturn_def split: if_splits dest!: pbind_Inr)
      (rule v, assumption)+
  have u: "own_name name t" if "fst (parseUnknownSchema schema name st) = Inr t" for st t
    using that by (auto simp: parseUnknownSchema.simps preturn_def split: if_splits dest!: pbind_Inr)
      (rule v i, assumption)+
  have a: "own_name name t" if "fst (parseArraySchema schema name st) = Inr t" for st t
    using that by (auto simp: parseArraySchema.simps preturn_def dest!: pbind_Inr)
  from assms show ?thesis
    by (auto simp: parseSchema.simps plift_def rmap_Inr_iff split: SchemaKind.splits dest!: pbind_Inr)
      (rule o u a, assumption)+
qed

section \<open>Documents that are parsed without error\<close>

text \<open>The shape the parsers expect of a schema: a \<open>type\<close> that is a string or a list starting with
  one, lists of schemas under \<open>oneOf\<close>, \<open>anyOf\<close> and \<open>allOf\<close>, an object of schemas under
  \<open>properties\<close>, a list under \<open>enum\<close>, a schema under \<open>items\<close>, which an array has.\<close>

definition type_shape :: "members \<Rightarrow> bool" where
  "type_shape m = (case map_of m ''type'' of
     Some (J_Array l) \<Rightarrow> (case l of J_String s # _ \<Rightarrow> True | _ \<Rightarrow> False) | _ \<Rightarrow> True)"

inductive schema_shape :: "json \<Rightarrow> bool" where
  "type_shape m \<Longrightarrow>
   (\<And>k v. k \<in> {''oneOf'', ''anyOf'', ''allOf''} \<Longrightarrow> map_of m k = Some v \<Longrightarrow>
      \<exists>l. v = J_Array l \<and> (\<forall>x \<in> set l. schema_shape x)) \<Longrightarrow>
   (\<And>v. map_of m ''properties'' = Some v \<Longrightarrow>
      \<exists>ps. v = J_Object ps \<and> (\<forall>p \<in> set ps. schema_shape (snd p))) \<Longrightarrow>
   (\<And>v. map_of m ''enum'' = Some v \<Longrightarrow> \<exists>l. v = J_Array l) \<Longrightarrow>
   (\<And>v. map_of m ''items'' = Some v \<Longrightarrow> schema_shape v) \<Longrightarrow>
   (JsonSchema_Type (Some m) = Inr T_array \<Longrightarrow> map_of m ''items'' \<noteq> None) \<Longrightarrow>
   schema_shape (J_Object m)"

definition shape_obj :: "obj \<Rightarrow> bool" where
  "shape_obj ob \<longleftrightarrow> (\<exists>m. ob = Some m \<and> schema_shape (J_Object m))"

lemma schema_shape_object: "schema_shape v \<Longrightarrow> \<exists>m. v = J_Object m"
  by (erule schema_shape.cases) blast

lemma shape_map_item: "schema_shape v \<Longrightarrow> shape_obj (map_item v)"
  using schema_shape_object [of v] by (auto simp: shape_obj_def map_item_def)

lemma shape_list_item: "schema_shape v \<Longrightarrow> \<exists>ob. list_item v = Inr ob \<and> shape_obj ob"
  using schema_shape_object [of v] by (auto simp: shape_obj_def list_item_def)

lemma schema_shapeD:
  assumes "schema_shape (J_Object m)"
  shows "type_shape m"
    and "k \<in> {''oneOf'', ''anyOf'', ''allOf''} \<Longrightarrow> map_of m k = Some v \<Longrightarrow>
      \<exists>l. v = J_Array l \<and> (\<forall>x \<in> set l. schema_shape x)"
    and "map_of m ''properties'' = Some v \<Longrightarrow>
      \<exists>ps. v = J_Object ps \<and> (\<forall>p \<in> set ps. schema_shape (snd p))"
    and "map_of m ''enum'' = Some v \<Longrightarrow> \<exists>l. v = J_Array l"
    and "map_of m ''items'' = Some v \<Longrightarrow> schema_shape v"
    and "JsonSchema_Type (Some m) = Inr T_array \<Longrightarrow> map_of m ''items'' \<noteq> None"
  by (rule schema_shape.cases [OF assms]; simp)+

lemma shape_accessors:
  assumes "shape_obj ob"
  shows "\<exists>s. ref ob = Inr s" "\<exists>s. JsonSchema_description ob = Inr s" "\<exists>s. JsonSchema_format ob = Inr s"
    "\<exists>b. IsRef ob = Inr b" "\<exists>b. HasKey ob k = Inr b" "\<exists>r. extractTypeRef ob = Inr r"
    "\<exists>t. JsonSchema_Type ob = Inr t"
    "\<exists>l. oneOf ob = Inr l \<and> (\<forall>x \<in> set l. schema_shape x)"
    "\<exists>l. anyOf ob = Inr l \<and> (\<forall>x \<in> set l. schema_shape x)"
    "\<exists>l. allOf ob = Inr l \<and> (\<forall>x \<in> set l. schema_shape x)"
    "\<exists>ps. schema_properties ob = Inr ps \<and> (\<forall>p \<in> set ps. schema_shape (snd p))"
    "\<exists>l. schema_enum ob = Inr l"
    "JsonSchema_Type ob = Inr T_array \<Longrightarrow> \<exists>o'. schema_items ob = Inr o' \<and> shape_obj o'"
proof -
  obtain m where ob: "ob = Some m" and shape: "schema_shape (J_Object m)"
    using assms by (auto simp: shape_obj_def)
  note d = schema_shapeD [OF shape]
  show "\<exists>s. ref ob = Inr s" "\<exists>s. JsonSchema_description ob = Inr s" "\<exists>s. JsonSchema_format ob = Inr s"
    "\<exists>b. IsRef ob = Inr b" "\<exists>b. HasKey ob k = Inr b" "\<exists>r. extractTypeRef ob = Inr r"
    by (simp_all add: ob ref_def JsonSchema_description_def JsonSchema_format_def IsRef_def
        extractTypeRef_def accessor_defs)
  have lists: "\<exists>l. get_list ob k = Inr l \<and> (\<forall>x \<in> set l. schema_shape x)"
    if "k \<in> {''oneOf'', ''anyOf'', ''allOf''}" for k
    using d(2) [OF that] by (cases "map_of m k") (auto simp: ob get_list_def)
  show "\<exists>l. oneOf ob = Inr l \<and> (\<forall>x \<in> set l. schema_shape x)"
    "\<exists>l. anyOf ob = Inr l \<and> (\<forall>x \<in> set l. schema_shape x)"
    "\<exists>l. allOf ob = Inr l \<and> (\<forall>x \<in> set l. schema_shape x)"
    unfolding oneOf_def anyOf_def allOf_def by (rule lists; simp)+
  show "\<exists>t. JsonSchema_Type ob = Inr t"
    using d(1) by (auto simp: ob JsonSchema_Type_def JsonSchema_type_def type_shape_def
        split: option.splits json.splits list.splits)
  show "\<exists>ps. schema_properties ob = Inr ps \<and> (\<forall>p \<in> set ps. schema_shape (snd p))"
    using d(3) by (cases "map_of m ''properties''") (auto simp: ob schema_properties_def get_map_def)
  show "\<exists>l. schema_enum ob = Inr l"
    using d(4) by (cases "map_of m ''enum''") (auto simp: ob schema_enum_def get_list_def)
  show "\<exists>o'. schema_items ob = Inr o' \<and> shape_obj o'" if "JsonSchema_Type ob = Inr T_array"
  proof -
    have "map_of m ''items'' \<noteq> None" using that unfolding ob by (rule d(6))
    then obtain v where v: "map_of m ''items'' = Some v" by blast
    with schema_shape_object [OF d(5) [OF v]] d(5) [OF v] show ?thesis
      by (auto simp: ob schema_items_def get_object_def shape_obj_def)
  qed
qed

definition returns :: "'a parse \<Rightarrow> parse_state \<Rightarrow> bool" where
  "returns m st \<longleftrightarrow> (\<exists>x st'. m st = (Inr x, st'))"

lemma returns_bind: "returns m st \<Longrightarrow> (\<And>x st'. m st = (Inr x, st') \<Longrightarrow> returns (f x) st') \<Longrightarrow> returns (pbind m f) st"
  by (auto simp: returns_def pbind_def)

lemma returns_plift: "\<exists>x. r = Inr x \<Longrightarrow> returns (plift r) st"
  by (auto simp: returns_def plift_def)

lemma returns_read:
  "\<exists>x. r = Inr x \<and> P x \<Longrightarrow> (\<And>x. r = Inr x \<Longrightarrow> P x \<Longrightarrow> returns (f x) st) \<Longrightarrow> returns (pbind (plift r) f) st"
  by (rule returns_bind) (auto intro: returns_plift)

lemma returns_cong: "m st = m' st \<Longrightarrow> returns m st \<longleftrightarrow> returns m' st"
  by (simp add: returns_def)

lemma returns_if:
  "(c \<Longrightarrow> returns m st) \<Longrightarrow> (\<not> c \<Longrightarrow> returns m' st) \<Longrightarrow> returns (\<lambda>st. if c then m st else m' st) st"
  "(c \<Longrightarrow> returns m st) \<Longrightarrow> (\<not> c \<Longrightarrow> returns m' st) \<Longrightarrow> returns (if c then m else m') st"
  by (cases c; simp)+

lemma returns_pure [simp]:
  "returns (preturn x) st" "returns (object_member_cpp name prop type) st"
  "returns (implicit_member_cpp name prop type) st" "returns (elem_cpp name type) st"
  "returns (add_base type bases) st" "returns (add_alternative name type rs) st"
  "returns (array_elem_name name) st"
  by (auto simp: returns_def preturn_def object_member_cpp_def implicit_member_cpp_def elem_cpp_def
      add_base_def add_alternative_def array_elem_name_def Let_def split: SchemaType.splits)

lemma parsePrimitiveSchema_returns: "shape_obj ob \<Longrightarrow> \<exists>p. parsePrimitiveSchema ob = Inr p"
  using shape_accessors(2,3,7,12) [of ob]
  by (auto simp: parsePrimitiveSchema_def split: SchemaKind.splits)

lemma object_bases_returns: "\<forall>x \<in> set vs. schema_shape x \<Longrightarrow> \<exists>rs. object_bases vs = Inr rs"
proof (induction vs)
  case (Cons v vs)
  then obtain ob where "list_item v = Inr ob" "shape_obj ob"
    using shape_list_item [of v] by auto
  with shape_accessors(4,6) [of ob] Cons show ?case by (auto simp: rmap_def)
qed simp

lemma parsers_return:
  "shape_obj schema \<Longrightarrow> returns (parseSchema schema name) st"
  "shape_obj schema \<Longrightarrow> returns (parseObjectSchema schema name) st"
  "\<forall>p \<in> set props. schema_shape (snd p) \<Longrightarrow> returns (object_fields props name flds) st"
  "shape_obj schema \<Longrightarrow> JsonSchema_Type schema = Inr T_array \<Longrightarrow> returns (parseArraySchema schema name) st"
  "shape_obj schema \<Longrightarrow> returns (parseUnknownSchema schema name) st"
  "shape_obj schema \<Longrightarrow> returns (parseImplicitObject schema name) st"
  "\<forall>x \<in> set vs. schema_shape x \<Longrightarrow> returns (implicit_bases vs name bases) st"
  "\<forall>p \<in> set props. schema_shape (snd p) \<Longrightarrow> returns (implicit_fields props name flds) st"
  "\<forall>x \<in> set vs. schema_shape x \<Longrightarrow> returns (buildVariant vs name desc) st"
  "\<forall>x \<in> set vs. schema_shape x \<Longrightarrow> returns (variant_alts vs name rs) st"
proof (induction schema name st and schema name st and props name flds st and schema name st
    and schema name st and schema name st and vs name bases st and props name flds st
    and vs name desc st and vs name rs st
    rule: parseSchema_parseObjectSchema_object_fields_parseArraySchema_parseUnknownSchema_parseImplicitObject_implicit_bases_implicit_fields_buildVariant_variant_alts.induct)
  case (1 schema name st)
  show ?case
    apply (subst returns_cong, rule parseSchema.simps)
    apply (rule returns_read [where P = "\<lambda>_. True"], simp add: shape_accessors "1.prems")
    subgoal for x using "1.IH" [of x st] "1.prems" parsePrimitiveSchema_returns [OF "1.prems"] shape_accessors(2) [OF "1.prems"]
      by (cases x) (auto intro!: returns_plift simp: rmap_Inr_iff)
    done
next
  case (2 schema name st)
  note a = shape_accessors [OF "2.prems"]
  show ?case
    apply (subst returns_cong, rule parseObjectSchema.simps)
    apply (rule returns_read [where P = "\<lambda>_. True"], simp add: a)
    apply (rule returns_read, rule a(8))
    apply (rule returns_read, rule a(9))
    apply (intro returns_if)
      apply (rule "2.IH"(1); simp)
     apply (rule "2.IH"(2); simp)
    apply (rule returns_read [where P = "\<lambda>_. True"])
    using a(10) object_bases_returns apply fastforce
    apply (rule returns_read, rule a(11))
    apply (rule returns_bind, (rule "2.IH"(3); simp))
    apply simp
    done
next
  case (3 name flds st)
  then show ?case by (simp add: returns_def)
next
  case (4 prop_name v props name flds st)
  have ob: "shape_obj (map_item v)" using "4.prems" by (simp add: shape_map_item)
  note a = shape_accessors [OF ob]
  show ?case
    apply (subst returns_cong, rule object_fields.simps)
    apply (rule returns_read [where P = "\<lambda>_. True"], simp add: a)
    apply (rule returns_read [where P = "\<lambda>_. True"], simp add: a)
    apply (rule returns_bind)
     apply (intro returns_if returns_plift a)
     apply (rule returns_bind, (rule "4.IH"(1) [OF plift_I plift_I]; (assumption | rule ob)))
     apply (rule returns_bind; simp)
    apply (rule "4.IH"(2); simp)
    using "4.prems" by simp
next
  case (5 schema name st)
  note a = shape_accessors [OF "5.prems"(1)]
  show ?case
    apply (subst returns_cong, rule parseArraySchema.simps)
    apply (rule returns_read [where P = "\<lambda>_. True"], simp add: a)
    apply (rule returns_read, rule a(13) [OF "5.prems"(2)])
    apply (rule returns_read [where P = "\<lambda>_. True"], simp add: shape_accessors)
    apply (rule returns_bind)
     apply (intro returns_if returns_plift shape_accessors(6), assumption)
     apply (rule returns_bind, simp)
     apply (rule returns_bind, (rule "5.IH"(1) [OF plift_I plift_I plift_I]; assumption))
     apply (rule returns_bind; simp)
    apply simp
    done
next
  case (6 schema name st)
  note a = shape_accessors [OF "6.prems"]
  show ?case
    apply (subst returns_cong, rule parseUnknownSchema.simps)
    apply (rule returns_read [where P = "\<lambda>_. True"], simp add: a)
    apply (rule returns_read, rule a(8))
    apply (intro returns_if)
     apply (rule "6.IH"(1); simp)
    apply (rule returns_read, rule a(9))
    apply (intro returns_if)
     apply (rule "6.IH"(2); simp)
    apply (rule returns_read [where P = "\<lambda>_. True"], simp add: a)+
    apply (intro returns_if)
     apply (rule "6.IH"(3); simp add: "6.prems")
    apply simp
    done
next
  case (7 schema name st)
  note a = shape_accessors [OF "7.prems"]
  show ?case
    apply (subst returns_cong, rule parseImplicitObject.simps)
    apply (rule returns_read [where P = "\<lambda>_. True"], simp add: a)
    apply (rule returns_read, rule a(10))
    apply (rule returns_bind, (rule "7.IH"(1); simp))
    apply (rule returns_read, rule a(11))
    apply (rule returns_bind, (rule "7.IH"(2); simp))
    apply simp
    done
next
  case (8 name bases st)
  then show ?case by (simp add: returns_def)
next
  case (9 v vs name bases st)
  have v: "schema_shape v" and vs: "\<forall>x \<in> set vs. schema_shape x" using "9.prems" by simp_all
  show ?case
    apply (subst returns_cong, rule implicit_bases.simps)
    apply (rule returns_read, rule shape_list_item [OF v])
    apply (rule returns_read [where P = "\<lambda>_. True"], simp add: shape_accessors)
    apply (rule returns_bind)
     apply (intro returns_if returns_plift)
      apply (simp add: rmap_Inr_iff shape_accessors)
     apply (rule returns_bind, (rule "9.IH"(1) [OF plift_I plift_I]; assumption))
     apply simp
    apply (rule "9.IH"(2); simp add: vs)
    done
next
  case (10 name flds st)
  then show ?case by (simp add: returns_def)
next
  case (11 prop_name v props name flds st)
  have ob: "shape_obj (map_item v)" using "11.prems" by (simp add: shape_map_item)
  note a = shape_accessors [OF ob]
  show ?case
    apply (subst returns_cong, rule implicit_fields.simps)
    apply (rule returns_read [where P = "\<lambda>_. True"], simp add: a)
    apply (rule returns_read [where P = "\<lambda>_. True"], simp add: a)
    apply (rule returns_bind)
     apply (intro returns_if returns_plift a)
     apply (rule returns_bind, (rule "11.IH"(1) [OF plift_I plift_I]; (assumption | rule ob)))
     apply (rule returns_bind; simp)
    apply (rule "11.IH"(2); simp)
    using "11.prems" by simp
next
  case (12 vs name desc st)
  show ?case
    apply (subst returns_cong, rule buildVariant.simps)
    apply (rule returns_bind, (rule "12.IH"; simp add: "12.prems"))
    apply simp
    done
next
  case (13 name rs st)
  then show ?case by (simp add: returns_def)
next
  case (14 v vs name rs st)
  have v: "schema_shape v" and vs: "\<forall>x \<in> set vs. schema_shape x" using "14.prems" by simp_all
  show ?case
    apply (subst returns_cong, rule variant_alts.simps)
    apply (rule returns_read, rule shape_list_item [OF v])
    apply (rule returns_read [where P = "\<lambda>_. True"], simp add: shape_accessors)
    apply (rule returns_bind)
     apply (intro returns_if returns_pure)
     apply (rule returns_bind, (rule "14.IH"(1) [OF plift_I plift_I]; assumption))
     apply simp
    apply (rule "14.IH"(2); simp add: vs)
    done
qed

section \<open>Properties\<close>


definition init_parse :: parse_state where
  "init_parse = \<lparr>ps_ast = empty_ast, added_types = {}\<rparr>"

lemma parse_inv_init: "parse_inv init_parse"
  by (simp add: parse_inv_def init_parse_def)

text \<open>A schema with an inline struct, to apply the theorems to.\<close>

definition string_schema :: json where "string_schema = J_Object [(''type'', J_String ''string'')]"

definition implicit_object :: "(string \<times> json) list \<Rightarrow> json" where
  "implicit_object props = J_Object [(''properties'', J_Object props)]"

lemma string_schema_shape: "schema_shape string_schema"
  unfolding string_schema_def
  by (rule schema_shape.intros)
    (auto simp: type_shape_def JsonSchema_Type_def JsonSchema_type_def kind_of_name_def split: if_splits)

lemma implicit_object_shape:
  assumes "\<forall>p \<in> set props. schema_shape (snd p)"
  shows "schema_shape (implicit_object props)"
  unfolding implicit_object_def using assms
  by (intro schema_shape.intros)
    (auto simp: type_shape_def JsonSchema_Type_def JsonSchema_type_def kind_of_name_def split: if_splits)


text \<open>C28: on a document of the expected shape \<open>parseSchema\<close> always returns a type: no exception, no
  termination, no access outside of the document, from any state and whatever the nesting.\<close>

theorem parseSchema_total:
  assumes "schema_shape schema"
  shows "\<exists>type st'. parseSchema (map_item schema) name st = (Inr type, st')"
  using parsers_return(1) [OF shape_map_item [OF assms]] by (simp add: returns_def)

theorem parseSchema_total_witness:
  "\<exists>type st'. parseSchema (map_item (implicit_object [(''x'', string_schema)])) ''A'' init_parse = (Inr type, st')"
  using parseSchema_total [OF implicit_object_shape, of "[(''x'', string_schema)]" "''A''" init_parse]
  by (simp add: string_schema_shape)
end
