(* ===== verification/Dep_Graph.thy ===== *)
theory Dep_Graph
  imports Ast
begin

text \<open>
  \<open>generator/src/IR/DependencyGraph.hpp\<close> and \<open>DependencyGraph.cpp\<close>: the graph of the
  dependencies between schema types, cycle detection by depth-first search, Kahn's topological
  sort, and \<open>sortTypes\<close>, which gives the order in which the types are emitted. Every
  iteration over a hash map goes through the parameter \<open>it\<close>.
\<close>

section \<open>The graph\<close>

datatype DepKind = DK_Value | DK_Variant | DK_Base | DK_ArrayElem | DK_MapValue

record Dependency =
  dep_from :: type_ref
  dep_to :: type_ref
  dep_kind :: DepKind

type_synonym adjacency = "(string, string list) umap"

record DependencyGraph =
  dependencies :: "Dependency list"
  adj :: adjacency

definition empty_graph :: DependencyGraph where
  "empty_graph = \<lparr>dependencies = [], adj = []\<rparr>"

text \<open>The out-edges \<open>find(node)\<close> gives, none for a node that is not in the map; and
  \<open>m[k].push_back(v)\<close>, where \<open>m[k]\<close> is created empty first if it is missing.\<close>

definition nbrs :: "adjacency \<Rightarrow> string \<Rightarrow> string list" where
  "nbrs m n = (case map_of m n of None \<Rightarrow> [] | Some l \<Rightarrow> l)"

definition push_back :: "string \<Rightarrow> string \<Rightarrow> adjacency \<Rightarrow> adjacency" where
  "push_back k v m = AList.update k (nbrs m k @ [v]) m"

definition addDependency :: "type_ref \<Rightarrow> type_ref \<Rightarrow> DepKind \<Rightarrow> DependencyGraph \<Rightarrow> DependencyGraph" where
  "addDependency from to kind g =
     (let adj1 = push_back (tr_name from) (tr_name to) (adj g);
          adj2 = (if map_of adj1 (tr_name to) = None then AList.update (tr_name to) [] adj1 else adj1)
      in \<lparr>dependencies = dependencies g @ [\<lparr>dep_from = from, dep_to = to, dep_kind = kind\<rparr>],
          adj = adj2\<rparr>)"

section \<open>Building the graph from the types\<close>

definition vector_prefix :: string where "vector_prefix = ''std::vector<''"
definition map_prefix :: string where "map_prefix = ''std::map<std::string, ''"

text \<open>\<open>name.substr(k)\<close> without its last character, the closing bracket.\<close>

definition inner_type :: "nat \<Rightarrow> string \<Rightarrow> string" where
  "inner_type k name = butlast (drop k name)"

definition field_dep :: "type_ref \<Rightarrow> (type_ref \<times> DepKind) list" where
  "field_dep t =
     (if \<not> isSyntheticCppType (tr_name t) then [(t, DK_Value)]
      else if prefix vector_prefix (tr_name t) then
        (let elem_type = inner_type 12 (tr_name t)
         in if \<not> isSyntheticCppType elem_type then [(TypeRef elem_type False, DK_ArrayElem)] else [])
      else if prefix map_prefix (tr_name t) then
        (let val_type = inner_type 22 (tr_name t)
         in if \<not> isSyntheticCppType val_type then [(TypeRef val_type False, DK_MapValue)] else [])
      else [])"

definition alternative_dep :: "type_ref \<Rightarrow> (type_ref \<times> DepKind) list" where
  "alternative_dep alt =
     (if isSyntheticCppType (tr_name alt) then
        (let dep_type =
           (if prefix vector_prefix (tr_name alt) then inner_type 12 (tr_name alt)
            else if prefix map_prefix (tr_name alt) then inner_type 22 (tr_name alt)
            else [])
         in if dep_type \<noteq> [] \<and> \<not> isSyntheticCppType dep_type
            then [(TypeRef dep_type False, DK_Variant)] else [])
      else [(alt, DK_Variant)])"

definition plain_dep :: "DepKind \<Rightarrow> type_ref \<Rightarrow> (type_ref \<times> DepKind) list" where
  "plain_dep kind t = (if \<not> isSyntheticCppType (tr_name t) then [(t, kind)] else [])"

definition type_deps :: "SchemaType \<Rightarrow> (type_ref \<times> DepKind) list" where
  "type_deps type =
     (case type of
        SStruct t \<Rightarrow> concat (map (\<lambda>f. field_dep (mb_type f)) (st_fields t))
          @ concat (map (plain_dep DK_Base) (allOf_bases t))
      | SVariant t \<Rightarrow> concat (map alternative_dep (alternatives t))
      | SArray t \<Rightarrow> plain_dep DK_ArrayElem (element_type t)
      | SMap t \<Rightarrow> plain_dep DK_MapValue (value_type t)
      | SEnum _ \<Rightarrow> []
      | SPrimitive _ \<Rightarrow> [])"

definition buildDependencies :: "string \<Rightarrow> SchemaType \<Rightarrow> DependencyGraph \<Rightarrow> DependencyGraph" where
  "buildDependencies name type g =
     foldl (\<lambda>g (to, kind). addDependency (TypeRef name False) to kind g) g (type_deps type)"

definition buildFromAST :: "(string list \<Rightarrow> string list) \<Rightarrow> NormalizedAST \<Rightarrow> DependencyGraph" where
  "buildFromAST it ast =
     foldl (\<lambda>g name. case getType ast name of Some type \<Rightarrow> buildDependencies name type g | None \<Rightarrow> g)
       empty_graph (it (keys (ast_types ast)))"

text \<open>The edge relation, and the invariant of every graph the code builds.\<close>

definition edges :: "adjacency \<Rightarrow> (string \<times> string) set" where
  "edges m = {(u, v). v \<in> set (nbrs m u)}"

definition wf_adj :: "adjacency \<Rightarrow> bool" where
  "wf_adj m \<longleftrightarrow> distinct (keys m) \<and> (\<forall>u. set (nbrs m u) \<subseteq> key_set m)"

lemma nbrs_update: "nbrs (AList.update k l m) n = (if n = k then l else nbrs m n)"
  by (simp add: nbrs_def map_of_update)

lemma nbrs_not_key: "n \<notin> key_set m \<Longrightarrow> nbrs m n = []"
  by (simp add: nbrs_def key_set_iff)

lemma edges_keys: "wf_adj m \<Longrightarrow> (u, v) \<in> edges m \<Longrightarrow> u \<in> key_set m \<and> v \<in> key_set m"
  by (cases "u \<in> key_set m") (auto simp: edges_def wf_adj_def nbrs_not_key)

lemma adj_addDependency_keys:
  "key_set (adj (addDependency from to kind g))
    = insert (tr_name from) (insert (tr_name to) (key_set (adj g)))"
  by (auto simp: addDependency_def Let_def push_back_def map_of_update key_set_iff)

lemma nbrs_addDependency:
  "nbrs (adj (addDependency from to kind g)) n
    = (if n = tr_name from then nbrs (adj g) n @ [tr_name to] else nbrs (adj g) n)"
proof -
  have "map_of m n = None \<Longrightarrow> nbrs m n = []" for m
    by (simp add: nbrs_def)
  then show ?thesis
    by (auto simp: addDependency_def Let_def push_back_def nbrs_update map_of_update split: if_splits)
qed

lemma wf_addDependency: "wf_adj (adj g) \<Longrightarrow> wf_adj (adj (addDependency from to kind g))"
  unfolding wf_adj_def adj_addDependency_keys nbrs_addDependency
  by (auto simp: addDependency_def Let_def push_back_def distinct_keys_update)

lemma edges_addDependency:
  "edges (adj (addDependency from to kind g)) = insert (tr_name from, tr_name to) (edges (adj g))"
  by (auto simp: edges_def nbrs_addDependency split: if_splits)

definition dep_targets :: "SchemaType \<Rightarrow> string set" where
  "dep_targets type = (\<lambda>(t, k). tr_name t) ` set (type_deps type)"

lemma buildDependencies_wf: "wf_adj (adj g) \<Longrightarrow> wf_adj (adj (buildDependencies name type g))"
proof -
  have "wf_adj (adj g) \<Longrightarrow> wf_adj (adj (foldl (\<lambda>g (to, kind). addDependency (TypeRef name False) to kind g) g ds))"
    for ds
    by (induction ds arbitrary: g) (auto simp: wf_addDependency)
  then show "wf_adj (adj g) \<Longrightarrow> wf_adj (adj (buildDependencies name type g))"
    by (simp add: buildDependencies_def)
qed

lemma buildDependencies_edges:
  "edges (adj (buildDependencies name type g)) = edges (adj g) \<union> {name} \<times> dep_targets type"
proof -
  have "edges (adj (foldl (\<lambda>g (to, kind). addDependency (TypeRef name False) to kind g) g ds))
      = edges (adj g) \<union> {name} \<times> ((\<lambda>(t, k). tr_name t) ` set ds)" for ds
    by (induction ds arbitrary: g) (auto simp: edges_addDependency)
  then show ?thesis by (simp add: buildDependencies_def dep_targets_def)
qed

lemma buildDependencies_keys:
  "key_set (adj (buildDependencies name type g))
    = key_set (adj g) \<union> (if type_deps type = [] then {} else insert name (dep_targets type))"
proof -
  have "key_set (adj (foldl (\<lambda>g (to, kind). addDependency (TypeRef name False) to kind g) g ds))
      = key_set (adj g) \<union> (if ds = [] then {} else insert name ((\<lambda>(t, k). tr_name t) ` set ds))" for ds
    by (induction ds arbitrary: g) (auto simp: adj_addDependency_keys)
  then show ?thesis by (simp add: buildDependencies_def dep_targets_def)
qed

text \<open>The dependencies of a table of types, read off the types themselves.\<close>

definition type_edges :: "NormalizedAST \<Rightarrow> (string \<times> string) set" where
  "type_edges ast = {(n, m). \<exists>type. getType ast n = Some type \<and> m \<in> dep_targets type}"

lemma buildFromAST_fold:
  "wf_adj (adj g) \<Longrightarrow>
   (let g' = foldl (\<lambda>g name. case getType ast name of Some type \<Rightarrow> buildDependencies name type g | None \<Rightarrow> g) g ns
    in wf_adj (adj g')
      \<and> edges (adj g') = edges (adj g) \<union> {(n, m). n \<in> set ns \<and> (n, m) \<in> type_edges ast}
      \<and> key_set (adj g') = key_set (adj g) \<union> Field {(n, m). n \<in> set ns \<and> (n, m) \<in> type_edges ast})"
proof (induction ns arbitrary: g)
  case Nil
  then show ?case by (simp add: Field_def)
next
  case (Cons n ns)
  show ?case
  proof (cases "getType ast n")
    case None
    with Cons show ?thesis by (auto simp: Let_def type_edges_def Field_def)
  next
    case (Some type)
    have "type_deps type \<noteq> [] \<longleftrightarrow> dep_targets type \<noteq> {}"
      by (auto simp: dep_targets_def)
    with Some Cons.IH [OF buildDependencies_wf [OF Cons.prems, of n type]] show ?thesis
      by (simp add: Let_def buildDependencies_edges buildDependencies_keys)
        (auto simp: type_edges_def Field_def)
  qed
qed

lemma empty_graph_facts [simp]:
  "wf_adj (adj empty_graph)" "edges (adj empty_graph) = {}" "key_set (adj empty_graph) = {}"
  by (simp_all add: empty_graph_def wf_adj_def edges_def nbrs_def)

lemma type_edges_dom: "(n, m) \<in> type_edges ast \<Longrightarrow> n \<in> key_set (ast_types ast)"
  by (auto simp: type_edges_def hasType_def simp flip: hasType_keys)

lemma buildFromAST_facts:
  assumes "hash_order it" and "wf_ast ast"
  shows "wf_adj (adj (buildFromAST it ast))"
    and "edges (adj (buildFromAST it ast)) = type_edges ast"
    and "key_set (adj (buildFromAST it ast)) = Field (type_edges ast)"
proof -
  have "set (it (keys (ast_types ast))) = key_set (ast_types ast)"
    using assms by (simp add: hash_order_key_set wf_ast_def)
  then have "{(n, m). n \<in> set (it (keys (ast_types ast))) \<and> (n, m) \<in> type_edges ast} = type_edges ast"
    using type_edges_dom by auto
  with buildFromAST_fold [of empty_graph ast "it (keys (ast_types ast))"]
  show "wf_adj (adj (buildFromAST it ast))"
    and "edges (adj (buildFromAST it ast)) = type_edges ast"
    and "key_set (adj (buildFromAST it ast)) = Field (type_edges ast)"
    by (simp_all add: buildFromAST_def Let_def)
qed


section \<open>Cycle detection\<close>

record dfs_state =
  visited :: "string set"
  rec_stack :: "string set"
  path :: "string list"
  out_cycles :: "string list list"

definition init_dfs :: dfs_state where
  "init_dfs = \<lparr>visited = {}, rec_stack = {}, path = [], out_cycles = []\<rparr>"

text \<open>The entry and the exit of \<open>dfsDetectCycle\<close>, and what it does on a back edge: the cycle is
  the part of \<open>path\<close> from \<open>neighbor\<close> on, closed with \<open>neighbor\<close>.\<close>

definition enter :: "string \<Rightarrow> dfs_state \<Rightarrow> dfs_state" where
  "enter n st = st\<lparr>visited := insert n (visited st), rec_stack := insert n (rec_stack st),
     path := path st @ [n]\<rparr>"

definition leave :: "string \<Rightarrow> dfs_state \<Rightarrow> dfs_state" where
  "leave n st = st\<lparr>path := butlast (path st), rec_stack := rec_stack st - {n}\<rparr>"

definition report :: "string \<Rightarrow> dfs_state \<Rightarrow> dfs_state" where
  "report n st = st\<lparr>out_cycles :=
     out_cycles st @ [dropWhile (\<lambda>x. x \<noteq> n) (path st) @ [n]]\<rparr>"

text \<open>
  The loop over the remaining neighbours of the current node; the recursive call on an unvisited
  neighbour runs the whole of \<open>dfsDetectCycle\<close> for it.
\<close>

function dfs_loop :: "adjacency \<Rightarrow> string list \<Rightarrow> dfs_state \<Rightarrow> dfs_state" where
  "dfs_loop m [] st = st"
| "dfs_loop m (n # ns) st =
     (if n \<notin> visited st then
        dfs_loop m ns (leave n (dfs_loop m (nbrs m n) (enter n st)))
      else if n \<in> rec_stack st then dfs_loop m ns (report n st)
      else dfs_loop m ns st)"
  by pat_completeness auto

text \<open>The recursion ends: a nested call starts with one more visited node (or with no
  neighbours at all, when the node is not in the map), and no call forgets a visited node.\<close>

lemma dfs_loop_visited_dom:
  "dfs_loop_dom (m, ns, st) \<Longrightarrow> visited st \<subseteq> visited (dfs_loop m ns st)"
  by (induction m ns st rule: dfs_loop.pinduct)
    (auto simp: dfs_loop.psimps enter_def leave_def report_def)

lemma dfs_measure_enter:
  assumes "n \<notin> visited st" and "n \<in> key_set m"
  shows "card (key_set m - visited (enter n st)) < card (key_set m - visited st)"
  using assms by (intro psubset_card_mono) (auto simp: enter_def)

termination dfs_loop
proof (relation "measures [\<lambda>(m, ns, st). card (key_set m - visited st), \<lambda>(m, ns, st). length ns]",
    goal_cases)
  case (2 m n ns st)
  show ?case
  proof (cases "n \<in> key_set m")
    case True
    with 2 dfs_measure_enter [of n st m] show ?thesis by simp
  next
    case False
    then have "key_set m - visited (enter n st) = key_set m - visited st"
      by (auto simp: enter_def)
    with False show ?thesis by (simp add: nbrs_not_key)
  qed
next
  case (3 m n ns st)
  then have "visited st \<subseteq> visited (leave n (dfs_loop m (nbrs m n) (enter n st)))"
    using dfs_loop_visited_dom [of m "nbrs m n" "enter n st"] by (auto simp: enter_def leave_def)
  then have "card (key_set m - visited (leave n (dfs_loop m (nbrs m n) (enter n st))))
      \<le> card (key_set m - visited st)"
    by (intro card_mono) auto
  then show ?case by auto
qed (simp_all add: report_def)

definition dfsDetectCycle :: "adjacency \<Rightarrow> string \<Rightarrow> dfs_state \<Rightarrow> dfs_state" where
  "dfsDetectCycle m n st = leave n (dfs_loop m (nbrs m n) (enter n st))"

fun detect_loop :: "adjacency \<Rightarrow> string list \<Rightarrow> dfs_state \<Rightarrow> dfs_state" where
  "detect_loop m [] st = st"
| "detect_loop m (k # ks) st =
     (if k \<notin> visited st then detect_loop m ks (dfsDetectCycle m k st) else detect_loop m ks st)"

definition detectCycles ::
  "(string list \<Rightarrow> string list) \<Rightarrow> DependencyGraph \<Rightarrow> bool \<times> string list list" where
  "detectCycles it g =
     (let st = detect_loop (adj g) (it (keys (adj g))) init_dfs
      in (out_cycles st \<noteq> [], out_cycles st))"

subsection \<open>What a depth-first search keeps\<close>

text \<open>A reported cycle: it starts and ends with the same node and follows edges.\<close>

fun chain :: "('a \<times> 'a) set \<Rightarrow> 'a list \<Rightarrow> bool" where
  "chain E [] = True"
| "chain E [x] = True"
| "chain E (x # y # xs) = ((x, y) \<in> E \<and> chain E (y # xs))"

definition is_cycle :: "('a \<times> 'a) set \<Rightarrow> 'a list \<Rightarrow> bool" where
  "is_cycle E c \<longleftrightarrow> 2 \<le> length c \<and> hd c = last c \<and> chain E c"

lemma chain_snoc: "chain E (xs @ [y]) \<longleftrightarrow> chain E xs \<and> (xs = [] \<or> (last xs, y) \<in> E)"
  by (induction E xs rule: chain.induct) auto

lemma chain_appendD: "chain E (xs @ ys) \<Longrightarrow> chain E ys"
  by (induction xs) (auto elim: chain.elims)

lemma chain_trancl: "chain E (x # xs) \<Longrightarrow> xs \<noteq> [] \<Longrightarrow> (x, last xs) \<in> E\<^sup>+"
proof (induction xs arbitrary: x)
  case (Cons y ys)
  then show ?case
    by (cases ys) (auto intro: trancl_into_trancl2)
qed simp

lemma is_cycle_not_acyclic: "is_cycle E c \<Longrightarrow> \<not> acyclic E"
proof -
  assume c: "is_cycle E c"
  then have "2 \<le> length c" by (simp add: is_cycle_def)
  then obtain x y ys where "c = x # y # ys"
    by (metis Suc_le_length_iff numeral_2_eq_2)
  then obtain xs where "c = x # xs" "xs \<noteq> []" by blast
  with c chain_trancl [of E x xs] have "(x, x) \<in> E\<^sup>+"
    by (auto simp: is_cycle_def)
  then show "\<not> acyclic E" by (auto simp: acyclic_def)
qed

definition finished :: "dfs_state \<Rightarrow> string set" where
  "finished st = visited st - rec_stack st"

definition dfs_inv :: "adjacency \<Rightarrow> dfs_state \<Rightarrow> bool" where
  "dfs_inv m st \<longleftrightarrow>
     rec_stack st = set (path st) \<and> distinct (path st) \<and> rec_stack st \<subseteq> visited st
     \<and> chain (edges m) (path st)
     \<and> (\<forall>c \<in> set (out_cycles st). is_cycle (edges m) c)
     \<and> (out_cycles st = [] \<longrightarrow>
         edges m `` finished st \<subseteq> finished st \<and> acyclic (edges m \<inter> finished st \<times> UNIV))"

lemma dfs_invD:
  assumes "dfs_inv m st"
  shows "rec_stack st = set (path st)" "distinct (path st)" "rec_stack st \<subseteq> visited st"
    "chain (edges m) (path st)" "\<And>c. c \<in> set (out_cycles st) \<Longrightarrow> is_cycle (edges m) c"
    "out_cycles st = [] \<Longrightarrow> edges m `` finished st \<subseteq> finished st"
    "out_cycles st = [] \<Longrightarrow> acyclic (edges m \<inter> finished st \<times> UNIV)"
  using assms by (auto simp: dfs_inv_def)

lemma finished_enter: "n \<notin> visited st \<Longrightarrow> finished (enter n st) = finished st"
  by (auto simp: finished_def enter_def)

lemma dfs_inv_enter:
  assumes "dfs_inv m st" and "n \<notin> visited st" and "path st = [] \<or> (last (path st), n) \<in> edges m"
  shows "dfs_inv m (enter n st)"
proof -
  have "n \<notin> set (path st)" using assms(1,2) by (auto simp: dfs_inv_def)
  with assms finished_enter [OF assms(2)] show ?thesis
    by (auto simp: dfs_inv_def enter_def chain_snoc)
qed

lemma dfs_inv_report:
  assumes "dfs_inv m st" and "n \<in> rec_stack st" and "(last (path st), n) \<in> edges m"
  shows "dfs_inv m (report n st)"
proof -
  let ?c = "dropWhile (\<lambda>x. x \<noteq> n) (path st)"
  have "n \<in> set (path st)" using assms by (simp add: dfs_inv_def)
  then obtain us vs where p: "path st = us @ n # vs" "n \<notin> set us"
    by (meson split_list_first)
  then have c: "?c = n # vs"
    by (subst p(1), subst dropWhile_append2) auto
  have "chain (edges m) (n # vs)"
    using dfs_invD(4) [OF assms(1)] p chain_appendD by metis
  moreover have "last (path st) = last (n # vs)" using p by simp
  ultimately have "is_cycle (edges m) (?c @ [n])"
    unfolding c is_cycle_def using assms(3) chain_snoc [of "edges m" "n # vs" n] by auto
  with assms(1) show ?thesis
    by (auto simp: dfs_inv_def report_def)
qed

text \<open>Finishing a node whose successors are all finished adds no cycle below it.\<close>

lemma acyclic_add_source:
  assumes closed: "E `` F \<subseteq> F" and ac: "acyclic (E \<inter> F \<times> UNIV)"
    and n: "n \<notin> F" and succ: "E `` {n} \<subseteq> F"
  shows "acyclic (E \<inter> insert n F \<times> UNIV)"
proof -
  let ?R = "E \<inter> insert n F \<times> UNIV"
  have step: "y \<in> F \<and> (x \<in> F \<longrightarrow> (x, y) \<in> (E \<inter> F \<times> UNIV)\<^sup>+)" if "(x, y) \<in> ?R\<^sup>+" for x y
    using that
  proof (induction rule: trancl_induct)
    case (base y)
    with closed succ show ?case by auto
  next
    case (step y z)
    with closed have "(y, z) \<in> E \<inter> F \<times> UNIV" "z \<in> F" by auto
    with step.IH show ?case by (auto intro: trancl_into_trancl)
  qed
  have "(x, x) \<notin> ?R\<^sup>+" for x
    using step [of x x] n ac by (auto simp: acyclic_def)
  then show ?thesis by (simp add: acyclic_def)
qed

lemma finished_leave:
  assumes "dfs_inv m st" and "path st = p @ [n]"
  shows "finished (leave n st) = insert n (finished st)"
  using assms by (auto simp: finished_def leave_def dfs_inv_def)

lemma dfs_inv_leave:
  assumes inv: "dfs_inv m st" and p: "path st = p @ [n]"
    and succ: "out_cycles st = [] \<Longrightarrow> edges m `` {n} \<subseteq> finished st"
  shows "dfs_inv m (leave n st)"
proof -
  have "n \<notin> finished st" using inv p by (auto simp: finished_def dfs_inv_def)
  moreover have "rec_stack (leave n st) = set p"
    using inv p by (auto simp: leave_def dfs_inv_def)
  ultimately show ?thesis
    using inv p succ acyclic_add_source [of "edges m" "finished st" n] finished_leave [OF inv p]
    by (auto simp: dfs_inv_def leave_def chain_snoc)
qed

text \<open>The specification of the loop, from the state of a current node \<open>u\<close>.\<close>

lemma dfs_loop_spec:
  assumes "dfs_inv m st" and "path st = p @ [u]" and "set ns \<subseteq> edges m `` {u}"
  shows "dfs_inv m (dfs_loop m ns st) \<and> path (dfs_loop m ns st) = path st
    \<and> visited st \<subseteq> visited (dfs_loop m ns st)
    \<and> (out_cycles (dfs_loop m ns st) = [] \<longrightarrow>
        out_cycles st = [] \<and> set ns \<subseteq> finished (dfs_loop m ns st))"
  using assms
proof (induction m ns st arbitrary: p u rule: dfs_loop.induct)
  case (1 m st)
  then show ?case by simp
next
  case (2 m n ns st)
  have edge: "(last (path st), n) \<in> edges m" using "2.prems" by auto
  have rest: "set ns \<subseteq> edges m `` {u}" using "2.prems" by auto
  consider (fresh) "n \<notin> visited st" | (stacked) "n \<in> visited st" "n \<in> rec_stack st"
    | (old) "n \<in> visited st" "n \<notin> rec_stack st" by blast
  then show ?case
  proof cases
    case fresh
    let ?e = "enter n st" and ?d = "dfs_loop m (nbrs m n) (enter n st)"
    have "dfs_inv m ?e" using "2.prems" fresh edge by (intro dfs_inv_enter) auto
    moreover have pe: "path ?e = path st @ [n]" by (simp add: enter_def)
    moreover have "set (nbrs m n) \<subseteq> edges m `` {n}" by (auto simp: edges_def)
    ultimately have d: "dfs_inv m ?d" "path ?d = path st @ [n]" "visited ?e \<subseteq> visited ?d"
      "out_cycles ?d = [] \<Longrightarrow> out_cycles st = [] \<and> edges m `` {n} \<subseteq> finished ?d"
      using "2.IH"(1) [OF fresh, of "path st" n] by (auto simp: enter_def edges_def)
    let ?l = "leave n ?d"
    have "dfs_inv m ?l" by (rule dfs_inv_leave [OF d(1,2)]) (use d(4) in blast)
    then have l: "dfs_inv m ?l" "path ?l = path st" "visited ?l = visited ?d" "out_cycles ?l = out_cycles ?d"
      using d by (auto simp: leave_def)
    have "n \<in> finished ?l" using finished_leave [OF d(1,2)] by simp
    moreover have "rec_stack (dfs_loop m ns ?l) = rec_stack ?l" "visited ?l \<subseteq> visited (dfs_loop m ns ?l)"
      using "2.IH"(2) [OF fresh l(1) _ rest, of p] l(1,2) "2.prems"(2) by (auto simp: dfs_inv_def)
    ultimately have "n \<in> finished (dfs_loop m ns ?l)" by (auto simp: finished_def)
    with "2.IH"(2) [OF fresh l(1) _ rest, of p] l d "2.prems"(2) fresh show ?thesis
      by (auto simp: enter_def)
  next
    case stacked
    have "dfs_inv m (report n st)" using "2.prems" stacked edge by (intro dfs_inv_report) auto
    with "2.IH"(3) [OF _ stacked(2) this _ rest, of p] "2.prems"(2) stacked show ?thesis
      by (auto simp: report_def)
  next
    case old
    with "2.IH"(4) [OF _ old(2) "2.prems"(1,2) rest] have IH: "dfs_inv m (dfs_loop m ns st)"
      "path (dfs_loop m ns st) = path st" "visited st \<subseteq> visited (dfs_loop m ns st)"
      "out_cycles (dfs_loop m ns st) = [] \<longrightarrow> out_cycles st = [] \<and> set ns \<subseteq> finished (dfs_loop m ns st)"
      by auto
    have "n \<in> finished (dfs_loop m ns st)"
      using IH(1,2,3) "2.prems"(1) old by (auto simp: finished_def dfs_inv_def)
    with IH old show ?thesis by auto
  qed
qed

lemma detect_loop_spec:
  assumes "dfs_inv m st" and "path st = []"
  shows "dfs_inv m (detect_loop m ks st) \<and> path (detect_loop m ks st) = []
    \<and> visited st \<union> set ks \<subseteq> visited (detect_loop m ks st)"
  using assms
proof (induction ks arbitrary: st)
  case Nil
  then show ?case by simp
next
  case (Cons k ks)
  show ?case
  proof (cases "k \<in> visited st")
    case True
    with Cons show ?thesis by auto
  next
    case False
    let ?e = "enter k st" and ?d = "dfs_loop m (nbrs m k) (enter k st)"
    have "dfs_inv m ?e" using Cons.prems False by (intro dfs_inv_enter) auto
    moreover have "path ?e = [] @ [k]" using Cons.prems by (simp add: enter_def)
    moreover have "set (nbrs m k) \<subseteq> edges m `` {k}" by (auto simp: edges_def)
    ultimately have d: "dfs_inv m ?d" "path ?d = [] @ [k]" "visited ?e \<subseteq> visited ?d"
      "out_cycles ?d = [] \<Longrightarrow> edges m `` {k} \<subseteq> finished ?d"
      using dfs_loop_spec [of m ?e "[]" k "nbrs m k"] by (auto simp: edges_def)
    have "dfs_inv m (dfsDetectCycle m k st)"
      unfolding dfsDetectCycle_def by (rule dfs_inv_leave [OF d(1,2) d(4)])
    moreover have "path (dfsDetectCycle m k st) = []"
      "insert k (visited st) \<subseteq> visited (dfsDetectCycle m k st)"
      using d by (auto simp: dfsDetectCycle_def leave_def enter_def)
    ultimately have "dfs_inv m (dfsDetectCycle m k st)" "path (dfsDetectCycle m k st) = []"
      "insert k (visited st) \<subseteq> visited (dfsDetectCycle m k st)" by blast+
    with Cons.IH [of "dfsDetectCycle m k st"] False show ?thesis by auto
  qed
qed

lemma dfs_inv_init: "dfs_inv m init_dfs"
  by (simp add: dfs_inv_def init_dfs_def finished_def acyclic_def)

lemma detectCycles_correct:
  assumes "hash_order it" and "wf_adj (adj g)"
  shows "fst (detectCycles it g) \<longleftrightarrow> \<not> acyclic (edges (adj g))"
    and "c \<in> set (snd (detectCycles it g)) \<Longrightarrow> is_cycle (edges (adj g)) c"
    and "fst (detectCycles it g) \<longleftrightarrow> snd (detectCycles it g) \<noteq> []"
proof -
  let ?m = "adj g"
  let ?st = "detect_loop ?m (it (keys ?m)) init_dfs"
  have ks: "set (it (keys ?m)) = key_set ?m"
    using assms by (simp add: hash_order_key_set wf_adj_def)
  have st: "dfs_inv ?m ?st" "path ?st = []" "key_set ?m \<subseteq> visited ?st"
    using detect_loop_spec [OF dfs_inv_init, of ?m "it (keys ?m)"] ks by (auto simp: init_dfs_def)
  show cyc: "is_cycle (edges ?m) c" if "c \<in> set (snd (detectCycles it g))" for c
    using that st(1) by (auto simp: detectCycles_def Let_def dfs_inv_def)
  have "acyclic (edges ?m)" if "out_cycles ?st = []"
  proof -
    have "key_set ?m \<subseteq> finished ?st"
      using st by (auto simp: finished_def dfs_inv_def)
    then have "edges ?m \<inter> finished ?st \<times> UNIV = edges ?m"
      using edges_keys [OF assms(2)] by auto
    with dfs_invD(7) [OF st(1) that] show ?thesis by simp
  qed
  moreover have "\<not> acyclic (edges ?m)" if "out_cycles ?st \<noteq> []"
    using that cyc is_cycle_not_acyclic [of "edges ?m" "hd (out_cycles ?st)"]
    by (auto simp: detectCycles_def Let_def)
  ultimately show "fst (detectCycles it g) \<longleftrightarrow> \<not> acyclic (edges (adj g))"
    by (auto simp: detectCycles_def Let_def)
  show "fst (detectCycles it g) \<longleftrightarrow> snd (detectCycles it g) \<noteq> []"
    by (simp add: detectCycles_def Let_def)
qed


section \<open>Kahn's topological sort\<close>

type_synonym degrees = "(string, int) umap"

text \<open>\<open>in_degree[n]\<close>, which reads 0 for a name that is not in the map. (The counter is an
  \<open>int\<close> of the code; it counts edges of one node, so it never comes near its bound.)\<close>

definition deg :: "degrees \<Rightarrow> string \<Rightarrow> int" where
  "deg d n = (case map_of d n of None \<Rightarrow> 0 | Some k \<Rightarrow> k)"

definition reverse_adj :: "(string list \<Rightarrow> string list) \<Rightarrow> adjacency \<Rightarrow> adjacency" where
  "reverse_adj it m =
     foldl (\<lambda>r from. foldl (\<lambda>r to. push_back to from r) r (nbrs m from)) [] (it (keys m))"

definition in_degree :: "(string list \<Rightarrow> string list) \<Rightarrow> adjacency \<Rightarrow> degrees" where
  "in_degree it m =
     (let zero = foldl (\<lambda>d node. AList.update node 0 d) [] (it (keys m))
      in foldl (\<lambda>d from. AList.update from (deg d from + int (length (nbrs m from))) d) zero
           (it (keys m)))"

text \<open>The inner loop, over the nodes that depend on the one just emitted.\<close>

fun relax :: "string list \<Rightarrow> degrees \<Rightarrow> string list \<Rightarrow> degrees \<times> string list" where
  "relax [] d queue = (d, queue)"
| "relax (dependent # ds) d queue =
     (let d' = AList.update dependent (deg d dependent - 1) d
      in relax ds d' (if deg d' dependent = 0 then queue @ [dependent] else queue))"

text \<open>The outer loop ends because every node enters the queue at the cost of one unit of degree.\<close>

definition todo :: "degrees \<Rightarrow> nat" where
  "todo d = (\<Sum>n \<in> key_set d. nat (deg d n))"

lemma deg_update: "deg (AList.update k v d) n = (if n = k then v else deg d n)"
  by (simp add: deg_def map_of_update)

lemma todo_update: "todo (AList.update k v d) + nat (deg d k) = todo d + nat v"
proof -
  have rest: "(\<Sum>n \<in> key_set d - {k}. nat (deg (AList.update k v d) n))
      = (\<Sum>n \<in> key_set d - {k}. nat (deg d n))"
    by (rule sum.cong) (auto simp: deg_update)
  have "todo (AList.update k v d) = nat v + (\<Sum>n \<in> key_set d - {k}. nat (deg d n))"
    unfolding todo_def key_set_update
    by (subst sum.insert_remove) (simp_all add: rest deg_update)
  moreover have "todo d = nat (deg d k) + (\<Sum>n \<in> key_set d - {k}. nat (deg d n))"
  proof (cases "k \<in> key_set d")
    case True
    then show ?thesis unfolding todo_def by (subst sum.remove [of _ k]) auto
  next
    case False
    then have "deg d k = 0" by (simp add: deg_def key_set_iff)
    with False show ?thesis by (simp add: todo_def)
  qed
  ultimately show ?thesis by simp
qed

lemma relax_todo: "relax ds d q = (d', q') \<Longrightarrow> todo d' + length q' \<le> todo d + length q"
proof (induction ds d q rule: relax.induct)
  case (2 n ds d q)
  let ?d = "AList.update n (deg d n - 1) d"
  have "todo ?d + (if deg ?d n = 0 then 1 else 0) \<le> todo d"
    using todo_update [of n "deg d n - 1" d] by (auto simp: deg_update)
  with 2 show ?case by (auto simp: Let_def split: if_splits)
qed simp

function kahn :: "adjacency \<Rightarrow> degrees \<Rightarrow> string list \<Rightarrow> string list \<Rightarrow> string list" where
  "kahn r d [] result = result"
| "kahn r d (current # queue) result =
     (let (d', queue') = relax (nbrs r current) d queue in kahn r d' queue' (result @ [current]))"
  by pat_completeness auto
termination
  by (relation "measure (\<lambda>(r, d, q, result). todo d + length q)")
    (auto dest: relax_todo [OF sym])

definition topologicalSort ::
  "(string list \<Rightarrow> string list) \<Rightarrow> DependencyGraph \<Rightarrow> string list" where
  "topologicalSort it g =
     (let d = in_degree it (adj g);
          result = kahn (reverse_adj it (adj g)) d (filter (\<lambda>n. deg d n = 0) (it (keys d))) []
      in if length result \<noteq> length (adj g) then [] else result)"


subsection \<open>The tables the sort starts from\<close>

lemma count_push_back:
  "count_list (nbrs (push_back k v m) x) y = count_list (nbrs m x) y + (if x = k \<and> y = v then 1 else 0)"
  by (simp add: push_back_def nbrs_update)

lemma count_push_backs:
  "count_list (nbrs (foldl (\<lambda>r to. push_back to from r) r ts) v) u
    = count_list (nbrs r v) u + (if u = from then count_list ts v else 0)"
  by (induction ts arbitrary: r) (auto simp: count_push_back)

lemma count_reverse_fold:
  "distinct ks \<Longrightarrow>
   count_list (nbrs (foldl (\<lambda>r from. foldl (\<lambda>r to. push_back to from r) r (nbrs m from)) r ks) v) u
    = count_list (nbrs r v) u + (if u \<in> set ks then count_list (nbrs m u) v else 0)"
  by (induction ks arbitrary: r) (auto simp: count_push_backs)

lemma count_reverse_adj:
  assumes "hash_order it" and "wf_adj m"
  shows "count_list (nbrs (reverse_adj it m) v) u = count_list (nbrs m u) v"
proof -
  have "distinct (it (keys m))" and ks: "set (it (keys m)) = key_set m"
    using assms by (simp_all add: wf_adj_def hash_order_distinct hash_order_key_set)
  from count_reverse_fold [OF this(1), of m "[]" v u] ks show ?thesis
    by (auto simp: reverse_adj_def nbrs_not_key)
qed

lemma zero_fold:
  "let d' = foldl (\<lambda>d node. AList.update node 0 d) d ks
   in (distinct (keys d) \<longrightarrow> distinct (keys d')) \<and> key_set d' = key_set d \<union> set ks
     \<and> (\<forall>n. deg d' n = (if n \<in> set ks then 0 else deg d n))"
  by (induction ks arbitrary: d) (auto simp: Let_def deg_update distinct_keys_update)

lemma add_fold:
  "distinct ks \<Longrightarrow>
   let d' = foldl (\<lambda>d from. AList.update from (deg d from + int (length (nbrs m from))) d) d ks
   in (distinct (keys d) \<longrightarrow> distinct (keys d')) \<and> key_set d' = key_set d \<union> set ks
     \<and> (\<forall>n. deg d' n = deg d n + (if n \<in> set ks then int (length (nbrs m n)) else 0))"
  by (induction ks arbitrary: d) (auto simp: Let_def deg_update distinct_keys_update)

lemma in_degree_facts:
  assumes "hash_order it" and "wf_adj m"
  shows "distinct (keys (in_degree it m))" and "key_set (in_degree it m) = key_set m"
    and "deg (in_degree it m) n = int (length (nbrs m n))"
proof -
  have "distinct (it (keys m))" and ks: "set (it (keys m)) = key_set m"
    using assms by (simp_all add: wf_adj_def hash_order_distinct hash_order_key_set)
  from add_fold [OF this(1), of m] zero_fold [of "[]" "it (keys m)"] ks
  show "distinct (keys (in_degree it m))" and "key_set (in_degree it m) = key_set m"
    and "deg (in_degree it m) n = int (length (nbrs m n))"
    by (auto simp: in_degree_def Let_def nbrs_not_key) (simp add: deg_def)
qed

subsection \<open>What the sort keeps\<close>

text \<open>A list that has the successors of each of its members before it, given those in \<open>D\<close>.\<close>

fun deps_first :: "('a \<times> 'a) set \<Rightarrow> 'a set \<Rightarrow> 'a list \<Rightarrow> bool" where
  "deps_first E D [] = True"
| "deps_first E D (x # xs) = (E `` {x} \<subseteq> D \<and> deps_first E (insert x D) xs)"

lemma deps_first_append:
  "deps_first E D (xs @ ys) \<longleftrightarrow> deps_first E D xs \<and> deps_first E (D \<union> set xs) ys"
  by (induction E D xs rule: deps_first.induct) (auto simp: insert_commute)

lemma deps_first_nth:
  "deps_first E D xs \<longleftrightarrow> (\<forall>i < length xs. E `` {xs ! i} \<subseteq> D \<union> set (take i xs))"
  by (induction E D xs rule: deps_first.induct) (simp_all add: All_less_Suc2)

lemma deps_first_filter:
  "deps_first E D xs \<Longrightarrow> deps_first (E \<inter> UNIV \<times> A) (D \<inter> A) (filter (\<lambda>x. x \<in> A) xs)"
  by (induction E D xs rule: deps_first.induct) auto

lemma deps_first_isolated: "(\<And>x. x \<in> set xs \<Longrightarrow> E `` {x} = {}) \<Longrightarrow> deps_first E D xs"
  by (induction xs arbitrary: D) auto

lemma deps_first_acyclic:
  "deps_first E {} xs \<Longrightarrow> distinct xs \<Longrightarrow> acyclic (E \<inter> set xs \<times> UNIV) \<and> E `` set xs \<subseteq> set xs"
proof (induction xs rule: rev_induct)
  case Nil
  then show ?case by (simp add: acyclic_def)
next
  case (snoc x xs)
  then have "E `` {x} \<subseteq> set xs" "acyclic (E \<inter> set xs \<times> UNIV)" "E `` set xs \<subseteq> set xs" "x \<notin> set xs"
    by (auto simp: deps_first_append)
  with acyclic_add_source [of E "set xs" x] show ?case by auto
qed

text \<open>The degree of a node is the number of its dependencies that are not in the result yet; the
  queue holds the nodes of degree 0 that are not in the result.\<close>

definition kahn_inv :: "adjacency \<Rightarrow> degrees \<Rightarrow> string list \<Rightarrow> string list \<Rightarrow> bool" where
  "kahn_inv m d q res \<longleftrightarrow>
     (\<forall>u. deg d u = int (length (filter (\<lambda>v. v \<notin> set res) (nbrs m u))))
     \<and> distinct (res @ q) \<and> set (res @ q) = {u \<in> key_set m. deg d u = 0}
     \<and> deps_first (edges m) {} res"

lemma relax_spec:
  assumes "relax ds d q = (d', q')" and "\<And>n. n \<in> set ds \<Longrightarrow> int (count_list ds n) \<le> deg d n"
  shows "(\<forall>n. deg d' n = deg d n - int (count_list ds n))
    \<and> (\<exists>new. q' = q @ new \<and> distinct new \<and> set new = {n \<in> set ds. deg d' n = 0})"
  using assms
proof (induction ds arbitrary: d q)
  case Nil
  then show ?case by simp
next
  case (Cons n ds)
  let ?d = "AList.update n (deg d n - 1) d"
  let ?q = "if deg ?d n = 0 then q @ [n] else q"
  have le: "int (count_list ds k) \<le> deg ?d k" if "k \<in> set ds" for k
    using Cons.prems(2) [of k] that unfolding deg_update by (simp split: if_splits)
  have r: "relax ds ?d ?q = (d', q')" using Cons.prems(1) by (simp add: Let_def)
  obtain new where new: "q' = ?q @ new" "distinct new" "set new = {k \<in> set ds. deg d' k = 0}"
    and sub: "\<forall>k. deg d' k = deg ?d k - int (count_list ds k)"
    using Cons.IH [OF r le] by blast
  have total: "\<forall>k. deg d' k = deg d k - int (count_list (n # ds) k)"
    using sub unfolding deg_update by simp
  show ?case
  proof (cases "deg ?d n = 0")
    case True
    have "n \<notin> set ds" 
    proof
      assume n: "n \<in> set ds"
      with le [OF n] True show False by (simp add: count_list_0_iff)
    qed
    moreover from this True have "deg d' n = 0" using spec [OF sub, of n] by (simp add: count_list_0_iff)
    ultimately have "q' = q @ n # new \<and> distinct (n # new)
        \<and> set (n # new) = {k \<in> set (n # ds). deg d' k = 0}"
      using True new by auto
    with total show ?thesis by blast
  next
    case False
    have "deg d' n = 0 \<Longrightarrow> n \<in> set ds"
      using False spec [OF sub, of n] by (cases "n \<in> set ds") simp_all
    with False new have "q' = q @ new \<and> distinct new \<and> set new = {k \<in> set (n # ds). deg d' k = 0}"
      by auto
    with total show ?thesis by blast
  qed
qed

lemma length_filter_snoc:
  "c \<notin> A \<Longrightarrow> length (filter (\<lambda>v. v \<notin> insert c A) l) + count_list l c = length (filter (\<lambda>v. v \<notin> A) l)"
  by (induction l) auto

lemma kahn_inv_step:
  assumes rev: "\<And>u v. count_list (nbrs r v) u = count_list (nbrs m u) v"
    and inv: "kahn_inv m d (c # q) res" and r: "relax (nbrs r c) d q = (d', q')"
  shows "kahn_inv m d' q' (res @ [c])"
proof -
  have deg: "deg d u = int (length (filter (\<lambda>v. v \<notin> set res) (nbrs m u)))" for u
    using inv by (simp add: kahn_inv_def)
  have dist: "distinct (res @ c # q)" and mem: "set (res @ c # q) = {u \<in> key_set m. deg d u = 0}"
    and dep: "deps_first (edges m) {} res"
    using inv by (simp_all add: kahn_inv_def)
  have c: "c \<notin> set res" "deg d c = 0" using dist mem by auto
  note filt = length_filter_snoc [OF c(1)]
  have "int (count_list (nbrs r c) n) \<le> deg d n" for n
    using filt [of "nbrs m n"] by (simp add: rev deg)
  from relax_spec [OF r this] obtain new where new: "q' = q @ new" "distinct new"
      "set new = {n \<in> set (nbrs r c). deg d' n = 0}"
    and deg': "deg d' n = deg d n - int (count_list (nbrs m n) c)" for n
    by (auto simp: rev)
  have left: "deg d' u = int (length (filter (\<lambda>v. v \<notin> set (res @ [c])) (nbrs m u)))" for u
    using filt [of "nbrs m u"] by (simp add: deg' deg)
  have fresh: "n \<in> set (nbrs r c) \<longleftrightarrow> c \<in> set (nbrs m n)" for n
    using rev [of c n] by (metis count_list_0_iff)
  have pos: "c \<in> set (nbrs m n) \<Longrightarrow> deg d n \<noteq> 0" for n
    using c(1) by (auto simp: deg filter_empty_conv)
  have zero: "deg d u = 0 \<Longrightarrow> deg d' u = 0" for u
    using left [of u] deg' [of u] by simp
  have same: "deg d' u = 0 \<Longrightarrow> deg d u \<noteq> 0 \<Longrightarrow> c \<in> set (nbrs m u)" for u
    using count_list_0_iff [of "nbrs m u" c] by (auto simp: deg')
  have "set new \<inter> set (res @ c # q) = {}"
    using new(3) mem pos by (force simp: fresh)
  then have "distinct (res @ c # q @ new)"
    using dist new(2) by auto
  moreover have "set (res @ c # q @ new) = {u \<in> key_set m. deg d' u = 0}"
  proof -
    have "set new = {u \<in> key_set m. deg d' u = 0 \<and> c \<in> set (nbrs m u)}"
      using new(3) nbrs_not_key [of _ m] by (force simp: fresh)
    moreover have "{u \<in> key_set m. deg d' u = 0} =
        {u \<in> key_set m. deg d u = 0} \<union> {u \<in> key_set m. deg d' u = 0 \<and> c \<in> set (nbrs m u)}"
      using zero same by auto
    ultimately show ?thesis using mem by auto
  qed
  moreover have "edges m `` {c} \<subseteq> set res"
    using deg [of c] c(2) by (auto simp: edges_def filter_empty_conv)
  then have "deps_first (edges m) {} (res @ [c])"
    using dep by (simp add: deps_first_append)
  ultimately show ?thesis
    using left new(1) by (simp add: kahn_inv_def)
qed

lemma kahn_spec:
  assumes "\<And>u v. count_list (nbrs r v) u = count_list (nbrs m u) v" and "kahn_inv m d q res"
  shows "\<exists>d'. kahn_inv m d' [] (kahn r d q res)"
  using assms
proof (induction r d q res rule: kahn.induct)
  case (1 r d res)
  then show ?case by auto
next
  case (2 r d c q res)
  obtain d' q' where r: "relax (nbrs r c) d q = (d', q')" by fastforce
  with "2.IH" [OF r [symmetric] refl "2.prems"(1)] kahn_inv_step [OF "2.prems" r] show ?case
    by simp
qed

lemma kahn_inv_final:
  assumes "kahn_inv m d [] res" and "wf_adj m"
  shows "distinct res" "set res \<subseteq> key_set m" "deps_first (edges m) {} res"
    "set res = key_set m \<longleftrightarrow> acyclic (edges m)"
proof -
  have deg: "deg d u = int (length (filter (\<lambda>v. v \<notin> set res) (nbrs m u)))" for u
    using assms(1) unfolding kahn_inv_def by blast
  have "set (res @ []) = {u \<in> key_set m. deg d u = 0}"
    using assms(1) unfolding kahn_inv_def by blast
  then have mem: "set res = {u \<in> key_set m. deg d u = 0}"
    by (simp only: append_Nil2)
  then have "set res \<subseteq> key_set m" by blast
  moreover have "distinct res" "deps_first (edges m) {} res"
    using assms(1) unfolding kahn_inv_def by auto
  ultimately show facts: "distinct res" "set res \<subseteq> key_set m" "deps_first (edges m) {} res"
    by blast+
  have "acyclic (edges m)" if all: "set res = key_set m"
  proof -
    have "edges m \<inter> key_set m \<times> UNIV = edges m" using edges_keys [OF assms(2)] by auto
    with deps_first_acyclic [OF facts(3,1)] show ?thesis unfolding all by simp
  qed
  moreover have "set res = key_set m" if ac: "acyclic (edges m)"
  proof (rule ccontr)
    assume "set res \<noteq> key_set m"
    then obtain u where u: "u \<in> key_set m - set res" using facts(2) by auto
    have "edges m \<subseteq> key_set m \<times> key_set m"
      using edges_keys [OF assms(2)] by (intro subrelI) blast
    then have "finite (edges m)" by (rule finite_subset) simp
    then have "wf ((edges m)\<inverse>)" using ac by (rule finite_acyclic_wf_converse)
    then obtain z where z: "z \<in> key_set m - set res"
      "\<And>y. (y, z) \<in> (edges m)\<inverse> \<Longrightarrow> y \<notin> key_set m - set res"
      using wfE_min [of "(edges m)\<inverse>" u "key_set m - set res"] u by blast
    then have "set (nbrs m z) \<subseteq> set res"
      using edges_keys [OF assms(2), of z] unfolding edges_def by blast
    then have "filter (\<lambda>v. v \<notin> set res) (nbrs m z) = []" by (auto simp: filter_empty_conv)
    then have "deg d z = 0" by (simp only: deg list.size of_nat_0)
    with z(1) mem show False by blast
  qed
  ultimately show "set res = key_set m \<longleftrightarrow> acyclic (edges m)" by blast
qed

lemma topologicalSort_spec:
  assumes "hash_order it" and "wf_adj (adj g)"
  shows "acyclic (edges (adj g)) \<Longrightarrow> distinct (topologicalSort it g)
      \<and> set (topologicalSort it g) = key_set (adj g)
      \<and> deps_first (edges (adj g)) {} (topologicalSort it g)"
    and "\<not> acyclic (edges (adj g)) \<Longrightarrow> topologicalSort it g = []"
proof -
  let ?m = "adj g" and ?d = "in_degree it (adj g)"
  let ?q = "filter (\<lambda>n. deg ?d n = 0) (it (keys ?d))"
  let ?res = "kahn (reverse_adj it ?m) ?d ?q []"
  note d = in_degree_facts [OF assms]
  have "set ?q = {u \<in> key_set ?m. deg ?d u = 0}" "distinct ?q"
    using assms(1) d(1,2) by (auto simp: hash_order_key_set hash_order_distinct)
  then have "kahn_inv ?m ?d ?q []"
    using d(3) by (simp add: kahn_inv_def)
  then obtain d' where "kahn_inv ?m d' [] ?res"
    using kahn_spec [OF count_reverse_adj [OF assms]] by blast
  note res = kahn_inv_final [OF this assms(2)]
  have "length (adj g) = card (key_set ?m)"
    using assms(2) distinct_card [of "keys ?m"] by (simp add: wf_adj_def key_set_def)
  moreover have "card (set ?res) = card (key_set ?m) \<longleftrightarrow> set ?res = key_set ?m"
    using res(2) card_subset_eq [OF finite_key_set res(2)] by auto
  ultimately have len: "length ?res = length (adj g) \<longleftrightarrow> acyclic (edges ?m)"
    using res(1,4) by (simp add: distinct_card)
  show "acyclic (edges ?m) \<Longrightarrow> distinct (topologicalSort it g)
      \<and> set (topologicalSort it g) = key_set ?m \<and> deps_first (edges ?m) {} (topologicalSort it g)"
    using len res by (simp add: topologicalSort_def Let_def)
  show "\<not> acyclic (edges ?m) \<Longrightarrow> topologicalSort it g = []"
    using len by (simp add: topologicalSort_def Let_def)
qed

section \<open>The order of the types\<close>

record TopologicalOrder =
  ordered_types :: "string list"
  has_cycles :: bool
  to_cycles :: "string list list"

definition isValid :: "TopologicalOrder \<Rightarrow> bool" where
  "isValid r = (\<not> has_cycles r \<and> ordered_types r \<noteq> [])"

definition sortTypes :: "(string list \<Rightarrow> string list) \<Rightarrow> NormalizedAST \<Rightarrow> TopologicalOrder" where
  "sortTypes it ast =
     (let graph = buildFromAST it ast; (found, cycles) = detectCycles it graph
      in if found then \<lparr>ordered_types = [], has_cycles = True, to_cycles = cycles\<rparr>
         else
           (let names = it (keys (ast_types ast));
                filtered = filter (\<lambda>name. hasType ast name) (topologicalSort it graph);
                ordered =
                  (if filtered = [] then names
                   else filtered @ filter (\<lambda>name. name \<notin> set filtered) names)
            in \<lparr>ordered_types = ordered, has_cycles = False, to_cycles = cycles\<rparr>))"

text \<open>The order the emitter needs: every type once, after all the types it refers to.\<close>

definition emit_order :: "NormalizedAST \<Rightarrow> string list \<Rightarrow> bool" where
  "emit_order ast xs \<longleftrightarrow> distinct xs \<and> set xs = key_set (ast_types ast)
     \<and> deps_first (type_edges ast \<inter> UNIV \<times> key_set (ast_types ast)) {} xs"

lemma sortTypes_spec:
  assumes it: "hash_order it" and ast: "wf_ast ast"
  defines "r \<equiv> sortTypes it ast"
  shows "has_cycles r \<longleftrightarrow> \<not> acyclic (type_edges ast)"
    and "has_cycles r \<Longrightarrow> ordered_types r = [] \<and> to_cycles r \<noteq> []
      \<and> (\<forall>c \<in> set (to_cycles r). is_cycle (type_edges ast) c)"
    and "\<not> has_cycles r \<Longrightarrow> to_cycles r = [] \<and> emit_order ast (ordered_types r)"
proof -
  let ?g = "buildFromAST it ast" and ?K = "key_set (ast_types ast)"
  let ?E = "type_edges ast \<inter> UNIV \<times> ?K"
  note g = buildFromAST_facts [OF it ast]
  note dc = detectCycles_correct [OF it g(1), unfolded g(2)]
  note ts = topologicalSort_spec [OF it g(1), unfolded g(2,3)]
  have r: "has_cycles r = fst (detectCycles it ?g)" "to_cycles r = snd (detectCycles it ?g)"
    by (simp_all add: r_def sortTypes_def Let_def case_prod_unfold)
  show "has_cycles r \<longleftrightarrow> \<not> acyclic (type_edges ast)" using dc(1) r by simp
  show "ordered_types r = [] \<and> to_cycles r \<noteq> [] \<and> (\<forall>c \<in> set (to_cycles r). is_cycle (type_edges ast) c)"
    if "has_cycles r"
    using that dc(2,3) r by (simp add: r_def sortTypes_def Let_def case_prod_unfold)
  show "to_cycles r = [] \<and> emit_order ast (ordered_types r)" if no: "\<not> has_cycles r"
  proof -
    let ?ts = "topologicalSort it ?g" and ?names = "it (keys (ast_types ast))"
    let ?f = "filter (\<lambda>name. name \<in> ?K) ?ts"
    have names: "set ?names = ?K" "distinct ?names"
      using it ast by (simp_all add: wf_ast_def hash_order_key_set hash_order_distinct)
    have t: "distinct ?ts" "set ?ts = Field (type_edges ast)" "deps_first (type_edges ast) {} ?ts"
      using ts(1) dc(1) r no by auto
    have f: "deps_first ?E {} ?f" "distinct ?f" "set ?f = Field (type_edges ast) \<inter> ?K"
      using deps_first_filter [OF t(3), of ?K] t(1,2) by auto
    have iso: "deps_first ?E D (filter (\<lambda>name. name \<notin> set ?f) ?names)" for D
      using f(3) names(1) by (intro deps_first_isolated) (auto simp: Field_def)
    have has: "hasType ast = (\<lambda>name. name \<in> ?K)" by (simp add: fun_eq_iff hasType_keys)
    have "\<not> fst (detectCycles it ?g)" using no r(1) by simp
    then have "ordered_types r =
        (if ?f = [] then ?names else ?f @ filter (\<lambda>name. name \<notin> set ?f) ?names)"
      by (simp add: r_def sortTypes_def Let_def case_prod_unfold has del: set_filter)
    then have "ordered_types r = ?f @ filter (\<lambda>name. name \<notin> set ?f) ?names"
      by (cases "?f = []") (simp_all only: if_True if_False append_Nil list.set(1) empty_iff simp_thms
          not_False_eq_True filter_True ball_simps, simp_all)
    moreover have "emit_order ast (?f @ filter (\<lambda>name. name \<notin> set ?f) ?names)"
      using f iso names unfolding emit_order_def deps_first_append by auto
    ultimately show ?thesis using dc(3) r no by simp
  qed
qed

text \<open>What the emitters ask of the sorter: an order they can emit in, unless it reports cycles.\<close>

locale type_sorter =
  fixes sorter :: "(string list \<Rightarrow> string list) \<Rightarrow> NormalizedAST \<Rightarrow> TopologicalOrder"
  assumes sorted: "\<lbrakk>hash_order it; wf_ast ast; \<not> has_cycles (sorter it ast)\<rbrakk>
      \<Longrightarrow> emit_order ast (ordered_types (sorter it ast))"
    and cyclic: "\<lbrakk>hash_order it; wf_ast ast; has_cycles (sorter it ast)\<rbrakk> \<Longrightarrow> ordered_types (sorter it ast) = []"
begin

lemma each_type_once:
  "\<lbrakk>hash_order it; wf_ast ast; \<not> has_cycles (sorter it ast)\<rbrakk>
    \<Longrightarrow> distinct (ordered_types (sorter it ast)) \<and> (n \<in> set (ordered_types (sorter it ast)) \<longleftrightarrow> hasType ast n)"
  using sorted [of it ast] by (simp add: emit_order_def hasType_keys)

end

interpretation dependency_order: type_sorter sortTypes
  using sortTypes_spec by unfold_locales blast+

text \<open>Two small tables the theorems are applied to: one with a dependency, one with a cycle.\<close>

definition cyclic_ast :: NormalizedAST where
  "cyclic_ast = addType ''A'' (SArray \<lparr>element_type = TypeRef ''B'' False, at_description = []\<rparr>)
     (addType ''B'' (SMap \<lparr>value_type = TypeRef ''A'' False, mt_description = []\<rparr>) empty_ast)"

lemma wf_sample_ast: "wf_ast sample_ast" and wf_cyclic_ast: "wf_ast cyclic_ast"
  by (simp_all add: sample_ast_def cyclic_ast_def)

lemma dep_targets_sample:
  "dep_targets (SArray \<lparr>element_type = TypeRef ''Pet'' False, at_description = []\<rparr>) = {''Pet''}"
  "dep_targets (SArray \<lparr>element_type = TypeRef ''B'' False, at_description = []\<rparr>) = {''B''}"
  "dep_targets (SMap \<lparr>value_type = TypeRef ''A'' False, mt_description = []\<rparr>) = {''A''}"
  "dep_targets (SStruct \<lparr>st_name = ''Pet'', st_fields = [], allOf_bases = [], st_description = []\<rparr>) = {}"
  by (simp_all add: dep_targets_def type_deps_def plain_dep_def isSyntheticCppType_def)

lemma type_edges_sample: "type_edges sample_ast = {(''Pets'', ''Pet'')}"
  and type_edges_cyclic: "type_edges cyclic_ast = {(''A'', ''B''), (''B'', ''A'')}"
  by (auto simp: type_edges_def sample_ast_def cyclic_ast_def dep_targets_sample split: if_splits)

lemma acyclic_sample: "acyclic (type_edges sample_ast)"
  by (simp add: type_edges_sample acyclic_insert) (simp add: acyclic_def)

lemma cyclic_cyclic: "\<not> acyclic (type_edges cyclic_ast)"
proof -
  have "(''A'', ''A'') \<in> (type_edges cyclic_ast)\<^sup>+"
    unfolding type_edges_cyclic by (rule trancl_into_trancl [of _ "''B''"]) auto
  then show ?thesis by (auto simp: acyclic_def)
qed

text \<open>\<open>DependencyGraph::buildFromAST\<close> records exactly the references of the types: the
  edges of the graph are the pairs of a type of the AST and a type that one of its fields, bases,
  alternatives or elements names (through the synthetic containers), every endpoint of an edge is
  a node of the graph and no other name is.\<close>

lemma buildFromAST_edges:
  assumes "hash_order it" and "wf_ast ast"
  shows "edges (adj (buildFromAST it ast)) = type_edges ast
    \<and> key_set (adj (buildFromAST it ast)) = Field (type_edges ast)
    \<and> distinct (keys (adj (buildFromAST it ast)))"
  using buildFromAST_facts [OF assms] by (simp add: wf_adj_def)

text \<open>C21: \<open>DependencyGraph::detectCycles\<close> reports a cycle exactly when the graph of the AST has
  one, and everything it reports is a cycle: a walk along the edges that ends where it starts.
  The search visits every node whatever the iteration order of the hash map.\<close>

theorem detectCycles_sound_complete:
  assumes "hash_order it" and "wf_ast ast"
  shows "(fst (detectCycles it (buildFromAST it ast)) \<longleftrightarrow> \<not> acyclic (type_edges ast))
    \<and> (\<forall>c \<in> set (snd (detectCycles it (buildFromAST it ast))). is_cycle (type_edges ast) c)"
  using detectCycles_correct [OF assms(1) buildFromAST_facts(1) [OF assms]]
    buildFromAST_facts(2) [OF assms] by simp

theorem detectCycles_sound_complete_witness:
  "fst (detectCycles rev (buildFromAST rev cyclic_ast))"
  using detectCycles_sound_complete [OF hash_order_rev wf_cyclic_ast] cyclic_cyclic by simp

text \<open>C20: \<open>DependencyGraph::topologicalSort\<close>, on the graph of an AST: if the graph is acyclic the
  result lists every node once with all the nodes it depends on before it, and if the graph has a
  cycle the result is empty.\<close>

theorem topologicalSort_correct:
  assumes "hash_order it" and "wf_ast ast"
  defines "result \<equiv> topologicalSort it (buildFromAST it ast)"
  shows "if acyclic (type_edges ast)
    then distinct result \<and> set result = Field (type_edges ast) \<and> deps_first (type_edges ast) {} result
    else result = []"
  using topologicalSort_spec [OF assms(1) buildFromAST_facts(1) [OF assms(1,2)]]
    buildFromAST_facts(2,3) [OF assms(1,2)] by (simp add: result_def)

theorem topologicalSort_correct_witness:
  "set (topologicalSort rev (buildFromAST rev sample_ast)) = {''Pets'', ''Pet''}"
  using topologicalSort_correct [OF hash_order_rev wf_sample_ast] acyclic_sample
  by (simp add: type_edges_sample Field_def) auto

text \<open>C6: \<open>sortTypes\<close> is total and correct: either the types refer to each other in a cycle, and it
  returns no order, sets \<open>has_cycles\<close> and reports at least one cycle, all of them real; or they
  do not, and \<open>ordered_types\<close> lists every type of the AST exactly once (the ones without any edge
  too), each after all the types of the AST it refers to.\<close>

theorem sortTypes_correct:
  assumes "hash_order it" and "wf_ast ast"
  defines "r \<equiv> sortTypes it ast"
  shows "if acyclic (type_edges ast)
    then \<not> has_cycles r \<and> to_cycles r = [] \<and> emit_order ast (ordered_types r)
    else has_cycles r \<and> ordered_types r = [] \<and> to_cycles r \<noteq> []
      \<and> (\<forall>c \<in> set (to_cycles r). is_cycle (type_edges ast) c)"
  using sortTypes_spec [OF assms(1,2)] by (auto simp: r_def)

theorem sortTypes_correct_witness:
  "has_cycles (sortTypes rev cyclic_ast) \<and> to_cycles (sortTypes rev cyclic_ast) \<noteq> []"
  using sortTypes_correct [OF hash_order_rev wf_cyclic_ast] cyclic_cyclic by simp

end
