(* ===== verification/Defs_Gen.thy ===== *)
theory Defs_Gen
  imports Dep_Graph
begin

text \<open>
  \<open>generator/src/IR/DefsGenerator.hpp\<close> and \<open>DefsGenerator.cpp\<close>: the header and source file with the
  C++ definitions of the schema types and their JSON conversions. The functions that write to a
  stream return the text they write; \<open>LOG_EMIT\<close> and the counters it prints are left out. Every
  iteration over a hash map goes through the parameter \<open>it\<close>.
\<close>

section \<open>Type names\<close>

definition cppTypeName :: "SchemaType \<Rightarrow> string" where
  "cppTypeName type =
     (case type of
        SStruct t \<Rightarrow> st_name t
      | SVariant t \<Rightarrow> vt_name t
      | SArray t \<Rightarrow> ''std::vector<'' @ tr_name (element_type t) @ ''>''
      | SMap t \<Rightarrow> ''std::map<std::string, '' @ tr_name (value_type t) @ ''>''
      | SEnum t \<Rightarrow> et_name t
      | SPrimitive t \<Rightarrow> primitiveToCpp (pt_kind t) (int_format t) (num_format t))"

text \<open>The loop along \<open>typedef_chain\<close>, which the set \<open>visited\<close> ends.\<close>

function follow_chain :: "(string, string) umap \<Rightarrow> string list \<Rightarrow> string \<Rightarrow> string" where
  "follow_chain typedefs passed current =
     (case map_of typedefs current of
        None \<Rightarrow> current
      | Some next \<Rightarrow>
          if current \<in> set passed then current
          else if next = current then current
          else follow_chain typedefs (current # passed) next)"
  by pat_completeness auto

termination follow_chain
proof (relation "measure (\<lambda>(typedefs, passed, current). card (key_set typedefs - set passed))", goal_cases)
  case (2 typedefs passed current nxt)
  then have c: "current \<in> key_set typedefs - set passed" by (simp add: key_set_iff)
  have "key_set typedefs - set (current # passed) = key_set typedefs - set passed - {current}" by auto
  moreover have "card (key_set typedefs - set passed - {current}) < card (key_set typedefs - set passed)"
    using c by (intro card_Diff1_less) simp_all
  ultimately show ?case by (simp only: in_measure split)
qed simp

declare follow_chain.simps [simp del]

text \<open>\<open>resolveTypeName\<close> calls itself on the single alternative of a variant. The call need not
  return when variants refer to each other in a cycle; \<open>None\<close> is the call that does not return.\<close>

partial_function (option) resolveTypeName ::
  "NormalizedAST \<Rightarrow> (string, string) umap \<Rightarrow> string \<Rightarrow> string option" where
  "resolveTypeName ast typedefs name =
     (let current = follow_chain typedefs [] name
      in case getType ast current of
           None \<Rightarrow> Some current
         | Some type \<Rightarrow>
             (case type of
                SPrimitive t \<Rightarrow> Some (if enum_values t \<noteq> [] then current else ''std::string'')
              | SVariant t \<Rightarrow>
                  if length (alternatives t) = 1 \<and> \<not> is_nullable t then
                    (if \<not> is_inline (hd (alternatives t))
                     then resolveTypeName ast typedefs (tr_name (hd (alternatives t)))
                     else Some (tr_name (hd (alternatives t))))
                  else Some current
              | _ \<Rightarrow> Some current))"

definition resolve_alt :: "NormalizedAST \<Rightarrow> (string, string) umap \<Rightarrow> type_ref \<Rightarrow> string option" where
  "resolve_alt ast typedefs alt =
     (if is_inline alt then Some (tr_name alt) else resolveTypeName ast typedefs (tr_name alt))"

fun resolve_alts :: "NormalizedAST \<Rightarrow> (string, string) umap \<Rightarrow> type_ref list \<Rightarrow> string list option" where
  "resolve_alts ast typedefs [] = Some []"
| "resolve_alts ast typedefs (alt # alts) =
     Option.bind (resolve_alt ast typedefs alt) (\<lambda>n. map_option (\<lambda>ns. n # ns) (resolve_alts ast typedefs alts))"

fun sep_join :: "string \<Rightarrow> string list \<Rightarrow> string" where
  "sep_join sep [] = []"
| "sep_join sep [s] = s"
| "sep_join sep (s # t # ts) = s @ sep @ sep_join sep (t # ts)"

definition getVariantSignature ::
  "NormalizedAST \<Rightarrow> (string, string) umap \<Rightarrow> type_ref list \<Rightarrow> string option" where
  "getVariantSignature ast typedefs alts =
     map_option (\<lambda>ns. ''variant<'' @ sep_join '','' ns @ ''>'') (resolve_alts ast typedefs alts)"

text \<open>\<open>seen.emplace(resolved, alt)\<close> keeps the first alternative of a resolved name.\<close>

fun emplace_all :: "(string \<times> type_ref) list \<Rightarrow> (string, type_ref) umap \<Rightarrow> (string, type_ref) umap" where
  "emplace_all [] seen = seen"
| "emplace_all ((n, alt) # ps) seen =
     emplace_all ps (if map_of seen n = None then AList.update n alt seen else seen)"

definition processVariantAlternatives ::
  "(string list \<Rightarrow> string list) \<Rightarrow> NormalizedAST \<Rightarrow> (string, string) umap \<Rightarrow> VariantType
    \<Rightarrow> (type_ref list \<times> bool) option" where
  "processVariantAlternatives it ast typedefs v =
     map_option (\<lambda>ns.
       (let seen = emplace_all (zip ns (alternatives v)) [];
            processed = map (\<lambda>n. TypeRef n True) (it (keys seen))
        in (processed, length processed = 1 \<and> \<not> is_nullable v)))
       (resolve_alts ast typedefs (alternatives v))"

section \<open>Definitions\<close>

record Preprocessed =
  pp_alternatives :: "type_ref list"
  should_collapse :: bool
  pp_signature :: string

record DefsEmitState =
  variant_signatures :: "(string, string) umap"
  typedef_chain :: "(string, string) umap"
  preprocessed :: "(string, Preprocessed) umap"

definition empty_emit_state :: DefsEmitState where
  "empty_emit_state = \<lparr>variant_signatures = [], typedef_chain = [], preprocessed = []\<rparr>"

definition doc_comment :: "string \<Rightarrow> string" where
  "doc_comment description =
     (if description \<noteq> [] then line [''/**''] @ line ['' * '', escapeCppString description] @ line ['' */''] else [])"

definition emit_field :: "Member \<Rightarrow> string" where
  "emit_field f =
     (if mb_description f \<noteq> [] then line [''    /** '', escapeCppString (mb_description f), '' */''] else [])
     @ line [''    '', tr_name (mb_type f), '' '', mb_name f,
         (case default_value f of Some d \<Rightarrow> '' = '' @ d | None \<Rightarrow> []), '';'']"

definition emitStruct :: "StructType \<Rightarrow> string" where
  "emitStruct s =
     doc_comment (st_description s)
     @ line [''struct '', st_name s,
         (if allOf_bases s \<noteq> [] then '' : '' @ sep_join '', '' (map tr_name (allOf_bases s)) else []), '' {'']
     @ concat (map emit_field (st_fields s))
     @ line [''};'']"

definition emit_using :: "string \<Rightarrow> string \<Rightarrow> string" where
  "emit_using name target = line [''using '', name, '' = '', target, '';'']"

text \<open>The alternatives of a \<open>std::variant\<close>, with \<open>std::nullptr_t\<close> for a nullable one.\<close>

definition variant_text :: "type_ref list \<Rightarrow> bool \<Rightarrow> string" where
  "variant_text alts nullable =
     ''std::variant<'' @ sep_join '', '' (map tr_name alts)
     @ (if nullable then (if alts \<noteq> [] then '', '' else []) @ ''std::nullptr_t'' else []) @ ''>''"

definition emitVariant ::
  "(string list \<Rightarrow> string list) \<Rightarrow> NormalizedAST \<Rightarrow> VariantType \<Rightarrow> DefsEmitState \<Rightarrow> (string \<times> DefsEmitState) option" where
  "emitVariant it ast v state =
     (let doc = doc_comment (vt_description v); name = vt_name v
      in if alternatives v = [] \<and> \<not> is_nullable v then Some (doc @ emit_using name ''std::monostate'', state)
         else
           Option.bind (processVariantAlternatives it ast (typedef_chain state) v) (\<lambda>(processed, collapse).
           Option.bind (getVariantSignature ast (typedef_chain state) processed) (\<lambda>sig.
             let state1 = state\<lparr>preprocessed := AList.update name
                   \<lparr>pp_alternatives = processed, should_collapse = collapse, pp_signature = sig\<rparr> (preprocessed state)\<rparr>
             in case map_of (variant_signatures state1) sig of
                  Some target \<Rightarrow>
                    Some (doc @ emit_using name target,
                      state1\<lparr>typedef_chain := AList.update name target (typedef_chain state1)\<rparr>)
                | None \<Rightarrow>
                    (let state2 = state1\<lparr>variant_signatures := AList.update sig name (variant_signatures state1)\<rparr>
                     in if collapse then
                          (let target = tr_name (hd processed)
                           in Some (doc @ emit_using name target,
                                state2\<lparr>typedef_chain := AList.update name target (typedef_chain state2)\<rparr>))
                        else Some (doc @ emit_using name (variant_text processed (is_nullable v)), state2)))))"

text \<open>The enumerators between the braces, a comma after all but the last.\<close>

fun enumerators :: "string list \<Rightarrow> string" where
  "enumerators [] = []"
| "enumerators [n] = line [''    '', n]"
| "enumerators (n # m # ns) = line [''    '', n, '',''] @ enumerators (m # ns)"

definition emitEnum :: "EnumType \<Rightarrow> string" where
  "emitEnum e =
     doc_comment (et_description e)
     @ line [''enum class '', et_name e, '' : int {'']
     @ enumerators (map (\<lambda>v. sanitize_enum_identifier (ev_name v)) (et_values e))
     @ line [''};'']"

definition backquoted :: "string \<Rightarrow> string" where "backquoted s = [CHR 0x60] @ s @ [CHR 0x60]"

definition values_comment :: "PrimitiveType \<Rightarrow> string" where
  "values_comment p =
     (if pt_description p \<noteq> [] then
        line [''/**''] @ line ['' * '', escapeCppString (pt_description p)]
        @ (if enum_values p \<noteq> []
           then line ['' * Allowed values: '', sep_join '', '' (map (\<lambda>v. backquoted (escapeCppString v)) (enum_values p))]
           else [])
        @ line ['' */'']
      else [])"

definition emitPrimitiveTypedef :: "string \<Rightarrow> PrimitiveType \<Rightarrow> string" where
  "emitPrimitiveTypedef name p = values_comment p @ emit_using name (cppTypeName (SPrimitive p))"

definition emitEnumFromPrimitive :: "string \<Rightarrow> PrimitiveType \<Rightarrow> string" where
  "emitEnumFromPrimitive name p =
     values_comment p
     @ line [''enum class '', name, '' : '', ''int'', '' {'']
     @ enumerators (map sanitize_enum_identifier (enum_values p))
     @ line [''};'']"

definition emitArrayAlias :: "string \<Rightarrow> ArrayType \<Rightarrow> string" where
  "emitArrayAlias name a = emit_using name (''std::vector<'' @ tr_name (element_type a) @ ''>'')"

definition emitMapAlias :: "string \<Rightarrow> MapType \<Rightarrow> string" where
  "emitMapAlias name m = emit_using name (''std::map<std::string, '' @ tr_name (value_type m) @ ''>'')"

definition emit_definition ::
  "(string list \<Rightarrow> string list) \<Rightarrow> NormalizedAST \<Rightarrow> string \<Rightarrow> SchemaType \<Rightarrow> DefsEmitState \<Rightarrow> (string \<times> DefsEmitState) option" where
  "emit_definition it ast name type state =
     (case type of
        SStruct t \<Rightarrow> Some (emitStruct t, state)
      | SVariant t \<Rightarrow> emitVariant it ast t state
      | SEnum t \<Rightarrow> Some (emitEnum t, state)
      | SPrimitive t \<Rightarrow>
          Some (if enum_values t \<noteq> [] then emitEnumFromPrimitive name t else emitPrimitiveTypedef name t, state)
      | SArray t \<Rightarrow> Some (emitArrayAlias name t, state)
      | SMap t \<Rightarrow> Some (emitMapAlias name t, state))"

text \<open>The loop over the types, each definition with its name.\<close>

fun emit_definitions ::
  "(string list \<Rightarrow> string list) \<Rightarrow> NormalizedAST \<Rightarrow> string list \<Rightarrow> DefsEmitState
    \<Rightarrow> ((string \<times> string) list \<times> DefsEmitState) option" where
  "emit_definitions it ast [] state = Some ([], state)"
| "emit_definitions it ast (name # names) state =
     (case getType ast name of
        None \<Rightarrow> emit_definitions it ast names state
      | Some type \<Rightarrow>
          Option.bind (emit_definition it ast name type state) (\<lambda>(block, state1).
            map_option (\<lambda>(blocks, state2). ((name, block @ line []) # blocks, state2))
              (emit_definitions it ast names state1)))"

section \<open>JSON conversions\<close>

text \<open>The heads of the two \<open>tag_invoke\<close> functions of a type.\<close>

definition value_from_head :: "string \<Rightarrow> string \<Rightarrow> string" where
  "value_from_head name param =
     ''void tag_invoke(boost::json::value_from_tag, boost::json::value& jv, '' @ name @ param @ '')''"

definition value_to_head :: "string \<Rightarrow> string" where
  "value_to_head name = name @ '' tag_invoke(boost::json::value_to_tag<'' @ name @ ''>, const boost::json::value& jv)''"

definition value_from_const_head :: "string \<Rightarrow> string \<Rightarrow> string" where
  "value_from_const_head name param =
     ''void tag_invoke(boost::json::value_from_tag, boost::json::value& jv, const '' @ name @ param @ '')''"

definition enum_case :: "string \<Rightarrow> string \<times> string \<Rightarrow> string" where
  "enum_case name nv =
     line [''        case '', name, ''::'', fst nv, '': jv = '', quoted (escapeCppString (snd nv)), ''; break;'']"

definition enum_match :: "string \<Rightarrow> string \<times> string \<Rightarrow> string" where
  "enum_match name nv =
     line [''    if (str == '', quoted (escapeCppString (snd nv)), '') {'']
     @ line [''        return '', name, ''::'', fst nv, '';'']
     @ line [''    }'']"

text \<open>The enumerators of an enumeration with the string each stands for.\<close>

definition primitive_enum :: "PrimitiveType \<Rightarrow> (string \<times> string) list" where
  "primitive_enum p = map (\<lambda>v. (sanitize_enum_identifier v, v)) (enum_values p)"

definition enum_table :: "EnumType \<Rightarrow> (string \<times> string) list" where
  "enum_table e = map (\<lambda>v. (sanitize_enum_identifier (ev_name v), ev_value v)) (et_values e)"

definition default_enum :: "(string \<times> string) list \<Rightarrow> string" where
  "default_enum nvs = (if nvs \<noteq> [] then fst (hd nvs) else ''0'')"

definition emitEnumFromPrimitiveSerialization :: "string \<Rightarrow> PrimitiveType \<Rightarrow> string" where
  "emitEnumFromPrimitiveSerialization name p =
     line [value_from_head name '' val'', '' {'']
     @ line [''    switch (val) {'']
     @ concat (map (enum_case name) (primitive_enum p))
     @ line [''        default: jv = '', quoted [], ''; break;'']
     @ line [''    }''] @ line [''}''] @ line []
     @ line [value_to_head name, '' {'']
     @ line [''    auto str = jv.as_string();'']
     @ line [''    if (str.empty()) return '', name, ''::'', default_enum (primitive_enum p), '';'']
     @ line []
     @ concat (map (enum_match name) (primitive_enum p))
     @ line [''    return '', name, ''::'', default_enum (primitive_enum p), '';'']
     @ line [''}''] @ line []"

definition emitEnumSerialization :: "EnumType \<Rightarrow> string" where
  "emitEnumSerialization e =
     (let name = et_name e
      in line [value_from_head name '' val'', '' {'']
         @ line [''    switch (val) {'']
         @ concat (map (enum_case name) (enum_table e))
         @ line [''    }''] @ line [''}''] @ line []
         @ line [value_to_head name, '' {'']
         @ line [''    auto str = jv.as_string();'']
         @ line [''    if (str == '', quoted [], '') return '', name, ''::'', default_enum (enum_table e), '';'']
         @ line [''    '']
         @ concat (map (enum_match name) (enum_table e))
         @ line [''    return '', name, ''::'', default_enum (enum_table e), '';'']
         @ line [''}''] @ line [])"

definition base_to_json :: "type_ref \<Rightarrow> string" where
  "base_to_json base =
     line [''    { '']
     @ line [''        auto base_jv = boost::json::value_from(static_cast<const '', tr_name base, ''&>(v));'']
     @ line [''        auto base_obj = base_jv.get_object();'']
     @ line [''        for (auto& [key, val] : base_obj) {'']
     @ line [''            obj[key] = val;'']
     @ line [''        }'']
     @ line [''    }'']"

definition base_from_json :: "type_ref \<Rightarrow> string" where
  "base_from_json base =
     line [''    static_cast<'', tr_name base, ''&>(obj) = '']
     @ line [''        boost::json::value_to<'', tr_name base, ''>(jv);'']"

definition field_to_json :: "Member \<Rightarrow> string" where
  "field_to_json f = line [''    obj['', quoted (mb_name f), ''] = boost::json::value_from(v.'', mb_name f, '');'']"

definition field_from_json :: "Member \<Rightarrow> string" where
  "field_from_json f =
     line [''    if (auto* _obj = jv.if_object()) {'']
     @ line [''        if (auto* _fld = _obj->if_contains('', quoted (mb_name f), '')) {'']
     @ line [''            obj.'', mb_name f, '' = boost::json::value_to<'', tr_name (mb_type f), ''>(*_fld);'']
     @ line [''        }'']
     @ line [''    }'']"

definition emitStructSerialization :: "StructType \<Rightarrow> string" where
  "emitStructSerialization s =
     line [value_from_const_head (st_name s) ''& v'', '' {'']
     @ line [''    boost::json::object obj;'']
     @ concat (map base_to_json (allOf_bases s))
     @ concat (map field_to_json (st_fields s))
     @ line [''    jv = std::move(obj);'']
     @ line [''}''] @ line []
     @ line [value_to_head (st_name s), '' {'']
     @ line [''    '', st_name s, '' obj;'']
     @ concat (map base_from_json (allOf_bases s))
     @ concat (map field_from_json (st_fields s))
     @ line [''    return obj;'']
     @ line [''}''] @ line []"

fun try_alternatives :: "string \<Rightarrow> nat \<Rightarrow> nat \<Rightarrow> type_ref list \<Rightarrow> string" where
  "try_alternatives name i n [] = []"
| "try_alternatives name i n (alt # alts) =
     line [''    if constexpr ('', nat_to_string i, '' < '', nat_to_string n, '') {'']
     @ line [''        try {'']
     @ line [''            return '', name, ''(boost::json::value_to<'', tr_name alt, ''>(jv));'']
     @ line [''        } catch (...) {'']
     @ line [''            // Try next alternative'']
     @ line [''        }'']
     @ line [''    }'']
     @ try_alternatives name (i + 1) n alts"

definition preprocess ::
  "(string list \<Rightarrow> string list) \<Rightarrow> NormalizedAST \<Rightarrow> VariantType \<Rightarrow> DefsEmitState \<Rightarrow> Preprocessed option" where
  "preprocess it ast v state =
     (case map_of (preprocessed state) (vt_name v) of
        Some pp \<Rightarrow> Some pp
      | None \<Rightarrow>
          Option.bind (processVariantAlternatives it ast (typedef_chain state) v) (\<lambda>(processed, collapse).
          map_option (\<lambda>sig. \<lparr>pp_alternatives = processed, should_collapse = collapse, pp_signature = sig\<rparr>)
            (getVariantSignature ast (typedef_chain state) processed)))"

definition emitVariantSerialization ::
  "(string list \<Rightarrow> string list) \<Rightarrow> NormalizedAST \<Rightarrow> VariantType \<Rightarrow> DefsEmitState \<Rightarrow> string option" where
  "emitVariantSerialization it ast v state =
     map_option (\<lambda>pp.
       (let name = vt_name v; alts = pp_alternatives pp
        in if (case map_of (variant_signatures state) (pp_signature pp) of Some n \<Rightarrow> n \<noteq> name | None \<Rightarrow> False) then []
           else if should_collapse pp then []
           else
             line [value_from_const_head name ''& val'', '' {'']
             @ line [''    std::visit([&](const auto& inner) {'']
             @ line [''        jv = boost::json::value_from(inner);'']
             @ line [''    }, val);'']
             @ line [''}''] @ line []
             @ line [value_to_head name, '' {'']
             @ try_alternatives name 0 (length alts) alts
             @ line [''    throw std::runtime_error('', quoted ''No matching variant alternative'', '');'']
             @ line [''}''] @ line []))
       (preprocess it ast v state)"

section \<open>The two files\<close>

text \<open>The includes a type needs: vector, map, variant, optional, cstdint.\<close>

record needs =
  need_vector :: bool
  need_map :: bool
  need_variant :: bool
  need_optional :: bool
  need_cstdint :: bool

definition no_needs :: needs where
  "no_needs = \<lparr>need_vector = False, need_map = False, need_variant = False, need_optional = False, need_cstdint = False\<rparr>"

definition field_needs :: "needs \<Rightarrow> Member \<Rightarrow> needs" where
  "field_needs n f =
     (let tn = tr_name (mb_type f)
      in \<lparr>need_vector = need_vector n \<or> contains_sub ''vector<'' tn,
          need_map = need_map n \<or> contains_sub ''map<'' tn,
          need_variant = need_variant n \<or> contains_sub ''variant<'' tn,
          need_optional = need_optional n \<or> contains_sub ''optional<'' tn,
          need_cstdint = need_cstdint n \<or> contains_sub ''int'' tn\<rparr>)"

definition type_needs :: "needs \<Rightarrow> SchemaType \<Rightarrow> needs" where
  "type_needs n type =
     (case type of
        SArray _ \<Rightarrow> n\<lparr>need_vector := True\<rparr>
      | SMap _ \<Rightarrow> n\<lparr>need_map := True\<rparr>
      | SVariant t \<Rightarrow> n\<lparr>need_variant := True, need_optional := need_optional n \<or> is_nullable t\<rparr>
      | SStruct t \<Rightarrow> foldl field_needs n (st_fields t)
      | SPrimitive t \<Rightarrow>
          (if contains_sub ''int'' (cppTypeName (SPrimitive t)) then n\<lparr>need_cstdint := True\<rparr> else n)
      | SEnum _ \<Rightarrow> n)"

definition the_types :: "NormalizedAST \<Rightarrow> string list \<Rightarrow> (string \<times> SchemaType) list" where
  "the_types ast names = List.map_filter (\<lambda>n. map_option (Pair n) (getType ast n)) names"

definition emit_includes :: "NormalizedAST \<Rightarrow> string list \<Rightarrow> string" where
  "emit_includes ast names =
     (let n = foldl type_needs no_needs (map snd (the_types ast names))
      in line [''#include <string>'']
         @ (if need_vector n then line [''#include <vector>''] else [])
         @ (if need_map n then line [''#include <map>''] else [])
         @ (if need_variant n then line [''#include <variant>''] else [])
         @ (if need_optional n then line [''#include <optional>''] else [])
         @ (if need_cstdint n then line [''#include <cstdint>''] else [])
         @ line [''#include <boost/json.hpp>'']
         @ line [''#include <siesta/encoding.hpp>''] @ line [])"

definition forward_decl :: "string \<times> SchemaType \<Rightarrow> string" where
  "forward_decl nt =
     (case snd nt of
        SStruct _ \<Rightarrow> line [''struct '', fst nt, '';'']
      | SEnum _ \<Rightarrow> line [''enum class '', fst nt, '' : int;'']
      | _ \<Rightarrow> [])"

definition json_decl :: "string \<times> SchemaType \<Rightarrow> string" where
  "json_decl nt =
     (let name = fst nt; decls = (\<lambda>head. line [head, '';''] @ line [value_to_head name, '';''])
      in case snd nt of
           SStruct _ \<Rightarrow> decls (value_from_const_head name ''& v'')
         | SVariant _ \<Rightarrow> decls (value_from_const_head name ''& v'')
         | SEnum _ \<Rightarrow> decls (value_from_head name '' v'')
         | SPrimitive t \<Rightarrow> if enum_values t \<noteq> [] then decls (value_from_head name '' v'') else []
         | _ \<Rightarrow> [])"

definition emit_query_value :: "string \<Rightarrow> (string \<times> string) list \<Rightarrow> string" where
  "emit_query_value name nvs =
     line [''inline std::string query_value('', name, '' val) {'']
     @ line [tabs 1, ''switch (val) {'']
     @ concat (map (\<lambda>(n, v). line [tabs 2, ''case '', name, ''::'', n, '': return '', quoted (escapeCppString v), '';'']) nvs)
     @ line [tabs 2, ''default: return '', quoted [], '';'']
     @ line [tabs 1, ''}'']
     @ line [''}'']"

definition query_value_overload :: "string \<times> SchemaType \<Rightarrow> string" where
  "query_value_overload nt =
     (case snd nt of
        SEnum t \<Rightarrow> emit_query_value (fst nt) (enum_table t)
      | SPrimitive t \<Rightarrow> if enum_values t \<noteq> [] then emit_query_value (fst nt) (primitive_enum t) else []
      | _ \<Rightarrow> [])"

definition defs_preamble :: "string \<Rightarrow> NormalizedAST \<Rightarrow> string list \<Rightarrow> string" where
  "defs_preamble ns ast names =
     line [''#pragma once''] @ line []
     @ emit_includes ast names
     @ line [''namespace '', ns, '' {'']
     @ line [''using siesta::url_encode;'']
     @ line [''using siesta::query_value;''] @ line []
     @ line [''// Forward declarations'']
     @ concat (map forward_decl (the_types ast names))
     @ line []"

definition defs_conversions :: "string \<Rightarrow> NormalizedAST \<Rightarrow> string list \<Rightarrow> string" where
  "defs_conversions ns ast names =
     line [''// JSON serialization'']
     @ concat (map json_decl (the_types ast names))
     @ concat (map query_value_overload (the_types ast names))
     @ line [] @ line [''} // namespace '', ns]"

definition generateDefsHpp ::
  "(string list \<Rightarrow> string list) \<Rightarrow> string \<Rightarrow> TopologicalOrder \<Rightarrow> NormalizedAST \<Rightarrow> string option" where
  "generateDefsHpp it ns order ast =
     map_option (\<lambda>(blocks, _).
         defs_preamble ns ast (ordered_types order)
         @ concat (map snd blocks)
         @ defs_conversions ns ast (ordered_types order))
       (emit_definitions it ast (ordered_types order) empty_emit_state)"

text \<open>The source file; its state is a fresh one, so it is empty throughout.\<close>

definition emit_serialization ::
  "(string list \<Rightarrow> string list) \<Rightarrow> NormalizedAST \<Rightarrow> DefsEmitState \<Rightarrow> string \<times> SchemaType \<Rightarrow> string option" where
  "emit_serialization it ast state nt =
     (case snd nt of
        SStruct t \<Rightarrow> Some (emitStructSerialization t)
      | SVariant t \<Rightarrow> emitVariantSerialization it ast t state
      | SEnum t \<Rightarrow> Some (emitEnumSerialization t)
      | SPrimitive t \<Rightarrow>
          Some (if enum_values t \<noteq> [] then emitEnumFromPrimitiveSerialization (fst nt) t else [])
      | _ \<Rightarrow> Some [])"

fun all_some :: "'a option list \<Rightarrow> 'a list option" where
  "all_some [] = Some []"
| "all_some (x # xs) = Option.bind x (\<lambda>y. map_option (\<lambda>ys. y # ys) (all_some xs))"

definition generateDefsCpp ::
  "(string list \<Rightarrow> string list) \<Rightarrow> string \<Rightarrow> TopologicalOrder \<Rightarrow> NormalizedAST \<Rightarrow> string option" where
  "generateDefsCpp it ns order ast =
     map_option (\<lambda>texts.
       line [''#include '', quoted ''openapi_defs.hpp'']
       @ line [''namespace '', ns, '' {''] @ line []
       @ concat texts
       @ line [''} // namespace api''])
       (all_some (map (emit_serialization it ast empty_emit_state) (the_types ast (ordered_types order))))"


text \<open>The generator writes the two files, the namespace being \<open>args.ns\<close>.\<close>

definition DefsGenerator ::
  "(string list \<Rightarrow> string list) \<Rightarrow> string \<Rightarrow> TopologicalOrder \<Rightarrow> NormalizedAST \<Rightarrow> (string \<times> string) list option" where
  "DefsGenerator it ns order ast =
     Option.bind (generateDefsHpp it ns order ast) (\<lambda>hpp.
     map_option (\<lambda>cpp. [(DEFS_HPP, hpp), (DEFS_CPP, cpp)]) (generateDefsCpp it ns order ast))"

section \<open>The definitions come out complete and in order\<close>

text \<open>The position of a type in the order, from 1; 0 for a name that is no type.\<close>

definition rank :: "string list \<Rightarrow> string \<Rightarrow> nat" where
  "rank xs n = (if n \<in> set xs then Suc (length (takeWhile (\<lambda>m. m \<noteq> n) xs)) else 0)"

text \<open>What the parser establishes: types carry the name they are filed under, and no type is named
  like a C++ type.\<close>

definition emittable :: "NormalizedAST \<Rightarrow> bool" where
  "emittable ast \<longleftrightarrow>
     (\<forall>n type. getType ast n = Some type \<longrightarrow> own_name n type \<and> \<not> isSyntheticCppType n)"

lemma rank_append: "y \<notin> set zs \<Longrightarrow> rank (zs @ y # ys) y = Suc (length zs)"
  by (simp add: rank_def takeWhile_tail) (induction zs, auto)

lemma rank_pos: "n \<in> set xs \<Longrightarrow> 0 < rank xs n"
  and rank_notin: "n \<notin> set xs \<Longrightarrow> rank xs n = 0"
  by (simp_all add: rank_def)

lemma rank_before:
  assumes "v \<in> set zs" and "distinct (zs @ y # ys)"
  shows "rank (zs @ y # ys) v < rank (zs @ y # ys) y"
proof -
  have "length (takeWhile (\<lambda>m. m \<noteq> v) zs) < length zs"
    using assms(1) by (induction zs) auto
  moreover have "takeWhile (\<lambda>m. m \<noteq> v) (zs @ y # ys) = takeWhile (\<lambda>m. m \<noteq> v) zs"
    using assms(1) by (intro takeWhile_append1) auto
  ultimately show ?thesis using assms rank_append [of y zs ys] by (simp add: rank_def)
qed

lemma edge_rank:
  assumes "emit_order ast xs" and "(u, v) \<in> type_edges ast"
  shows "rank xs v < rank xs u"
proof (cases "v \<in> set xs")
  case True
  have u: "u \<in> set xs"
    using assms by (auto simp: emit_order_def type_edges_def key_set_iff getType_def)
  then obtain zs ys where xs: "xs = zs @ u # ys" by (metis split_list)
  with assms(1) have "(type_edges ast \<inter> UNIV \<times> set xs) `` {u} \<subseteq> set zs"
    by (simp add: emit_order_def deps_first_append)
  with assms(2) True have "v \<in> set zs" by auto
  with xs assms(1) show ?thesis by (simp add: emit_order_def rank_before)
next
  case False
  moreover have "u \<in> set xs"
    using assms by (auto simp: emit_order_def type_edges_def key_set_iff getType_def)
  ultimately show ?thesis by (simp add: rank_pos rank_notin)
qed

lemma emit_order_hasType: "emit_order ast xs \<Longrightarrow> n \<in> set xs \<longleftrightarrow> hasType ast n"
  by (simp add: emit_order_def hasType_keys)

lemma alternative_rank:
  assumes o: "emit_order ast xs" and e: "emittable ast"
    and t: "getType ast n = Some (SVariant v)" and a: "alt \<in> set (alternatives v)"
  shows "rank xs (tr_name alt) < rank xs n"
proof (cases "hasType ast (tr_name alt)")
  case True
  then have "alternative_dep alt = [(alt, DK_Variant)]"
    using e by (auto simp: alternative_dep_def emittable_def hasType_def)
  with t a have "(n, tr_name alt) \<in> type_edges ast"
    by (force simp: type_edges_def dep_targets_def type_deps_def)
  with o show ?thesis by (rule edge_rank)
next
  case False
  then have "rank xs (tr_name alt) = 0" using o by (simp add: rank_notin emit_order_hasType)
  moreover have "n \<in> set xs" using o t by (simp add: emit_order_hasType hasType_def)
  ultimately show ?thesis by (simp add: rank_pos)
qed

text \<open>Aliases always lead to an earlier name, so following and resolving them ends.\<close>

definition typedefs_ok :: "string list \<Rightarrow> (string, string) umap \<Rightarrow> bool" where
  "typedefs_ok xs typedefs \<longleftrightarrow> (\<forall>k t. map_of typedefs k = Some t \<longrightarrow> rank xs t < rank xs k)"

lemma follow_chain_rank:
  "typedefs_ok xs typedefs \<Longrightarrow> rank xs (follow_chain typedefs passed n) \<le> rank xs n"
proof (induction typedefs passed n rule: follow_chain.induct)
  case (1 typedefs passed current)
  then show ?case
    unfolding follow_chain.simps [of typedefs passed current]
    by (fastforce simp: typedefs_ok_def split: option.split)
qed

lemma resolve_returns:
  assumes o: "emit_order ast xs" and e: "emittable ast" and ok: "typedefs_ok xs typedefs"
  shows "\<exists>m. resolveTypeName ast typedefs n = Some m \<and> rank xs m \<le> rank xs n"
proof (induction "rank xs n" arbitrary: n rule: less_induct)
  case less
  define current where "current = follow_chain typedefs [] n"
  have cur: "rank xs current \<le> rank xs n"
    using follow_chain_rank [OF ok] by (simp add: current_def)
  have str: "rank xs ''std::string'' = 0"
  proof (rule rank_notin)
    have "isSyntheticCppType ''std::string''" by (simp add: isSyntheticCppType_def)
    with e show "''std::string'' \<notin> set xs" unfolding emit_order_hasType [OF o] emittable_def hasType_def
      by (metis not_None_eq)
  qed
  show ?case
  proof (cases "\<exists>v. getType ast current = Some (SVariant v) \<and> length (alternatives v) = 1
      \<and> \<not> is_nullable v \<and> \<not> is_inline (hd (alternatives v))")
    case True
    then obtain v where v: "getType ast current = Some (SVariant v)" "length (alternatives v) = 1"
      "\<not> is_nullable v" "\<not> is_inline (hd (alternatives v))" by blast
    let ?a = "hd (alternatives v)"
    have "?a \<in> set (alternatives v)" using v(2) by (cases "alternatives v") auto
    then have "rank xs (tr_name ?a) < rank xs n" using alternative_rank [OF o e v(1)] cur by fastforce
    moreover have "resolveTypeName ast typedefs n = resolveTypeName ast typedefs (tr_name ?a)"
      using v by (subst resolveTypeName.simps) (simp add: current_def)
    ultimately show ?thesis using less [of "tr_name ?a"] by (metis less_imp_le order_trans)
  next
    case False
    have "rank xs (tr_name (hd (alternatives v))) \<le> rank xs n"
      if "getType ast current = Some (SVariant v)" "length (alternatives v) = 1" for v
      using that alternative_rank [OF o e that(1), of "hd (alternatives v)"] cur
      by (cases "alternatives v") auto
    with False cur str show ?thesis
      by (subst resolveTypeName.simps)
        (auto simp: current_def [symmetric] Let_def split: option.split SchemaType.split)
  qed
qed

lemma resolve_alts_return:
  assumes o: "emit_order ast xs" and e: "emittable ast" and ok: "typedefs_ok xs typedefs"
    and below: "\<forall>alt \<in> set alts. rank xs (tr_name alt) < r"
  shows "\<exists>ns. resolve_alts ast typedefs alts = Some ns \<and> length ns = length alts \<and> (\<forall>m \<in> set ns. rank xs m < r)"
  using below
proof (induction alts)
  case (Cons alt alts)
  then obtain ns where ns: "resolve_alts ast typedefs alts = Some ns" "length ns = length alts"
    "\<forall>m \<in> set ns. rank xs m < r" by auto
  obtain m where m: "resolveTypeName ast typedefs (tr_name alt) = Some m" "rank xs m \<le> rank xs (tr_name alt)"
    using resolve_returns [OF o e ok] by blast
  then have "\<exists>m. resolve_alt ast typedefs alt = Some m \<and> rank xs m < r"
    using Cons.prems by (fastforce simp: resolve_alt_def)
  with ns show ?case by auto
qed simp

lemma resolve_inline: "resolve_alts ast typedefs (map (\<lambda>n. TypeRef n True) ns) = Some ns"
  by (induction ns) (simp_all add: resolve_alt_def)

lemma keys_emplace_all:
  "key_set (emplace_all ps seen) = key_set seen \<union> fst ` set ps
    \<and> (distinct (keys seen) \<longrightarrow> distinct (keys (emplace_all ps seen)))"
  by (induction ps seen rule: emplace_all.induct)
    (auto simp: distinct_keys_update insert_absorb key_set_iff)

lemma processVariantAlternatives_spec:
  assumes it: "hash_order it" and ns: "resolve_alts ast typedefs (alternatives v) = Some ns"
    and len: "length ns = length (alternatives v)"
  shows "\<exists>ms. processVariantAlternatives it ast typedefs v
      = Some (map (\<lambda>n. TypeRef n True) ms, length ms = 1 \<and> \<not> is_nullable v)
    \<and> distinct ms \<and> set ms = set ns"
proof -
  let ?seen = "emplace_all (zip ns (alternatives v)) []"
  have "key_set ?seen = set ns" "distinct (keys ?seen)"
    using keys_emplace_all [of "zip ns (alternatives v)" "[]"] map_fst_zip [OF len]
    by (simp_all flip: list.set_map)
  then have "set (it (keys ?seen)) = set ns" "distinct (it (keys ?seen))"
    using it by (simp_all add: hash_order_key_set hash_order_distinct)
  with ns show ?thesis
    by (intro exI [of _ "it (keys ?seen)"]) (simp add: processVariantAlternatives_def Let_def)
qed

text \<open>The emitter's state when all the types of rank below \<open>r\<close> are out.\<close>

definition emit_inv :: "string list \<Rightarrow> nat \<Rightarrow> DefsEmitState \<Rightarrow> bool" where
  "emit_inv xs r st \<longleftrightarrow> typedefs_ok xs (typedef_chain st)
     \<and> (\<forall>s t. map_of (variant_signatures st) s = Some t \<longrightarrow> rank xs t < r)"

lemma emit_inv_init: "emit_inv xs r empty_emit_state"
  by (simp add: emit_inv_def empty_emit_state_def typedefs_ok_def)

lemma emit_inv_mono: "emit_inv xs r st \<Longrightarrow> r \<le> r' \<Longrightarrow> emit_inv xs r' st"
  unfolding emit_inv_def by (meson less_le_trans)

text \<open>A block defines a name when, after its comment, it opens with the name's declaration.\<close>

definition is_comment :: "string \<Rightarrow> bool" where
  "is_comment doc \<longleftrightarrow> doc = [] \<or> prefix (line [''/**'']) doc \<and> suffix (line ['' */'']) doc"

definition defines_name :: "string \<Rightarrow> string \<Rightarrow> bool" where
  "defines_name n block \<longleftrightarrow> (\<exists>doc key rest. block = doc @ key @ n @ rest
     \<and> key \<in> {''struct '', ''using '', ''enum class ''} \<and> is_comment doc)"

lemma defines_nameI:
  "is_comment doc \<Longrightarrow> key \<in> {''struct '', ''using '', ''enum class ''} \<Longrightarrow> defines_name n (doc @ key @ n @ rest)"
  unfolding defines_name_def by blast

lemma comments: "is_comment (doc_comment d)" "is_comment (values_comment p)"
  by (auto simp: is_comment_def doc_comment_def values_comment_def suffix_def)

lemma line_eq: "line (s # ss) = s @ line ss"
  by (simp add: line_def)

lemma using_defines: "is_comment doc \<Longrightarrow> defines_name n (doc @ emit_using n t @ rest)"
  using defines_nameI [of doc "''using ''" n "line ['' = '', t, '';''] @ rest"]
  by (simp add: emit_using_def line_def)

lemma block_defines:
  "defines_name (st_name s) (emitStruct s @ rest)"
  "defines_name (et_name e) (emitEnum e @ rest)"
  "defines_name n (emitEnumFromPrimitive n p @ rest)"
  "defines_name n (emitPrimitiveTypedef n p @ rest)"
  "defines_name n (emitArrayAlias n a @ rest)"
  "defines_name n (emitMapAlias n m @ rest)"
proof -
  have head: "defines_name m (doc @ line (key # m # parts) @ r)"
    if "is_comment doc" "key \<in> {''struct '', ''using '', ''enum class ''}" for m doc key parts r
    using defines_nameI [OF that, of m "line parts @ r"] by (simp only: line_eq append_assoc)
  show "defines_name (st_name s) (emitStruct s @ rest)"
    unfolding emitStruct_def append_assoc by (rule head) (simp_all add: comments)
  show "defines_name (et_name e) (emitEnum e @ rest)"
    unfolding emitEnum_def append_assoc by (rule head) (simp_all add: comments)
  show "defines_name n (emitEnumFromPrimitive n p @ rest)"
    unfolding emitEnumFromPrimitive_def append_assoc by (rule head) (simp_all add: comments)
  show "defines_name n (emitPrimitiveTypedef n p @ rest)"
    unfolding emitPrimitiveTypedef_def append_assoc by (rule using_defines) (rule comments)
  show "defines_name n (emitArrayAlias n a @ rest)" "defines_name n (emitMapAlias n m @ rest)"
    using using_defines [of "[]"] by (simp_all add: emitArrayAlias_def emitMapAlias_def is_comment_def)
qed

lemma own_names:
  assumes "emittable ast"
  shows "getType ast n = Some (SStruct s) \<Longrightarrow> st_name s = n"
    and "getType ast n = Some (SVariant v) \<Longrightarrow> vt_name v = n"
    and "getType ast n = Some (SEnum m) \<Longrightarrow> et_name m = n"
  using assms unfolding emittable_def own_name_def by fastforce+

lemma emitVariant_spec:
  assumes it: "hash_order it" and o: "emit_order ast xs" and e: "emittable ast"
    and inv: "emit_inv xs (rank xs n) st" and t: "getType ast n = Some (SVariant v)"
  shows "\<exists>block st'. emitVariant it ast v st = Some (block, st') \<and> emit_inv xs (Suc (rank xs n)) st'
    \<and> defines_name n (block @ rest)"
proof (cases "alternatives v = [] \<and> \<not> is_nullable v")
  case True
  have "vt_name v = n" using own_names(2) [OF e t] .
  with True show ?thesis
    using emit_inv_mono [OF inv, of "Suc (rank xs n)"] using_defines [OF comments(1)]
    by (simp add: emitVariant_def)
next
  case False
  have name: "vt_name v = n" using own_names(2) [OF e t] .
  have ok: "typedefs_ok xs (typedef_chain st)" using inv by (simp add: emit_inv_def)
  obtain ns where ns: "resolve_alts ast (typedef_chain st) (alternatives v) = Some ns"
    "length ns = length (alternatives v)" "\<forall>m \<in> set ns. rank xs m < rank xs n"
    using resolve_alts_return [OF o e ok] alternative_rank [OF o e t] by blast
  from processVariantAlternatives_spec [OF it ns(1,2)] obtain ms where
    ms: "processVariantAlternatives it ast (typedef_chain st) v
      = Some (map (\<lambda>n. TypeRef n True) ms, length ms = 1 \<and> \<not> is_nullable v)" "set ms = set ns" by blast
  have one: "rank xs (tr_name (hd (map (\<lambda>n. TypeRef n True) ms))) < rank xs n" if "length ms = 1"
    using that ns(3) ms(2) by (cases ms) auto
  have sig: "getVariantSignature ast (typedef_chain st) (map (\<lambda>n. TypeRef n True) ms)
      = Some (''variant<'' @ sep_join '','' ms @ ''>'')"
    by (simp add: getVariantSignature_def resolve_inline)
  have upd: "typedefs_ok xs (AList.update n t (typedef_chain st))" if "rank xs t < rank xs n" for t
    using ok that by (simp add: typedefs_ok_def map_of_update)
  show ?thesis
    unfolding emitVariant_def
    using False ms(1) sig inv upd one using_defines [OF comments(1)]
    by (auto simp: Let_def name emit_inv_def map_of_update less_SucI split: option.split)
qed

lemma emit_definition_spec:
  assumes it: "hash_order it" and o: "emit_order ast xs" and e: "emittable ast"
    and inv: "emit_inv xs (rank xs n) st" and t: "getType ast n = Some type"
  shows "\<exists>block st'. emit_definition it ast n type st = Some (block, st') \<and> emit_inv xs (Suc (rank xs n)) st'
    \<and> defines_name n (block @ rest)"
proof (cases type)
  case (SVariant v)
  with emitVariant_spec [OF it o e inv] t show ?thesis by (simp add: emit_definition_def)
next
  case (SStruct s)
  with own_names(1) [OF e] t block_defines(1) [of s] emit_inv_mono [OF inv, of "Suc (rank xs n)"]
  show ?thesis by (simp add: emit_definition_def)
next
  case (SEnum m)
  with own_names(3) [OF e] t block_defines(2) [of m] emit_inv_mono [OF inv, of "Suc (rank xs n)"]
  show ?thesis by (simp add: emit_definition_def)
qed (simp_all add: emit_definition_def block_defines emit_inv_mono [OF inv])

lemma emit_definitions_spec:
  assumes it: "hash_order it" and o: "emit_order ast xs" and e: "emittable ast"
  shows "xs = zs @ ys \<Longrightarrow> emit_inv xs (Suc (length zs)) st \<Longrightarrow>
    \<exists>blocks st'. emit_definitions it ast ys st = Some (blocks, st') \<and> map fst blocks = ys
      \<and> (\<forall>(n, block) \<in> set blocks. defines_name n block)"
proof (induction ys arbitrary: zs st)
  case (Cons y ys)
  have "distinct xs" using o by (simp add: emit_order_def)
  then have r: "rank xs y = Suc (length zs)" using Cons.prems(1) by (simp add: rank_append)
  obtain type where t: "getType ast y = Some type"
    using o Cons.prems(1) emit_order_hasType [OF o, of y] by (auto simp: hasType_def)
  obtain block st' where b: "emit_definition it ast y type st = Some (block, st')"
    "emit_inv xs (Suc (Suc (length zs))) st'" "defines_name y (block @ line [])"
    using emit_definition_spec [OF it o e _ t, of st "line []"] Cons.prems(2) unfolding r by blast
  from Cons.IH [of "zs @ [y]" st'] b(2) Cons.prems(1) obtain blocks st'' where
    "emit_definitions it ast ys st' = Some (blocks, st'')" "map fst blocks = ys"
    "\<forall>(n, block) \<in> set blocks. defines_name n block" by auto
  with t b show ?case by auto
qed simp

lemma all_some_Some: "\<forall>x \<in> set xs. \<exists>y. x = Some y \<Longrightarrow> \<exists>ys. all_some xs = Some ys"
  by (induction xs) auto

lemma emit_serialization_returns:
  assumes it: "hash_order it" and o: "emit_order ast xs" and e: "emittable ast"
    and t: "getType ast n = Some type"
  shows "\<exists>text. emit_serialization it ast empty_emit_state (n, type) = Some text"
proof (cases type)
  case (SVariant v)
  have ok: "typedefs_ok xs []" by (simp add: typedefs_ok_def)
  obtain ns where ns: "resolve_alts ast [] (alternatives v) = Some ns" "length ns = length (alternatives v)"
    using resolve_alts_return [OF o e ok] alternative_rank [OF o e] t SVariant by blast
  from processVariantAlternatives_spec [OF it ns] obtain ms where
    "processVariantAlternatives it ast [] v = Some (map (\<lambda>n. TypeRef n True) ms, length ms = 1 \<and> \<not> is_nullable v)"
    by blast
  with SVariant show ?thesis
    by (simp add: emit_serialization_def emitVariantSerialization_def preprocess_def empty_emit_state_def
        getVariantSignature_def resolve_inline)
qed (simp_all add: emit_serialization_def)

text \<open>Whatever sorts the types as the emitters ask, both files come out.\<close>

context type_sorter
begin

lemma generateDefsHpp_blocks:
  assumes "hash_order it" and "wf_ast ast" and "emittable ast" and "\<not> has_cycles (sorter it ast)"
  shows "\<exists>blocks. generateDefsHpp it ns (sorter it ast) ast
      = Some (defs_preamble ns ast (ordered_types (sorter it ast)) @ concat (map snd blocks)
          @ defs_conversions ns ast (ordered_types (sorter it ast)))
    \<and> map fst blocks = ordered_types (sorter it ast) \<and> (\<forall>(n, block) \<in> set blocks. defines_name n block)"
proof -
  from emit_definitions_spec [OF assms(1) sorted [OF assms(1,2,4)] assms(3), of "[]", OF _ emit_inv_init]
  obtain blocks st' where "emit_definitions it ast (ordered_types (sorter it ast)) empty_emit_state = Some (blocks, st')"
    "map fst blocks = ordered_types (sorter it ast)" "\<forall>(n, block) \<in> set blocks. defines_name n block" by auto
  then show ?thesis
    by (auto simp: generateDefsHpp_def intro!: exI [of _ blocks])
qed

lemma generateDefsCpp_returns:
  assumes "hash_order it" and "wf_ast ast" and "emittable ast" and "\<not> has_cycles (sorter it ast)"
  shows "\<exists>text. generateDefsCpp it ns (sorter it ast) ast = Some text"
proof -
  have "\<exists>ys. all_some (map (emit_serialization it ast empty_emit_state)
      (the_types ast (ordered_types (sorter it ast)))) = Some ys"
  proof (rule all_some_Some, intro ballI)
    fix x
    assume "x \<in> set (map (emit_serialization it ast empty_emit_state) (the_types ast (ordered_types (sorter it ast))))"
    then obtain n type where "getType ast n = Some type" "x = emit_serialization it ast empty_emit_state (n, type)"
      by (auto simp: the_types_def map_filter_def)
    then show "\<exists>y. x = Some y"
      using emit_serialization_returns [OF assms(1) sorted [OF assms(1,2,4)] assms(3)] by blast
  qed
  then show ?thesis by (auto simp: generateDefsCpp_def)
qed

lemma DefsGenerator_blocks:
  assumes "hash_order it" and "wf_ast ast" and "emittable ast" and "\<not> has_cycles (sorter it ast)"
  shows "\<exists>blocks cpp. DefsGenerator it ns (sorter it ast) ast
      = Some [(DEFS_HPP, defs_preamble ns ast (map fst blocks) @ concat (map snd blocks)
                @ defs_conversions ns ast (map fst blocks)), (DEFS_CPP, cpp)]
    \<and> emit_order ast (map fst blocks) \<and> (\<forall>(n, block) \<in> set blocks. defines_name n block)"
proof -
  obtain blocks where b: "generateDefsHpp it ns (sorter it ast) ast
      = Some (defs_preamble ns ast (map fst blocks) @ concat (map snd blocks) @ defs_conversions ns ast (map fst blocks))"
    "map fst blocks = ordered_types (sorter it ast)" "\<forall>(n, block) \<in> set blocks. defines_name n block"
    using generateDefsHpp_blocks [OF assms, of ns] by metis
  obtain cpp where "generateDefsCpp it ns (sorter it ast) ast = Some cpp"
    using generateDefsCpp_returns [OF assms] by blast
  with b sorted [OF assms(1,2,4)] show ?thesis
    by (intro exI [of _ blocks] exI [of _ cpp]) (simp add: DefsGenerator_def)
qed

end

section \<open>What the conversions do\<close>

text \<open>The \<open>switch\<close> and the chain of comparisons that \<open>emitEnumFromPrimitiveSerialization\<close> writes,
  over the table of enumerators and values; an enumeration value is its enumerator.\<close>

definition run_enum_to_json :: "(string \<times> string) list \<Rightarrow> string \<Rightarrow> string" where
  "run_enum_to_json nvs e = (case map_of nvs e of Some v \<Rightarrow> v | None \<Rightarrow> [])"

definition run_enum_from_json :: "(string \<times> string) list \<Rightarrow> string \<Rightarrow> string" where
  "run_enum_from_json nvs str =
     (if str = [] then default_enum nvs
      else case find (\<lambda>nv. snd nv = str) nvs of Some nv \<Rightarrow> fst nv | None \<Rightarrow> default_enum nvs)"

text \<open>The object that \<open>emitStructSerialization\<close> fills: the members of every base's object in turn,
  then the fields; and what reading it back gives a field.\<close>

definition run_struct_to_json :: "StructType \<Rightarrow> (string, 'v) umap list \<Rightarrow> 'v list \<Rightarrow> (string, 'v) umap" where
  "run_struct_to_json s base_objs vals =
     foldl (\<lambda>obj (k, v). AList.update k v obj) [] (concat base_objs @ zip (map mb_name (st_fields s)) vals)"

definition run_field_from_json :: "(string, 'v) umap \<Rightarrow> Member \<Rightarrow> 'v \<Rightarrow> 'v" where
  "run_field_from_json obj f old = (case map_of obj (mb_name f) of Some v \<Rightarrow> v | None \<Rightarrow> old)"

lemma map_of_updates: "map_of (foldl (\<lambda>obj (k, v). AList.update k v obj) m ps) = map_of m ++ map_of (rev ps)"
  by (induction ps arbitrary: m) (auto simp: map_of_update map_add_def fun_eq_iff split: option.split)

lemma find_snd_unique:
  "(n, v) \<in> set nvs \<Longrightarrow> distinct (map snd nvs) \<Longrightarrow> find (\<lambda>nv. snd nv = v) nvs = Some (n, v)"
  by (induction nvs) (auto simp: rev_image_eqI)

lemma map_of_rev_distinct: "distinct (map fst ps) \<Longrightarrow> map_of (rev ps) = map_of ps"
  by (subst map_of_inject_set) (simp_all flip: rev_map)

section \<open>Properties\<close>


lemma emittable_sample: "emittable sample_ast"
  by (auto simp: emittable_def own_name_def sample_ast_def isSyntheticCppType_def split: if_splits)


text \<open>C32: alternatives of a variant. The list that is emitted holds every resolved alternative once,
  whatever the iteration order, and the variant collapses to an alias exactly when they all resolve
  to one type and it is not nullable.\<close>

theorem variant_alternatives_distinct:
  assumes "hash_order it" and "emit_order ast xs" and "emittable ast" and "typedefs_ok xs typedefs"
    and "getType ast n = Some (SVariant v)"
  shows "\<exists>ns ms. resolve_alts ast typedefs (alternatives v) = Some ns
    \<and> processVariantAlternatives it ast typedefs v
        = Some (map (\<lambda>m. TypeRef m True) ms, card (set ns) = 1 \<and> \<not> is_nullable v)
    \<and> distinct ms \<and> set ms = set ns \<and> (\<forall>m \<in> set ms. rank xs m < rank xs n)"
proof -
  obtain ns where ns: "resolve_alts ast typedefs (alternatives v) = Some ns"
    "length ns = length (alternatives v)" "\<forall>m \<in> set ns. rank xs m < rank xs n"
    using resolve_alts_return [OF assms(2-4)] alternative_rank [OF assms(2,3,5)] by blast
  with processVariantAlternatives_spec [OF assms(1) ns(1,2)] show ?thesis
    by (metis distinct_card)
qed

definition variant_ast :: NormalizedAST where
  "variant_ast = addType ''Id'' (SVariant \<lparr>vt_name = ''Id'',
      alternatives = [TypeRef ''Name'' False, TypeRef ''std::string'' True], is_nullable = False,
      discriminator_property = None, vt_description = []\<rparr>)
    (addType ''Name'' (SPrimitive \<lparr>pt_kind = PK_Integer, int_format = None, num_format = None, str_format = None,
      enum_values = [], pt_description = []\<rparr>) empty_ast)"

theorem variant_alternatives_distinct_witness:
  "processVariantAlternatives rev variant_ast []
     \<lparr>vt_name = ''Id'', alternatives = [TypeRef ''Name'' False, TypeRef ''std::string'' True],
      is_nullable = False, discriminator_property = None, vt_description = []\<rparr>
   = Some ([TypeRef ''std::string'' True], True)"
proof -
  let ?v = "\<lparr>vt_name = ''Id'', alternatives = [TypeRef ''Name'' False, TypeRef ''std::string'' True],
      is_nullable = False, discriminator_property = None, vt_description = []\<rparr>"
  have "type_edges variant_ast = {(''Id'', ''Name'')}"
    by (auto simp: type_edges_def variant_ast_def dep_targets_def type_deps_def alternative_dep_def
        isSyntheticCppType_def vector_prefix_def map_prefix_def split: if_splits)
  moreover have "key_set (ast_types variant_ast) = {''Name'', ''Id''}"
    unfolding variant_ast_def addType_def empty_ast_def by (simp only: NormalizedAST.simps key_set_update) auto
  ultimately have o: "emit_order variant_ast [''Name'', ''Id'']"
    by (simp add: emit_order_def) blast
  have e: "emittable variant_ast"
    by (auto simp: emittable_def own_name_def variant_ast_def isSyntheticCppType_def split: if_splits)
  have ns: "resolve_alts variant_ast [] (alternatives ?v) = Some [''std::string'', ''std::string'']"
    by (simp add: resolve_alt_def, subst resolveTypeName.simps)
      (simp add: variant_ast_def follow_chain.simps)
  have "getType variant_ast ''Id'' = Some (SVariant ?v)" by (simp add: variant_ast_def)
  from variant_alternatives_distinct [OF hash_order_rev o e _ this, of "[]"] obtain ms names where
    "resolve_alts variant_ast [] (alternatives ?v) = Some names" and
    ms: "processVariantAlternatives rev variant_ast [] ?v
        = Some (map (\<lambda>m. TypeRef m True) ms, card (set names) = 1 \<and> \<not> is_nullable ?v)"
      "distinct ms" "set ms = set names"
    unfolding typedefs_ok_def by auto
  with ns have names: "names = [''std::string'', ''std::string'']" by (simp only: option.inject)
  with ms(2,3) have "ms = [''std::string'']" by (cases ms; cases "tl ms") auto
  with ms(1) names show ?thesis by simp
qed

text \<open>Enumerations. When the enumerators are distinct (otherwise the emitted enumeration does not
  compile), the string of an enumerator reads back as that enumerator, and every string that is no
  value of the enumeration reads back, silently, as the first enumerator.\<close>

theorem enum_json_roundtrip:
  assumes "distinct (map fst (primitive_enum p))" and "v \<in> set (enum_values p)" and "v \<noteq> []"
  shows "run_enum_to_json (primitive_enum p) (sanitize_enum_identifier v) = v
    \<and> run_enum_from_json (primitive_enum p) v = sanitize_enum_identifier v
    \<and> (w \<notin> set (enum_values p) \<longrightarrow>
        run_enum_from_json (primitive_enum p) w = sanitize_enum_identifier (hd (enum_values p)))"
proof -
  let ?t = "primitive_enum p"
  have mem: "(sanitize_enum_identifier v, v) \<in> set ?t" using assms(2) by (simp add: primitive_enum_def)
  have "map snd ?t = enum_values p" by (simp add: primitive_enum_def comp_def)
  moreover have "distinct (enum_values p)"
    using assms(1) by (simp add: primitive_enum_def comp_def distinct_map)
  ultimately have "find (\<lambda>nv. snd nv = v) ?t = Some (sanitize_enum_identifier v, v)"
    using find_snd_unique [OF mem] by simp
  moreover have "map_of ?t (sanitize_enum_identifier v) = Some v"
    using mem assms(1) by simp
  moreover have "find (\<lambda>nv. snd nv = w) ?t = None" if "w \<notin> set (enum_values p)"
    using that by (auto simp: find_None_iff primitive_enum_def)
  moreover have "default_enum ?t = sanitize_enum_identifier (hd (enum_values p))"
    using assms(2) by (cases "enum_values p") (simp_all add: default_enum_def primitive_enum_def)
  ultimately show ?thesis
    using assms(3) by (simp add: run_enum_to_json_def run_enum_from_json_def)
qed

definition colour_enum :: PrimitiveType where
  "colour_enum = \<lparr>pt_kind = PK_String, int_format = None, num_format = None, str_format = None,
     enum_values = [''dark-red'', ''default''], pt_description = []\<rparr>"

lemma sanitize_colours:
  "sanitize_enum_identifier ''dark-red'' = ''dark_red''" "sanitize_enum_identifier ''default'' = ''default_''"
  by code_simp+

theorem enum_json_roundtrip_witness:
  "run_enum_from_json (primitive_enum colour_enum) ''default'' = ''default_''
    \<and> run_enum_from_json (primitive_enum colour_enum) ''blue'' = ''dark_red''"
proof -
  have "distinct (map fst (primitive_enum colour_enum))"
    by (simp add: primitive_enum_def colour_enum_def sanitize_colours)
  from enum_json_roundtrip [OF this, of "''default''" "''blue''"] show ?thesis
    by (simp add: colour_enum_def sanitize_colours)
qed

definition new_field :: "string \<Rightarrow> Member" where
  "new_field n = \<lparr>mb_name = n, mb_type = TypeRef ''int64_t'' True, mb_required = False, default_value = None,
     mb_description = []\<rparr>"



end
