(* ===== verification/Python_Gen.thy ===== *)
theory Python_Gen
  imports Client_Gen Server_Gen
begin

text \<open>
  \<open>generator/src/Backend/Beast/BeastPythonGen.cpp\<close> and \<open>BeastServerPythonGen.cpp\<close>: the emitters
  of the two Python extension modules, a wrapper of the generated client and a trampoline of the
  generated server.
\<close>

section \<open>The client module\<close>

definition emitModulePreamble :: "string \<Rightarrow> string" where
  "emitModulePreamble module_name =
       line [''// Auto-generated Python extension module'']
     @ line [''// Generated by siesta-generator'']
     @ line [''//'']
     @ line [''// Build instructions:'']
     @ line [''//   1. Ensure nanobind is available (find_package(nanobind 2.12 REQUIRED))'']
     @ line [''//   2. Link against siesta, boost::json, boost::system'']
     @ line [''//   3. Use: nanobind_add_module('', module_name, '' '', module_name, ''.cpp)'']
     @ line []
     @ line [''#include <nanobind/nanobind.h>'']
     @ line [''#include <nanobind/stl/string.h>'']
     @ line [''#include <nanobind/stl/optional.h>'']
     @ line [''#include <nanobind/stl/variant.h>'']
     @ line [''#include <nanobind/stl/vector.h>'']
     @ line [''#include <nanobind/stl/shared_ptr.h>'']
     @ line []
     @ line [''#include <boost/asio/use_future.hpp>'']
     @ line [''#include <boost/json.hpp>'']
     @ line [''#include <future>'']
     @ line []
     @ line [''#include <siesta/beast/python_util.hpp>'']
     @ line [''#include '', quoted CLIENT_HPP]
     @ line [''#include '', quoted DEFS_HPP]
     @ line []
     @ line [''namespace nb = nanobind;'']
     @ line [''using namespace siesta::beast::py;'']
     @ line []"

text \<open>The documentation string has an escaper of its own.\<close>

definition escape_doc_char :: "char \<Rightarrow> string" where
  "escape_doc_char c =
     (if c = dq then [bs, dq] else if c = bs then [bs, bs] else if c = nl then bs # ''n'' else [c])"

definition escape_doc :: "string \<Rightarrow> string" where
  "escape_doc doc = concat (map escape_doc_char doc)"

definition wrapper_doc :: "Endpoint \<Rightarrow> string" where
  "wrapper_doc ep = (if ep_description ep = [] then ep_summary ep else ep_description ep)"

definition has_trailing :: "Endpoint \<Rightarrow> bool" where
  "has_trailing ep \<longleftrightarrow> has_request_body ep \<or> ep_params ep \<noteq> [] \<or> wrapper_doc ep \<noteq> []"

definition wrapper_param :: "ClientParam \<Rightarrow> string" where
  "wrapper_param p =
     (if \<not> cp_required p then ''std::optional<'' @ cpp_type p @ ''> '' @ cp_name p else cpp_type p @ '' '' @ cp_name p)"

definition wrapper_head :: "Endpoint \<Rightarrow> string" where
  "wrapper_head ep =
     line [tabs 2, ''.def('', quoted (function_name ep), '','']
     @ tabs 3 @ ''[](ClientWrapper& self''
     @ (if has_request_body ep then '', const '' @ body_type ep @ ''& body'' else [])
     @ concat (map (\<lambda>p. '', '' @ wrapper_param p) (ep_params ep))
     @ line ['') -> nb::object {'']"

definition wrapper_body :: "Endpoint \<Rightarrow> string" where
  "wrapper_body ep =
     line [tabs 2, ''boost::asio::io_context& ctx = self.ctx;'']
     @ line [tabs 2, ''try {'']
     @ tabs 3 @ ''auto future = self.client->'' @ function_name ep @ ''(''
     @ comma_join ((if has_request_body ep then [''body''] else []) @ map cp_name (ep_params ep)
         @ [''boost::asio::use_future''])
     @ line ['');'']
     @ line [tabs 3, ''ctx.restart();'']
     @ line [tabs 3, ''ctx.run();'']
     @ line [tabs 3, ''auto outcome = future.get();'']
     @ line [tabs 3, ''return extract_response_json(outcome);'']
     @ line [tabs 2, ''} catch (const std::exception& e) {'']
     @ line [tabs 3, ''nb::dict err;'']
     @ line [tabs 3, ''err['', quoted ''error'', ''] = nb::str(e.what());'']
     @ line [tabs 3, ''return err;'']
     @ line [tabs 2, ''}'']"

definition wrapper_arg :: "ClientParam \<Rightarrow> string" where
  "wrapper_arg p = ''nb::arg('' @ quoted (cp_name p) @ '')'' @ (if \<not> cp_required p then '' = nb::none()'' else [])"

definition wrapper_args :: "Endpoint \<Rightarrow> string" where
  "wrapper_args ep =
     (if has_request_body ep \<or> ep_params ep \<noteq> [] then
        tabs 2
        @ comma_join ((if has_request_body ep then [''nb::arg('' @ quoted ''body'' @ '')''] else [])
            @ map wrapper_arg (ep_params ep))
        @ line ['','']
      else [])"

definition emitEndpointWrapper :: "Endpoint \<Rightarrow> bool \<Rightarrow> string" where
  "emitEndpointWrapper ep is_last =
     wrapper_head ep @ wrapper_body ep
     @ (if has_trailing ep then line [tabs 2, ''},'']
        else if is_last then line [tabs 2, ''});'']
        else line [tabs 2, ''),''])
     @ wrapper_args ep
     @ (if wrapper_doc ep \<noteq> [] then line [tabs 2, quoted (escape_doc (wrapper_doc ep))] else [])
     @ (if has_trailing ep then (if is_last then line [tabs 2, '');''] else line [tabs 2, '')'']) else [])"

text \<open>The loop over the endpoints; the last one closes the statement.\<close>

fun emit_wrappers :: "Endpoint list \<Rightarrow> string" where
  "emit_wrappers [] = []"
| "emit_wrappers (ep # eps) = line [] @ emitEndpointWrapper ep (eps = []) @ emit_wrappers eps"

definition emitModuleBody :: "string \<Rightarrow> string \<Rightarrow> Endpoint list \<Rightarrow> string" where
  "emitModuleBody module_name ns endpoints =
     (let auth = detectAuth endpoints
      in line [''// Python extension module definition'']
         @ line [''// The module name should match the shared library name (e.g., Echo_API.so -> Echo_API)'']
         @ line []
         @ line [''struct ClientWrapper {'']
         @ line [tabs 1, ''boost::asio::io_context ctx;'']
         @ line [tabs 1, ''std::shared_ptr<'', ns, ''::Client> client;'']
         @ (if ai_type auth \<noteq> Auth_None then
              line [tabs 1, ''ClientWrapper(std::string host = '', quoted ''localhost'', '', uint16_t port = 443, std::string '', ai_name auth, '' = '', quoted [], '')'']
              @ line [tabs 2, '': client(std::make_shared<'', ns, ''::Client>(ctx, std::move('', ai_name auth, ''))) {'']
            else
              line [tabs 1, ''ClientWrapper(std::string host = '', quoted ''localhost'', '', uint16_t port = 443)'']
              @ line [tabs 2, '': client(std::make_shared<'', ns, ''::Client>(ctx)) {''])
         @ line [tabs 2, ''client->start(boost::asio::ip::make_address(host), port);'']
         @ line [tabs 2, ''ctx.run();'']
         @ line [tabs 1, ''}'']
         @ line [tabs 1, ''~ClientWrapper() { client->stop(); }'']
         @ line [tabs 1, ''auto& context() { return ctx; }'']
         @ line [tabs 1, ''void start(std::string host, uint16_t port) {'']
         @ line [tabs 2, ''client->stop();'']
         @ line [tabs 2, ''client->start(boost::asio::ip::make_address(host), port);'']
         @ line [tabs 2, ''ctx.restart();'']
         @ line [tabs 2, ''ctx.run();'']
         @ line [tabs 1, ''}'']
         @ line [tabs 1, ''void stop() { client->stop(); }'']
         @ line [''};'']
         @ line []
         @ line [''NB_MODULE('', module_name, '', m) {'']
         @ line [tabs 1, ''m.doc() = '', quoted ''Siesta-generated Python bindings for OpenAPI client'', '';'']
         @ line []
         @ line [tabs 1, ''// Client class wrapping the C++ siesta client'']
         @ (if ai_type auth \<noteq> Auth_None then
              line [tabs 1, ''nb::class_<ClientWrapper>(m, '', quoted ''Client'', '')'']
              @ line [tabs 2, ''.def(nb::init<std::string, uint16_t, std::string>(), nb::arg('', quoted ''host'', '') = std::string('', quoted ''localhost'', ''), '', ''nb::arg('', quoted ''port'', '') = 443, nb::arg('', quoted (ai_name auth), '') = std::string('', quoted [], ''))'']
            else
              line [tabs 1, ''nb::class_<ClientWrapper>(m, '', quoted ''Client'', '')'']
              @ line [tabs 2, ''.def(nb::init<std::string, uint16_t>(), nb::arg('', quoted ''host'', '') = std::string('', quoted ''localhost'', ''), '', ''nb::arg('', quoted ''port'', '') = 443)''])
         @ line [tabs 2, ''.def('', quoted ''start'', '', &ClientWrapper::start, nb::arg('', quoted ''host'', ''), nb::arg('', quoted ''port'', ''))'']
         @ line [tabs 2, ''.def('', quoted ''stop'', '', &ClientWrapper::stop)'']
         @ emit_wrappers endpoints
         @ line [''}''])"

definition BeastPythonGenerator :: "string \<Rightarrow> string \<Rightarrow> Endpoint list \<Rightarrow> (string \<times> string) list" where
  "BeastPythonGenerator module_name ns endpoints =
     (if endpoints = [] then []
      else [(PY_MODULE, emitModulePreamble module_name @ emitModuleBody module_name ns endpoints)])"

section \<open>The server module\<close>

text \<open>The statement that builds the body of a 500 response: the message is put between quotes as it is.\<close>

definition error_body :: string where
  "error_body = ''resp.body() = std::string('' @ [dq] @ ''{'' @ [bs, dq] @ ''error'' @ [bs, dq] @ '':'' @ [bs, dq, dq]
     @ '') + e.what() + '' @ [dq, bs, dq] @ ''}'' @ [dq] @ '';''"

definition server_py_preamble :: "string \<Rightarrow> string" where
  "server_py_preamble ns =
     line [''// Auto-generated Python server bindings'']
     @ line [''// Generated by siesta-generator'']
     @ line []
     @ line [''#include <nanobind/nanobind.h>'']
     @ line [''#include <nanobind/stl/string.h>'']
     @ line [''#include <nanobind/stl/vector.h>'']
     @ line [''#include <nanobind/stl/shared_ptr.h>'']
     @ line [''#include <nanobind/trampoline.h>'']
     @ line []
     @ line [''#include <boost/asio.hpp>'']
     @ line [''#include <boost/asio/ip/address.hpp>'']
     @ line [''#include <boost/beast/core.hpp>'']
     @ line [''#include <boost/beast/http.hpp>'']
     @ line [''#include <boost/beast/http/field.hpp>'']
     @ line [''#include <thread>'']
     @ line []
     @ line [''#include '', quoted SERVER_HPP]
     @ line []
     @ line [''namespace nb = nanobind;'']
     @ line [''namespace http = ::boost::beast::http;'']
     @ line []
     @ line [''namespace {'']
     @ line []
     @ line [''// Convert an HTTP request to a Python dict'']
     @ line [''nb::dict request_to_dict(const '', ns, ''::Server::request& req) {'']
     @ line [tabs 1, ''nb::dict d;'']
     @ line [tabs 1, ''{'']
     @ line [tabs 2, ''std::string tmp = std::string(req.method_string());'']
     @ line [tabs 2, ''d['', quoted ''method'', ''] = nb::str(tmp.c_str(), tmp.size());'']
     @ line [tabs 1, ''}'']
     @ line [tabs 1, ''{'']
     @ line [tabs 2, ''std::string tmp = std::string(req.target());'']
     @ line [tabs 2, ''d['', quoted ''target'', ''] = nb::str(tmp.c_str(), tmp.size());'']
     @ line [tabs 1, ''}'']
     @ line [tabs 1, ''d['', quoted ''body'', ''] = nb::str(req.body().c_str(), req.body().size());'']
     @ line [tabs 1, ''nb::dict headers;'']
     @ line [tabs 1, ''for (const auto& h : req) {'']
     @ line [tabs 2, ''std::string key(h.name_string());'']
     @ line [tabs 2, ''std::string val(h.value());'']
     @ line [tabs 2, ''headers[nb::str(key.c_str(), key.size())] = nb::str(val.c_str(), val.size());'']
     @ line [tabs 1, ''}'']
     @ line [tabs 1, ''d['', quoted ''headers'', ''] = std::move(headers);'']
     @ line [tabs 1, ''return d;'']
     @ line [''}'']
     @ line []
     @ line [''// Write a Python object as a JSON HTTP response'']
     @ line [''void write_json_response(const '', ns, ''::Server::Session::Ptr& session, const nb::object& result) {'']
     @ line [tabs 1, ''auto& resp = session->get_response();'']
     @ line [tabs 1, ''try {'']
     @ line [tabs 2, ''nb::object json_mod = nb::module_::import_('', quoted ''json'', '');'']
     @ line [tabs 2, ''nb::str body = nb::cast<nb::str>(json_mod.attr('', quoted ''dumps'', '')(result));'']
     @ line [tabs 2, ''resp.body() = nb::cast<std::string>(body);'']
     @ line [tabs 2, ''resp.result(http::status::ok);'']
     @ line [tabs 2, ''resp.set(http::field::content_type, '', quoted ''application/json'', '');'']
     @ line [tabs 2, ''resp.prepare_payload();'']
     @ line [tabs 1, ''} catch (const std::exception& e) {'']
     @ line [tabs 2, ''resp.result(http::status::internal_server_error);'']
     @ line [tabs 2, error_body]
     @ line [tabs 2, ''resp.set(http::field::content_type, '', quoted ''application/json'', '');'']
     @ line [tabs 2, ''resp.prepare_payload();'']
     @ line [tabs 1, ''}'']
     @ line [tabs 1, ''session->write();'']
     @ line [''}'']
     @ line []
     @ line [''} // anonymous namespace'']
     @ line []"

definition server_py_class :: "string \<Rightarrow> Endpoint list \<Rightarrow> string" where
  "server_py_class ns endpoints =
     line [''namespace _siesta_detail { struct ServerCtx { boost::asio::io_context ctx; }; }'']
     @ line []
     @ line [''struct PyServer : _siesta_detail::ServerCtx, '', ns, ''::Server {'']
     @ line [tabs 1, ''NB_TRAMPOLINE(Server, '', nat_to_string (length endpoints), '');'']
     @ line [tabs 1, ''std::thread _thread;'']
     @ line []
     @ line [tabs 1, ''PyServer() : '', ns, ''::Server(ctx) {}'']
     @ line [tabs 1, ''~PyServer() {'']
     @ line [tabs 2, ''ctx.stop();'']
     @ line [tabs 2, ''if (_thread.joinable()) _thread.join();'']
     @ line [tabs 1, ''}'']
     @ line []
     @ line [tabs 1, ''void listen(std::string host, uint16_t port) {'']
     @ line [tabs 2, ns, ''::Server::start(boost::asio::ip::make_address(host), port);'']
     @ line [tabs 2, ''_thread = std::thread([this] { ctx.run(); });'']
     @ line [tabs 1, ''}'']
     @ line [tabs 1, ''void shutdown() {'']
     @ line [tabs 2, ''ctx.stop();'']
     @ line [tabs 2, ''if (_thread.joinable()) _thread.join();'']
     @ line [tabs 1, ''}'']
     @ line []"

definition py_handler :: "Endpoint \<Rightarrow> string" where
  "py_handler ep =
     (if ep_summary ep \<noteq> [] then write_multiline_comment (ep_summary ep) (tabs 1) else [])
     @ line [tabs 1, ''void '', function_name ep, ''(const request req, Session::Ptr session) override {'']
     @ line [tabs 2, ''{'']
     @ line [tabs 3, ''nb::gil_scoped_acquire gil;'']
     @ line [tabs 3, ''nb::detail::ticket nb_ticket(nb_trampoline, '', quoted (function_name ep), '', false);'']
     @ line [tabs 3, ''if (nb_ticket.key.is_valid()) {'']
     @ line [tabs 4, ''try {'']
     @ line [tabs 5, ''nb::object result = nb_trampoline.base().attr(nb_ticket.key)(request_to_dict(req));'']
     @ line [tabs 5, ''write_json_response(session, std::move(result));'']
     @ line [tabs 4, ''} catch (const std::exception& e) {'']
     @ line [tabs 5, ''auto& resp = session->get_response();'']
     @ line [tabs 5, ''resp.result(http::status::internal_server_error);'']
     @ line [tabs 5, error_body]
     @ line [tabs 5, ''resp.set(http::field::content_type, '', quoted ''application/json'', '');'']
     @ line [tabs 5, ''resp.prepare_payload();'']
     @ line [tabs 5, ''session->write();'']
     @ line [tabs 4, ''}'']
     @ line [tabs 4, ''return;'']
     @ line [tabs 3, ''}'']
     @ line [tabs 2, ''}'']
     @ line [tabs 2, ''auto& resp = session->get_response();'']
     @ line [tabs 2, ''resp.result(http::status::not_implemented);'']
     @ line [tabs 2, ''session->write();'']
     @ line [tabs 1, ''}'']
     @ line []"

definition server_py_module :: "string \<Rightarrow> string \<Rightarrow> string" where
  "server_py_module module_name ns =
     line [''}; // PyServer'']
     @ line []
     @ line [''NB_MODULE('', module_name, '', m) {'']
     @ line [tabs 1, ''m.doc() = '', quoted ''Siesta-generated Python server bindings'', '';'']
     @ line [tabs 1, ''nb::class_<'', ns, ''::Server, PyServer>(m, '', quoted ''Server'', '')'']
     @ line [tabs 2, ''.def(nb::init<>())'']
     @ line [tabs 2, ''.def('', quoted ''listen'', '', []('', ns, ''::Server& s, std::string host, uint16_t port) {'']
     @ line [tabs 3, ''static_cast<PyServer&>(s).listen(std::move(host), port);'']
     @ line [tabs 2, ''}, nb::arg('', quoted ''host'', '') = std::string('', quoted ''localhost'', ''), nb::arg('', quoted ''port'', '') = 443)'']
     @ line [tabs 2, ''.def('', quoted ''shutdown'', '', []('', ns, ''::Server& s) { static_cast<PyServer&>(s).shutdown(); });'']
     @ line [''}'']"

definition emitServerPy :: "string \<Rightarrow> string \<Rightarrow> Endpoint list \<Rightarrow> string" where
  "emitServerPy module_name ns endpoints =
     server_py_preamble ns @ server_py_class ns endpoints @ concat (map py_handler endpoints)
     @ server_py_module module_name ns"

definition BeastServerPythonGenerator :: "string \<Rightarrow> string \<Rightarrow> Endpoint list \<Rightarrow> (string \<times> string) list" where
  "BeastServerPythonGenerator module_name ns endpoints =
     (if endpoints = [] then [] else [(SERVER_PY, emitServerPy module_name ns endpoints)])"

section \<open>Properties\<close>

lemma lex_escape_doc_char:
  "lex_literal_body s = Some (v, r) \<Longrightarrow> lex_literal_body (escape_doc_char c @ s) = Some (c # v, r)"
  by (cases s) (auto simp: escape_doc_char_def escape_value_def)

interpretation doc: char_codec escape_doc_char cpp_unescape
proof
  show "cpp_unescape [] = []" by simp
  show "cpp_unescape (escape_doc_char c @ s) = c # cpp_unescape s" for c s
    by (cases s) (auto simp: escape_doc_char_def escape_value_def)
qed

text \<open>The documentation string of a wrapper is one C++ literal with the endpoint's description (or
  else summary) as its value, whatever characters it has.\<close>

lemma python_doc_literal:
  "lex_string_literal (quoted (escape_doc s) @ rest) = Some (s, rest) \<and> cpp_unescape (escape_doc s) = s"
proof -
  have "lex_literal_body (concat (map escape_doc_char s) @ dq # rest) = Some (s, rest)"
  proof (induction s)
    case Nil
    show ?case by (cases rest) auto
  next
    case (Cons c s)
    from lex_escape_doc_char [OF this] show ?case by simp
  qed
  then show ?thesis
    by (simp add: quoted_def escape_doc_def lex_string_literal_def doc.roundtrip)
qed

text \<open>Opening braces less closing ones.\<close>

definition braces_open :: "string \<Rightarrow> int" where
  "braces_open s = int (count_list s obrace) - int (count_list s cbrace)"

lemma braces_open_simps [simp]:
  "braces_open [] = 0"
  "braces_open (c # s) = (if c = obrace then 1 else if c = cbrace then - 1 else 0) + braces_open s"
  "braces_open (s @ t) = braces_open s + braces_open t"
  by (simp_all add: braces_open_def)

lemma braces_open_emitted [simp]:
  "braces_open (line parts) = sum_list (map braces_open parts)"
  "braces_open (quoted s) = braces_open s"
  "braces_open (tabs n) = 0"
proof -
  show "braces_open (line parts) = sum_list (map braces_open parts)"
    by (induction parts) (simp_all add: line_def)
  show "braces_open (tabs n) = 0" by (induction n) (simp_all add: tabs_def)
qed (simp add: quoted_def)

lemma braces_open_concat: "braces_open (concat ss) = sum_list (map braces_open ss)"
  by (induction ss) simp_all

lemma braces_open_comma_join: "braces_open (comma_join ss) = sum_list (map braces_open ss)"
  by (induction ss rule: comma_join.induct) simp_all

lemma braces_open_escape_doc: "braces_open (escape_doc s) = braces_open s"
  by (induction s) (simp_all add: escape_doc_def escape_doc_char_def)

lemma sum_list_zero: "\<forall>p \<in> set ps. f p = 0 \<Longrightarrow> sum_list (map f ps) = (0 :: int)"
  by (induction ps) simp_all

definition neutral_ep :: "Endpoint \<Rightarrow> bool" where
  "neutral_ep ep \<longleftrightarrow> braces_open (function_name ep) = 0 \<and> braces_open (body_type ep) = 0
     \<and> braces_open (wrapper_doc ep) = 0
     \<and> (\<forall>p \<in> set (ep_params ep). braces_open (cpp_type p) = 0 \<and> braces_open (cp_name p) = 0)"

lemma braces_open_wrapper_parts:
  assumes "neutral_ep ep"
  shows "braces_open (wrapper_head ep) = 1" and "braces_open (wrapper_body ep) = 0" and "braces_open (wrapper_args ep) = 0"
proof -
  have p: "\<forall>p \<in> set (ep_params ep). braces_open (wrapper_param p) = 0"
    "\<forall>p \<in> set (ep_params ep). braces_open (cp_name p) = 0"
    "\<forall>p \<in> set (ep_params ep). braces_open (wrapper_arg p) = 0"
    using assms by (auto simp: neutral_ep_def wrapper_param_def wrapper_arg_def)
  note z = p [THEN sum_list_zero]
  show "braces_open (wrapper_head ep) = 1"
    using assms z(1) by (simp add: wrapper_head_def neutral_ep_def braces_open_concat comp_def)
  show "braces_open (wrapper_body ep) = 0"
    using assms z(2) by (simp add: wrapper_body_def neutral_ep_def braces_open_comma_join comp_def)
  show "braces_open (wrapper_args ep) = 0"
    using z(3) by (simp add: wrapper_args_def braces_open_comma_join comp_def)
qed

text \<open>The shape of a method wrapper. When names, types and documentation have balanced braces, the
  wrapper of an endpoint has balanced braces exactly when the endpoint has a parameter, a body or a
  documentation string, or is the last one: any other endpoint leaves its lambda open, and the module
  does not compile. A wrapper with parameters or a body but no documentation ends in a comma before the
  closing parenthesis.\<close>

theorem python_wrapper_shape:
  assumes "neutral_ep ep"
  shows "braces_open (emitEndpointWrapper ep is_last) = (if has_trailing ep \<or> is_last then 0 else 1)
    \<and> (has_trailing ep \<and> wrapper_doc ep = [] \<longrightarrow>
        suffix (line ['',''] @ line [tabs 2, if is_last then '');'' else '')'']) (emitEndpointWrapper ep is_last))"
proof -
  have "braces_open (wrapper_doc ep) = 0" using assms by (simp add: neutral_ep_def)
  then have "braces_open (emitEndpointWrapper ep is_last) = (if has_trailing ep \<or> is_last then 0 else 1)"
    using braces_open_wrapper_parts [OF assms] by (simp add: emitEndpointWrapper_def braces_open_escape_doc)
  moreover have "suffix (line ['',''] @ t) (wrapper_args ep @ t)" if "has_trailing ep" "wrapper_doc ep = []" for t
    using that by (auto simp: wrapper_args_def has_trailing_def suffix_def)
  moreover have "emitEndpointWrapper ep is_last = (wrapper_head ep @ wrapper_body ep @ line [tabs 2, ''},''])
      @ wrapper_args ep @ line [tabs 2, if is_last then '');'' else '')'']"
    if "has_trailing ep" "wrapper_doc ep = []"
    using that by (simp add: emitEndpointWrapper_def)
  ultimately show ?thesis by (metis suffix_appendI)
qed

definition bare_endpoint :: Endpoint where
  "bare_endpoint = \<lparr>ep_method = ''get'', ep_path = ''/x'', path_template = ''/x'', function_name = ''get__x'',
     ep_summary = [], ep_description = [], cpp_verb = ''get'', ep_params = [], has_request_body = False,
     body_type = [], body_content_type = [], auth_type = Auth_None, auth_header_name = []\<rparr>"

theorem python_wrapper_shape_witness:
  "braces_open (emitEndpointWrapper bare_endpoint False) = 1 \<and> braces_open (emitEndpointWrapper bare_endpoint True) = 0"
proof -
  have "neutral_ep bare_endpoint" by (simp add: neutral_ep_def bare_endpoint_def wrapper_doc_def)
  from python_wrapper_shape [OF this, of False] python_wrapper_shape [OF this, of True] show ?thesis
    by (simp add: has_trailing_def bare_endpoint_def wrapper_doc_def)
qed

end
