(* ===== verification/Driver.thy ===== *)
theory Driver
  imports Schema_Parser Defs_Gen Python_Gen
begin

text \<open>
  \<open>generator/src/Driver/Driver.cpp\<close>: the phases of the generator, from the loaded document to the
  text of the generated files. What is printed to the terminal is left out, and so are the counters
  that only it uses; creating directories and opening files is taken to succeed.
\<close>

section \<open>Building the AST\<close>

text \<open>The loop over the schemas. A \<open>std::exception\<close> ends one schema, with a warning; what the parser
  had added to the tables by then stays.\<close>

fun parse_schemas :: "members \<Rightarrow> parse_state \<Rightarrow> unit result \<times> parse_state" where
  "parse_schemas [] st = (Inr (), st)"
| "parse_schemas ((name, schema) # ms) st =
     (let safe_name = sanitize name
      in case parseSchema (map_item schema) safe_name st of
           (Inr type, st1) \<Rightarrow> parse_schemas ms (st1\<lparr>ps_ast := addType safe_name type (ps_ast st1)\<rparr>)
         | (Inl Exception, st1) \<Rightarrow> parse_schemas ms st1
         | (Inl e, st1) \<Rightarrow> (Inl e, st1))"

definition parseSchemas :: "obj \<Rightarrow> NormalizedAST \<Rightarrow> NormalizedAST result" where
  "parseSchemas spec ast =
     rbind (rbind (spec_components spec) Components_schemas) (\<lambda>schemas.
       case parse_schemas schemas \<lparr>ps_ast = ast, added_types = {}\<rparr> of
         (Inr _, st) \<Rightarrow> Inr (ps_ast st) | (Inl e, _) \<Rightarrow> Inl e)"

text \<open>\<open>try \{ x = f(); \} catch (...) \{ x = ""; \}\<close>\<close>

definition or_empty :: "string result \<Rightarrow> string result" where
  "or_empty r = (case r of Inl Exception \<Rightarrow> Inr [] | _ \<Rightarrow> r)"

definition new_path_item :: "string \<Rightarrow> string \<Rightarrow> string \<Rightarrow> string \<Rightarrow> PathItem" where
  "new_path_item pth meth op desc =
     \<lparr>pi_path = pth, pi_operations = [(meth, op)], pi_parameters = [], pi_description = desc\<rparr>"

fun parse_operations :: "string \<Rightarrow> members \<Rightarrow> NormalizedAST \<times> nat \<Rightarrow> (NormalizedAST \<times> nat) result" where
  "parse_operations pth [] (ast, n) = Inr (ast, n)"
| "parse_operations pth ((meth, op) # ops) (ast, n) =
     rbind (Operation_summary (map_item op)) (\<lambda>summary.
     rbind (or_empty (Operation_operationId (map_item op))) (\<lambda>op_id.
     rbind (or_empty (Operation_description (map_item op))) (\<lambda>desc.
       parse_operations pth ops
         (addPath pth (new_path_item pth (map tolower meth) (if op_id = [] then summary else op_id) desc) ast, n + 1))))"

fun parse_paths :: "members \<Rightarrow> NormalizedAST \<times> nat \<Rightarrow> (NormalizedAST \<times> nat) result" where
  "parse_paths [] s = Inr s"
| "parse_paths ((pth, v) # ps) s =
     rbind (Path_operations (map_item v)) (\<lambda>ops. rbind (parse_operations pth ops s) (parse_paths ps))"

text \<open>Returns the extended AST and the number of endpoints.\<close>

definition parsePaths :: "obj \<Rightarrow> NormalizedAST \<Rightarrow> (NormalizedAST \<times> nat) result" where
  "parsePaths spec ast = rbind (spec_paths spec) (\<lambda>ps. parse_paths ps (ast, 0))"

definition buildAST :: "obj \<Rightarrow> NormalizedAST result" where
  "buildAST spec = rbind (parseSchemas spec empty_ast) (\<lambda>ast. rmap fst (parsePaths spec ast))"

section \<open>Generating\<close>

datatype GenMode = GM_client | GM_server | GM_both

definition module_of_title :: "string \<Rightarrow> string" where
  "module_of_title title = (let module_name = sanitize title in if module_name = [] then ''siesta_bindings'' else module_name)"

definition cmake_info :: "bool \<Rightarrow> bool \<Rightarrow> string \<Rightarrow> string \<Rightarrow> string" where
  "cmake_info client server client_mod server_mod =
     (if client then line [''set(SIESTA_CLIENT_MODULE '', quoted client_mod, '')''] else [])
     @ (if server then line [''set(SIESTA_SERVER_MODULE '', quoted server_mod, '')''] else [])"

text \<open>The files, from \<open>std::string title\<close> on. The arguments of the Python server generator are built
  from \<open>ns\<close> after \<open>std::move(ns)\<close>: what that string then holds is the parameter \<open>moved\<close>.\<close>

definition emit_files ::
  "(string list \<Rightarrow> string list) \<Rightarrow> string \<Rightarrow> GenMode \<Rightarrow> bool \<Rightarrow> string \<Rightarrow> string \<Rightarrow> NormalizedAST \<Rightarrow> TopologicalOrder
    \<Rightarrow> Endpoint list \<Rightarrow> (string \<times> string) list option" where
  "emit_files it moved mode python ns_override title ast order endpoints =
     (let module_name = module_of_title title;
          ns = (if ns_override = [] then module_name else ns_override);
          server_module = module_name @ ''_server'';
          gen_client = (mode = GM_client \<or> mode = GM_both);
          gen_server = (mode = GM_server \<or> mode = GM_both)
      in map_option (\<lambda>defs.
           defs
           @ (if gen_client then BeastClientGenerator ns endpoints else [])
           @ (if python \<and> gen_client then BeastPythonGenerator module_name ns endpoints else [])
           @ (if gen_server then BeastServerGenerator ns endpoints else [])
           @ (if python \<and> gen_server then BeastServerPythonGenerator server_module moved endpoints else [])
           @ [(''siesta_info.cmake'', cmake_info (python \<and> gen_client) (python \<and> gen_server) module_name server_module)])
         (DefsGenerator it ns order ast))"

text \<open>\<open>parsed\<close> is the document that the JSON library read from the file. The result is what the
  function returns and the files it wrote; \<open>None\<close> is a call that does not return.\<close>

definition generateFromOpenAPI ::
  "(string list \<Rightarrow> string list) \<Rightarrow> string \<Rightarrow> json option \<Rightarrow> GenMode \<Rightarrow> bool \<Rightarrow> string \<Rightarrow> string
    \<Rightarrow> (bool \<times> (string \<times> string) list) result option" where
  "generateFromOpenAPI it moved parsed mode python backend ns_override =
     (if backend \<noteq> ''beast'' then Some (Inr (False, []))
      else case OpenAPI_Load parsed of
        Inl e \<Rightarrow> Some (Inl e)
      | Inr (loaded, spec) \<Rightarrow>
      if \<not> loaded then Some (Inr (False, []))
      else case MajorVersion spec of
        Inl e \<Rightarrow> Some (Inl e)
      | Inr version \<Rightarrow>
      if version \<noteq> 3 then Some (Inr (False, []))
      else case buildAST spec of
        Inl e \<Rightarrow> Some (Inl e)
      | Inr ast \<Rightarrow>
      if validate it ast \<noteq> [] then Some (Inr (False, []))
      else
        (let order = sortTypes it ast
         in if has_cycles order then Some (Inr (False, []))
            else case parseEndpoints it spec of
              Inl e \<Rightarrow> Some (Inl e)
            | Inr endpoints \<Rightarrow>
            (case rbind (spec_info spec) Info_title of
               Inl e \<Rightarrow> Some (Inl e)
             | Inr title \<Rightarrow>
                 map_option (\<lambda>files. Inr (True, files))
                   (emit_files it moved mode python ns_override title ast order endpoints))))"

section \<open>The AST that is built\<close>

lemma sanitize_not_synthetic: "\<not> isSyntheticCppType (sanitize s)"
proof
  assume "isSyntheticCppType (sanitize s)"
  then consider "prefix ''std::'' (sanitize s)" | "sanitize s \<in> set RESERVED"
    by (auto simp: isSyntheticCppType_def RESERVED_def)
  then show False
  proof cases
    case 1
    then have "CHR '':'' \<in> set (sanitize s)" by (auto simp: prefix_def)
    with sanitize_no_chars show False by (fastforce simp: sanitize_chars_def)
  next
    case 2
    with sanitize_not_reserved show False by blast
  qed
qed

lemma parse_inv_addType:
  "\<lbrakk>parse_inv st; type_ok (added_types st) type; own_name (sanitize s) type\<rbrakk>
    \<Longrightarrow> parse_inv (st\<lparr>ps_ast := addType (sanitize s) type (ps_ast st)\<rparr>)"
  by (auto simp: parse_inv_def split: if_splits)

lemma parse_schemas_inv: "parse_inv st \<Longrightarrow> parse_inv (snd (parse_schemas ms st))"
proof (induction ms arbitrary: st)
  case (Cons m ms)
  obtain name schema where m: "m = (name, schema)" by fastforce
  obtain r st1 where p: "parseSchema (map_item schema) (sanitize name) st = (r, st1)" by fastforce
  have inv: "parse_inv st1" and ok: "\<And>type. r = Inr type \<Longrightarrow> type_ok (added_types st1) type"
    using parsers_good(1) [of "map_item schema" "sanitize name" st] Cons.prems p by (auto simp: good_def)
  show ?case
  proof (cases r)
    case (Inr type)
    then have "own_name (sanitize name) type"
      using parseSchema_own_name [of "map_item schema" "sanitize name" st] p by simp
    with inv ok Inr p Cons.IH show ?thesis by (simp add: m parse_inv_addType)
  next
    case (Inl e)
    with inv p Cons.IH show ?thesis by (cases e) (simp_all add: m)
  qed
qed simp

lemma parse_operations_types:
  "parse_operations pth ops (ast, n) = Inr (ast', n') \<Longrightarrow>
    ast_types ast' = ast_types ast \<and> (wf_ast ast \<longrightarrow> wf_ast ast')"
proof (induction ops arbitrary: ast n)
  case (Cons op ops)
  then show ?case by (cases op) (fastforce simp: rbind_Inr_iff addPath_def wf_ast_def distinct_keys_update)
qed simp

lemma parse_paths_types:
  "parse_paths ps (ast, n) = Inr (ast', n') \<Longrightarrow> ast_types ast' = ast_types ast \<and> (wf_ast ast \<longrightarrow> wf_ast ast')"
proof (induction ps arbitrary: ast n)
  case (Cons p ps)
  obtain pth v where p: "p = (pth, v)" by fastforce
  from Cons.prems obtain ops ast1 n1 where
    "parse_operations pth ops (ast, n) = Inr (ast1, n1)" "parse_paths ps (ast1, n1) = Inr (ast', n')"
    by (auto simp: p rbind_Inr_iff)
  with Cons.IH parse_operations_types show ?case by metis
qed simp

lemma parseSchemas_inv:
  assumes "parseSchemas spec empty_ast = Inr ast"
  shows "\<exists>A. parse_inv \<lparr>ps_ast = ast, added_types = A\<rparr>"
proof -
  from assms obtain schemas where "(case parse_schemas schemas init_parse of
      (Inr _, st) \<Rightarrow> Inr (ps_ast st) | (Inl e, _) \<Rightarrow> Inl e) = Inr ast"
    by (auto simp: parseSchemas_def rbind_Inr_iff init_parse_def)
  then obtain st where "parse_schemas schemas init_parse = (Inr (), st)" "ast = ps_ast st"
    by (cases "parse_schemas schemas init_parse"; cases "fst (parse_schemas schemas init_parse)") auto
  with parse_schemas_inv [OF parse_inv_init, of schemas] show ?thesis
    by (intro exI [of _ "added_types st"]) (simp add: parse_inv_def)
qed

text \<open>What the generator gets from the parser: a table without duplicates whose types carry their own,
  sanitised names, and whose inline references are C++ primitives, types of the table, or vectors.\<close>

definition buildable :: "NormalizedAST \<Rightarrow> bool" where
  "buildable ast \<longleftrightarrow> wf_ast ast \<and> emittable ast
     \<and> (\<forall>n type. getType ast n = Some type \<longrightarrow> type_ok (key_set (ast_types ast)) type)"

lemma buildAST_buildable:
  assumes "buildAST spec = Inr ast"
  shows "buildable ast"
proof -
  from assms obtain ast0 n where a: "parseSchemas spec empty_ast = Inr ast0" "parsePaths spec ast0 = Inr (ast, n)"
    by (auto simp: buildAST_def rbind_Inr_iff rmap_Inr_iff)
  from a(2) have t: "ast_types ast = ast_types ast0" "wf_ast ast0 \<Longrightarrow> wf_ast ast"
    using parse_paths_types [of _ ast0 0 ast n] by (auto simp: parsePaths_def rbind_Inr_iff)
  from parseSchemas_inv [OF a(1)] obtain A where inv: "parse_inv \<lparr>ps_ast = ast0, added_types = A\<rparr>" by blast
  have "A \<subseteq> key_set (ast_types ast0)" using inv by (auto simp: parse_inv_def hasType_keys)
  with inv have "\<forall>n type. getType ast0 n = Some type \<longrightarrow>
      type_ok (key_set (ast_types ast0)) type \<and> own_name n type \<and> n \<in> range sanitize"
    using type_ok_mono [of A _ "key_set (ast_types ast0)"] unfolding parse_inv_def by simp
  moreover have "getType ast = getType ast0" by (simp add: fun_eq_iff getType_def t(1))
  ultimately show ?thesis
    using inv t sanitize_not_synthetic by (auto simp: buildable_def emittable_def parse_inv_def)
qed

text \<open>What \<open>validate\<close> checks.\<close>

definition closed_ast :: "NormalizedAST \<Rightarrow> bool" where
  "closed_ast ast \<longleftrightarrow> (\<forall>n type. getType ast n = Some type \<longrightarrow> (\<forall>m \<in> must_resolve type. hasType ast m))"

lemma validate_closed_ast: "hash_order it \<Longrightarrow> wf_ast ast \<Longrightarrow> validate it ast = [] \<longleftrightarrow> closed_ast ast"
  unfolding closed_ast_def by (rule validate_iff)

lemma emit_files_returns:
  assumes "hash_order it" and "buildable ast" and "\<not> has_cycles (sortTypes it ast)"
  shows "\<exists>files blocks ns. emit_files it moved mode python ns_override title ast (sortTypes it ast) endpoints = Some files
    \<and> map_of files DEFS_HPP = Some (defs_preamble ns ast (map fst blocks) @ concat (map snd blocks)
        @ defs_conversions ns ast (map fst blocks))
    \<and> emit_order ast (map fst blocks) \<and> (\<forall>(n, block) \<in> set blocks. defines_name n block)"
proof -
  have "wf_ast ast" "emittable ast" using assms(2) by (auto simp: buildable_def)
  from dependency_order.DefsGenerator_blocks [OF assms(1) this assms(3)] show ?thesis
    by (fastforce simp: emit_files_def Let_def)
qed

lemma getPath_addPath: "getPath (addPath p item ast) q = (if q = p then Some item else getPath ast q)"
  by (simp add: getPath_def addPath_def update_conv')

lemma parse_operations_spec:
  "parse_operations pth ops (ast, n) = Inr (ast', n') \<Longrightarrow>
    n' = n + length ops \<and> (\<forall>q. q \<noteq> pth \<longrightarrow> getPath ast' q = getPath ast q)
    \<and> (if ops = [] then getPath ast' pth = getPath ast pth
       else \<exists>item. getPath ast' pth = Some item \<and> map fst (pi_operations item) = [map tolower (fst (last ops))])"
proof (induction ops arbitrary: ast n)
  case (Cons op ops)
  obtain meth body where op: "op = (meth, body)" by fastforce
  from Cons.prems obtain name desc where
    rest: "parse_operations pth ops (addPath pth (new_path_item pth (map tolower meth) name desc) ast, n + 1) = Inr (ast', n')"
    by (auto simp: op rbind_Inr_iff)
  from Cons.IH [OF rest] show ?case by (auto simp: op new_path_item_def getPath_addPath split: if_splits)
qed simp

lemma parse_paths_spec:
  "\<lbrakk>parse_paths ps (ast, n) = Inr (ast', n'); distinct (map fst ps)\<rbrakk> \<Longrightarrow>
    n' = n + sum_list (map (\<lambda>(p, v). length (the (map_item v))) ps)
    \<and> (\<forall>q. q \<notin> fst ` set ps \<longrightarrow> getPath ast' q = getPath ast q)
    \<and> (\<forall>p v m. (p, v) \<in> set ps \<and> map_item v = Some m \<and> m \<noteq> [] \<longrightarrow>
         (\<exists>item. getPath ast' p = Some item \<and> map fst (pi_operations item) = [map tolower (fst (last m))]))"
proof (induction ps arbitrary: ast n)
  case (Cons e ps)
  obtain pth v where e: "e = (pth, v)" by fastforce
  from Cons.prems obtain ops ast1 n1 where
    ops: "map_item v = Some ops" and one: "parse_operations pth ops (ast, n) = Inr (ast1, n1)"
    and rest: "parse_paths ps (ast1, n1) = Inr (ast', n')" and new: "pth \<notin> fst ` set ps"
    by (auto simp: e rbind_Inr_iff Path_operations_def split: option.splits)
  have d: "distinct (map fst ps)" using Cons.prems(2) by simp
  from Cons.IH [OF rest d] have IH: "n' = n1 + sum_list (map (\<lambda>(p, v). length (the (map_item v))) ps)"
    "\<forall>q. q \<notin> fst ` set ps \<longrightarrow> getPath ast' q = getPath ast1 q"
    "\<forall>p v m. (p, v) \<in> set ps \<and> map_item v = Some m \<and> m \<noteq> [] \<longrightarrow>
         (\<exists>item. getPath ast' p = Some item \<and> map fst (pi_operations item) = [map tolower (fst (last m))])"
    by (blast+)
  from parse_operations_spec [OF one] have O: "n1 = n + length ops" "\<forall>q. q \<noteq> pth \<longrightarrow> getPath ast1 q = getPath ast q"
    "ops \<noteq> [] \<longrightarrow> (\<exists>item. getPath ast1 pth = Some item \<and> map fst (pi_operations item) = [map tolower (fst (last ops))])"
    by (simp_all split: if_splits)
  have head: "getPath ast' pth = getPath ast1 pth" using IH(2) new by simp
  show ?case
    unfolding e
  proof (intro conjI allI impI)
    fix p w m
    assume a: "(p, w) \<in> set ((pth, v) # ps) \<and> map_item w = Some m \<and> m \<noteq> []"
    show "\<exists>item. getPath ast' p = Some item \<and> map fst (pi_operations item) = [map tolower (fst (last m))]"
    proof (cases "(p, w) \<in> set ps")
      case True then show ?thesis using IH(3) a by blast
    next
      case False then show ?thesis using a O(3) head ops by auto
    qed
  qed (use IH O ops in auto)
qed simp

definition two_operations :: obj where
  "two_operations = Some [(''paths'', J_Object [(''/pets'', J_Object [(''get'', J_Object []), (''POST'', J_Object [])])])]"

section \<open>Sample documents\<close>

definition sample_doc :: "members \<Rightarrow> members" where
  "sample_doc schemas = [(''openapi'', J_String ''3.0.0''), (''info'', J_Object [(''title'', J_String ''Pets'')]),
     (''components'', J_Object [(''schemas'', J_Object schemas)]), (''paths'', J_Object [])]"

lemma sample_version: "MajorVersion (Some (sample_doc schemas)) = Inr 3"
  by (simp add: MajorVersion_def version_of_def sample_doc_def) code_simp

lemma sample_title: "rbind (spec_info (Some (sample_doc schemas))) Info_title = Inr ''Pets''"
  by (simp add: sample_doc_def spec_info_def Info_title_def accessor_defs)

lemma sample_endpoints: "parseEndpoints it (Some (sample_doc schemas)) = Inr []"
  by (simp add: parseEndpoints_def sample_doc_def spec_components_def get_object_def
      Components_parameters_def Components_requestBodies_def Components_securitySchemes_def get_map_def
      hasGlobalSecurity_def spec_paths_def accessor_defs Let_def)

lemma sample_paths: "parsePaths (Some (sample_doc schemas)) ast = Inr (ast, 0)"
  by (simp add: parsePaths_def sample_doc_def spec_paths_def accessor_defs)

lemma sample_schemas: "rbind (spec_components (Some (sample_doc schemas))) Components_schemas = Inr schemas"
  by (simp add: sample_doc_def spec_components_def Components_schemas_def accessor_defs)

definition pet_doc :: members where
  "pet_doc = sample_doc [(''Pet'', string_schema)]"


lemmas parse_evals = parseSchema.simps parseArraySchema.simps pbind_def plift_def preturn_def JsonSchema_Type_def JsonSchema_type_def
  JsonSchema_description_def JsonSchema_format_def schema_enum_def schema_items_def IsRef_def ref_def kind_of_name_def
  parsePrimitiveSchema_def extractTypeRef_def accessor_defs map_item_def

lemma string_schema_parsed:
  "parseSchema (map_item string_schema) name st = (Inr (SPrimitive (plain_primitive PK_String [])), st)"
  by (simp add: string_schema_def parse_evals parseStringFormat_def plain_primitive_def)

lemma sanitize_Pet: "sanitize ''Pet'' = ''Pet''" by code_simp

lemma pet_ast: "buildAST (Some pet_doc) =
    Inr \<lparr>ast_types = [(''Pet'', SPrimitive (plain_primitive PK_String []))], ast_paths = []\<rparr>"
  by (simp add: buildAST_def parseSchemas_def pet_doc_def sample_schemas sample_paths sanitize_Pet string_schema_parsed
    addType_def empty_ast_def)

definition pets_schema :: json where
  "pets_schema = J_Object [(''type'', J_String ''array''),
     (''items'', J_Object [(''$ref'', J_String ''#/components/schemas/Missing'')])]"

lemma pets_schema_parsed:
  "parseSchema (map_item pets_schema) name st =
     (Inr (SArray \<lparr>element_type = TypeRef ''Missing'' False, at_description = []\<rparr>), st)"
proof -
  have "extractTypeRef (Some [(''$ref'', J_String ''#/components/schemas/Missing'')]) = Inr (TypeRef ''Missing'' False)"
    by code_simp
  then show ?thesis by (simp add: pets_schema_def parse_evals)
qed

lemma sample_generates:
  assumes "hash_order it" and "buildAST (Some (sample_doc schemas)) = Inr ast" and "closed_ast ast" and "acyclic (type_edges ast)"
  shows "\<exists>files. generateFromOpenAPI it moved (Some (J_Object (sample_doc schemas))) mode python ''beast'' ns_override
    = Some (Inr (True, files))"
proof -
  have b: "buildable ast" using assms(2) by (rule buildAST_buildable)
  then have w: "wf_ast ast" by (simp add: buildable_def)
  have v: "validate it ast = []" using validate_closed_ast [OF assms(1) w] assms(3) by blast
  have c: "\<not> has_cycles (sortTypes it ast)" using sortTypes_spec(1) [OF assms(1) w] assms(4) by blast
  from emit_files_returns [OF assms(1) b c] obtain files where
    "emit_files it moved mode python ns_override ''Pets'' ast (sortTypes it ast) [] = Some files" by blast
  then show ?thesis
    by (simp add: generateFromOpenAPI_def OpenAPI_Load_def sample_version sample_title sample_endpoints assms(2) v c Let_def)
qed

lemma pet_generates:
  assumes "hash_order it"
  shows "\<exists>files. generateFromOpenAPI it moved (Some (J_Object pet_doc)) mode python ''beast'' ns_override = Some (Inr (True, files))"
proof -
  let ?ast = "\<lparr>ast_types = [(''Pet'', SPrimitive (plain_primitive PK_String []))], ast_paths = []\<rparr>"
  have "closed_ast ?ast" by (simp add: closed_ast_def getType_def must_resolve_def)
  moreover have "type_edges ?ast = {}" by (auto simp: type_edges_def getType_def dep_targets_def type_deps_def split: if_splits)
  then have "acyclic (type_edges ?ast)" by (simp add: acyclic_def)
  ultimately show ?thesis
    using sample_generates [OF assms] pet_ast unfolding pet_doc_def by blast
qed

lemma generation_returns:
  assumes "hash_order it"
  shows "generateFromOpenAPI it moved parsed mode python backend ns_override \<noteq> None"
proof -
  have "emit_files it moved mode python ns_override title ast (sortTypes it ast) endpoints \<noteq> None"
    if "buildAST spec = Inr ast" "\<not> has_cycles (sortTypes it ast)" for spec ast title endpoints
    using emit_files_returns [OF assms buildAST_buildable [OF that(1)] that(2)] by fastforce
  then show ?thesis
    unfolding generateFromOpenAPI_def by (auto simp: Let_def split: sum.split)
qed

lemma generation_success:
  assumes "hash_order it"
    and "generateFromOpenAPI it moved (Some (J_Object spec)) mode python backend ns_override = Some (Inr (True, files))"
  shows "\<exists>ast blocks ns. buildAST (Some spec) = Inr ast \<and> closed_ast ast \<and> acyclic (type_edges ast)
    \<and> map_of files DEFS_HPP = Some (defs_preamble ns ast (map fst blocks) @ concat (map snd blocks)
        @ defs_conversions ns ast (map fst blocks))
    \<and> emit_order ast (map fst blocks) \<and> (\<forall>(n, block) \<in> set blocks. defines_name n block)
    \<and> (\<forall>n type. getType ast n = Some type \<longrightarrow> must_resolve type \<subseteq> fst ` set blocks \<and> type_ok (fst ` set blocks) type)"
proof -
  from assms(2) obtain ast title endpoints where
    a: "buildAST (Some spec) = Inr ast" "validate it ast = []" "\<not> has_cycles (sortTypes it ast)"
    and f: "emit_files it moved mode python ns_override title ast (sortTypes it ast) endpoints = Some files"
    by (auto simp: generateFromOpenAPI_def OpenAPI_Load_def Let_def split: if_splits sum.splits)
  have b: "buildable ast" using a(1) by (rule buildAST_buildable)
  then have w: "wf_ast ast" by (simp add: buildable_def)
  have c: "closed_ast ast" using a(2) validate_closed_ast [OF assms(1) w] by blast
  have ac: "acyclic (type_edges ast)" using sortTypes_spec(1) [OF assms(1) w] a(3) by blast
  from emit_files_returns [OF assms(1) b a(3)] f obtain blocks ns where
    d: "map_of files DEFS_HPP = Some (defs_preamble ns ast (map fst blocks) @ concat (map snd blocks)
        @ defs_conversions ns ast (map fst blocks))"
      "emit_order ast (map fst blocks)" "\<forall>(n, block) \<in> set blocks. defines_name n block"
    by (metis option.inject)
  have keys: "fst ` set blocks = key_set (ast_types ast)" using d(2) by (simp add: emit_order_def)
  have "must_resolve type \<subseteq> fst ` set blocks" "type_ok (fst ` set blocks) type"
    if "getType ast n = Some type" for n type
    using that c b by (auto simp: keys closed_ast_def hasType_keys buildable_def)
  with a(1) c ac d show ?thesis by blast
qed

text \<open>The table of types after the loop over the schemas.\<close>

lemma parse_schemas_keys:
  assumes "\<forall>(n, s) \<in> set ms. schema_shape s" and "parse_inv st" and "key_set (ast_types (ps_ast st)) = N \<union> added_types st"
  shows "\<exists>st'. parse_schemas ms st = (Inr (), st') \<and> parse_inv st'
    \<and> key_set (ast_types (ps_ast st')) = N \<union> sanitize ` fst ` set ms \<union> added_types st'"
  using assms
proof (induction ms arbitrary: st N)
  case (Cons m ms)
  obtain name schema where m: "m = (name, schema)" by fastforce
  then obtain type st1 where p: "parseSchema (map_item schema) (sanitize name) st = (Inr type, st1)"
    using parsers_return(1) [OF shape_map_item, of schema "sanitize name" st] Cons.prems(1) by (auto simp: returns_def)
  then have g: "parse_inv st1" "extends st st1" "type_ok (added_types st1) type"
    using parsers_good(1) [of "map_item schema" "sanitize name" st] Cons.prems(2) by (auto simp: good_def)
  let ?st2 = "st1\<lparr>ps_ast := addType (sanitize name) type (ps_ast st1)\<rparr>"
  have inv: "parse_inv ?st2"
    using g parseSchema_own_name [of "map_item schema" "sanitize name" st] p by (intro parse_inv_addType) auto
  have "key_set (ast_types (ps_ast st1)) = N \<union> added_types st1"
  proof (intro set_eqI)
    fix n
    have "n \<in> key_set (ast_types (ps_ast st1)) \<longleftrightarrow> getType (ps_ast st1) n \<noteq> None"
      and st: "n \<in> key_set (ast_types (ps_ast st)) \<longleftrightarrow> getType (ps_ast st) n \<noteq> None"
      by (simp_all add: key_set_iff getType_def)
    then show "n \<in> key_set (ast_types (ps_ast st1)) \<longleftrightarrow> n \<in> N \<union> added_types st1"
      using g(1,2) Cons.prems(3) unfolding parse_inv_def extends_def hasType_keys by (cases "n \<in> added_types st1") auto
  qed
  then have keys: "key_set (ast_types (ps_ast ?st2)) = insert (sanitize name) N \<union> added_types ?st2"
    by (auto simp: addType_def)
  have "\<forall>(n, s) \<in> set ms. schema_shape s" using Cons.prems(1) by simp
  from Cons.IH [OF this inv keys] show ?case using p by (auto simp: m)
qed simp

lemma buildAST_components:
  assumes "buildAST spec = Inr ast" and "rbind (spec_components spec) Components_schemas = Inr schemas"
    and "\<forall>(n, s) \<in> set schemas. schema_shape s" and "(n, s) \<in> set schemas"
  shows "sanitize n \<in> key_set (ast_types ast)"
proof -
  have "parse_inv \<lparr>ps_ast = empty_ast, added_types = {}\<rparr>" by (simp add: parse_inv_def)
  from parse_schemas_keys [OF assms(3) this, of "{}"] obtain st where
    st: "parse_schemas schemas \<lparr>ps_ast = empty_ast, added_types = {}\<rparr> = (Inr (), st)"
    "sanitize ` fst ` set schemas \<subseteq> key_set (ast_types (ps_ast st))" by (auto simp: empty_ast_def)
  then have "parseSchemas spec empty_ast = Inr (ps_ast st)" by (simp add: parseSchemas_def assms(2))
  with assms(1) obtain k where "parsePaths spec (ps_ast st) = Inr (ast, k)"
    by (auto simp: buildAST_def rmap_Inr_iff)
  then have "ast_types ast = ast_types (ps_ast st)"
    using parse_paths_types by (auto simp: parsePaths_def rbind_Inr_iff)
  with st(2) assms(4) show ?thesis by force
qed

section \<open>Properties\<close>

text \<open>Generation always returns, for every document and every set of options: with a verdict and the
  files, or with the failure of an access to a part of the document that is not there.\<close>

theorem generate_returns:
  assumes "hash_order it"
  shows "generateFromOpenAPI it moved parsed mode python backend ns_override \<noteq> None"
  using assms by (rule generation_returns)

theorem generate_returns_witness: "generateFromOpenAPI rev [] None GM_both True ''beast'' [] \<noteq> None"
  by (rule generate_returns) (rule hash_order_rev)





text \<open>C34: the paths of the AST. The counter is the number of members of all path objects, and a path
  that has any ends with the entry of its last one alone: \<open>addPath\<close> replaces the entries of the others.\<close>

theorem parsePaths_last:
  assumes "parsePaths spec ast = Inr (ast', n)" and "spec_paths spec = Inr ps" and "distinct (map fst ps)"
  shows "n = sum_list (map (\<lambda>(p, v). length (the (map_item v))) ps)
    \<and> (\<forall>p v m. (p, v) \<in> set ps \<and> map_item v = Some m \<and> m \<noteq> [] \<longrightarrow>
         (\<exists>item. getPath ast' p = Some item \<and> map fst (pi_operations item) = [map tolower (fst (last m))]))"
proof -
  have "parse_paths ps (ast, 0) = Inr (ast', n)" using assms(1,2) by (simp add: parsePaths_def)
  from parse_paths_spec [OF this assms(3)] show ?thesis unfolding add_0 by blast
qed

theorem parsePaths_last_witness:
  "\<exists>ast'. parsePaths two_operations empty_ast = Inr (ast', 2)
    \<and> (\<exists>item. getPath ast' ''/pets'' = Some item \<and> map fst (pi_operations item) = [''post''])"
proof -
  have "\<exists>ast'. parsePaths two_operations empty_ast = Inr (ast', 2)"
    by (simp add: parsePaths_def two_operations_def spec_paths_def get_map_def Path_operations_def map_item_def
        Operation_summary_def Operation_operationId_def Operation_description_def or_empty_def accessor_defs)
  then obtain ast' where p: "parsePaths two_operations empty_ast = Inr (ast', 2)" by blast
  have "spec_paths two_operations = Inr [(''/pets'', J_Object [(''get'', J_Object []), (''POST'', J_Object [])])]"
    by (simp add: two_operations_def spec_paths_def get_map_def accessor_defs)
  moreover have "map tolower ''POST'' = ''post''" by code_simp
  ultimately show ?thesis using parsePaths_last [OF p] p by (simp add: map_item_def)
qed



end
