(* ===== verification/Command_Line.thy ===== *)
theory Command_Line
  imports Driver
begin

text \<open>
  \<open>generator/src/Driver/main.cpp\<close>: the options of the generator, the checks of the paths, and the exit code.
  What \<open>boost::program_options\<close> makes of the arguments is data, and so is the file system; what
  \<open>generateFromOpenAPI\<close> prints is not part of the model, and neither is the text of exceptions the
  standard library throws.
\<close>

section \<open>Options and files\<close>

record options =
  input_json :: string
  output_dir :: string
  mode_str :: string
  backend :: string
  ns_option :: string
  no_python :: bool
  print_module_names :: bool
  help_asked :: bool

text \<open>The values of the variables when no option is given.\<close>

definition default_options :: options where
  "default_options = \<lparr>input_json = [], output_dir = [], mode_str = ''both'', backend = ''beast'', ns_option = [],
     no_python = False, print_module_names = False, help_asked = False\<rparr>"

datatype file_kind = Regular | Directory | Other_kind

text \<open>\<open>fs_creatable\<close> tells whether \<open>create_directory\<close> succeeds, \<open>fs_json\<close> what the JSON library reads from a file.\<close>

record file_system =
  fs_kind :: "string \<Rightarrow> file_kind option"
  fs_absolute :: "string \<Rightarrow> string"
  fs_creatable :: "string \<Rightarrow> bool"
  fs_json :: "string \<Rightarrow> json option"

section \<open>The run\<close>

datatype ending = Exits int | Ends_in failure

record run_result =
  ending :: ending
  cout :: string
  cerr :: string
  written :: "(string \<times> string) list"

definition exits :: "int \<Rightarrow> string \<Rightarrow> string \<Rightarrow> run_result" where
  "exits code out err = \<lparr>ending = Exits code, cout = out, cerr = err, written = []\<rparr>"

text \<open>A failure: an exception is caught and printed, the others are no exceptions.\<close>

definition fails :: "failure \<Rightarrow> string \<Rightarrow> string \<Rightarrow> run_result" where
  "fails e out message =
     (case e of Exception \<Rightarrow> exits (- 1) out (line [message])
      | _ \<Rightarrow> \<lparr>ending = Ends_in e, cout = out, cerr = [], written = []\<rparr>)"

definition print_names :: "string \<Rightarrow> file_system \<Rightarrow> options \<Rightarrow> run_result" where
  "print_names what fs opts =
     (if input_json opts = [] then exits 1 [] (line [''Error: --input is required with --print-module-names''])
      else if fs_kind fs (input_json opts) \<noteq> Some Regular
      then exits 1 [] (line [''File at '', input_json opts, '' does not exist.''])
      else case OpenAPI_Load (fs_json fs (input_json opts)) of
        Inl e \<Rightarrow> fails e [] what
      | Inr (loaded, spec) \<Rightarrow>
      if \<not> loaded then exits 1 [] (line [''Failed to load '', input_json opts])
      else case rbind (spec_info spec) Info_title of
        Inl e \<Rightarrow> fails e [] what
      | Inr title \<Rightarrow>
        (let mn = sanitize title; mn = (if mn = [] then ''siesta_bindings'' else mn)
         in exits 0 (line [''client='', mn] @ line [''server='', mn, ''_server'']) []))"

definition mode_of :: "string \<Rightarrow> GenMode option" where
  "mode_of mode =
     (if mode = ''client'' then Some GM_client
      else if mode = ''server'' then Some GM_server
      else if mode \<noteq> ''both'' then None
      else Some GM_both)"

definition generate_into ::
  "(string list \<Rightarrow> string list) \<Rightarrow> string \<Rightarrow> string \<Rightarrow> file_system \<Rightarrow> options \<Rightarrow> GenMode \<Rightarrow> run_result option" where
  "generate_into it moved what fs opts gen_mode =
     (if fs_kind fs (input_json opts) \<noteq> Some Regular
      then Some (fails Exception [] (''File at '' @ input_json opts @ '' does not exist.''))
      else
        (let input = fs_absolute fs (input_json opts); out1 = line [''Reading from '', input];
             output = fs_absolute fs (output_dir opts)
         in if fs_kind fs output = None \<and> \<not> fs_creatable fs output then Some (fails Exception out1 what)
            else if fs_kind fs output \<noteq> None \<and> fs_kind fs output \<noteq> Some Directory
            then Some (fails Exception out1 (''Output path '' @ output @ '' is not a directory.''))
            else
              (let out2 = out1 @ line [''Writing to '', output]
               in map_option (\<lambda>r. case r of
                      Inl e \<Rightarrow> fails e out2 what
                    | Inr (ok, files) \<Rightarrow> \<lparr>ending = Exits (if ok then 0 else - 1), cout = out2, cerr = [], written = files\<rparr>)
                    (generateFromOpenAPI it moved (fs_json fs input) gen_mode (\<not> no_python opts) (backend opts) (ns_option opts)))))"

text \<open>\<open>parsed\<close> is \<open>None\<close> when the parser of the arguments throws; \<open>usage\<close> is the description of the options.\<close>

definition main ::
  "(string list \<Rightarrow> string list) \<Rightarrow> string \<Rightarrow> string \<Rightarrow> string \<Rightarrow> file_system \<Rightarrow> options option \<Rightarrow> run_result option" where
  "main it moved usage what fs parsed =
     (case parsed of
        None \<Rightarrow> Some (fails Exception [] what)
      | Some opts \<Rightarrow>
      if help_asked opts then Some (exits 1 (line [usage]) [])
      else if print_module_names opts then Some (print_names what fs opts)
      else case mode_of (mode_str opts) of
        None \<Rightarrow> Some (exits 1 [] (line [''Invalid mode '', [CHR 0x27], mode_str opts, [CHR 0x27], ''. Use client, server, or both.'']))
      | Some gen_mode \<Rightarrow> generate_into it moved what fs opts gen_mode)"

section \<open>Properties\<close>

definition output_usable :: "file_system \<Rightarrow> string \<Rightarrow> bool" where
  "output_usable fs p \<longleftrightarrow> fs_kind fs p = Some Directory \<or> fs_kind fs p = None \<and> fs_creatable fs p"

lemma generate_false: "generateFromOpenAPI it moved parsed gm python be ns = Some (Inr (False, files)) \<Longrightarrow> files = []"
  by (auto simp: generateFromOpenAPI_def Let_def split: if_splits sum.splits)

lemma fails_code: "ending (fails e out m) \<noteq> Exits 0 \<and> written (fails e out m) = []"
  by (cases e) (simp_all add: fails_def exits_def)

lemma generate_into_cases:
  obtains (unusable) out m where "generate_into it moved what fs opts gm = Some (fails Exception out m)"
      and "fs_kind fs (input_json opts) = Some Regular \<Longrightarrow> \<not> output_usable fs (fs_absolute fs (output_dir opts))"
  | (usable) out where "fs_kind fs (input_json opts) = Some Regular" and "output_usable fs (fs_absolute fs (output_dir opts))"
      and "generate_into it moved what fs opts gm = map_option (\<lambda>r. case r of
          Inl e \<Rightarrow> fails e out what
        | Inr (ok, files) \<Rightarrow> \<lparr>ending = Exits (if ok then 0 else - 1), cout = out, cerr = [], written = files\<rparr>)
        (generateFromOpenAPI it moved (fs_json fs (fs_absolute fs (input_json opts))) gm (\<not> no_python opts)
          (backend opts) (ns_option opts))"
proof (cases "fs_kind fs (input_json opts) = Some Regular \<and> output_usable fs (fs_absolute fs (output_dir opts))")
  case False
  then have "(\<exists>out m. generate_into it moved what fs opts gm = Some (fails Exception out m))"
    by (auto simp: generate_into_def output_usable_def Let_def)
  with False that(1) show thesis by blast
next
  case True
  then show thesis by (intro that(2)) (auto simp: generate_into_def output_usable_def Let_def)
qed

lemma generate_into_zero:
  assumes "generate_into it moved what fs opts gm = Some r"
  shows "(ending r = Exits 0 \<longleftrightarrow> fs_kind fs (input_json opts) = Some Regular
        \<and> output_usable fs (fs_absolute fs (output_dir opts))
        \<and> generateFromOpenAPI it moved (fs_json fs (fs_absolute fs (input_json opts))) gm (\<not> no_python opts)
            (backend opts) (ns_option opts) = Some (Inr (True, written r)))
    \<and> (ending r = Exits 0 \<or> written r = [])"
proof (cases rule: generate_into_cases [of it moved what fs opts gm])
  case (unusable out m)
  then show ?thesis using assms fails_code [of Exception] by auto
next
  case (usable out)
  then obtain x where g: "generateFromOpenAPI it moved (fs_json fs (fs_absolute fs (input_json opts))) gm (\<not> no_python opts)
      (backend opts) (ns_option opts) = Some x"
    and r: "r = (case x of Inl e \<Rightarrow> fails e out what
        | Inr (ok, files) \<Rightarrow> \<lparr>ending = Exits (if ok then 0 else - 1), cout = out, cerr = [], written = files\<rparr>)"
    using assms [unfolded usable(3) map_option_eq_Some] by blast
  show ?thesis
  proof (cases x)
    case (Inl e)
    then show ?thesis using fails_code [of e out what] usable(1,2) g by (simp add: r)
  next
    case (Inr y)
    obtain ok files where "y = (ok, files)" by (cases y)
    with Inr g show ?thesis using generate_false usable(1,2) by (cases ok) (auto simp: r)
  qed
qed

lemma generate_into_returns:
  assumes "hash_order it"
  shows "\<exists>r. generate_into it moved what fs opts gm = Some r"
proof (cases rule: generate_into_cases [of it moved what fs opts gm])
  case (usable out)
  then show ?thesis
    using generation_returns [OF assms, of moved "fs_json fs (fs_absolute fs (input_json opts))" gm "\<not> no_python opts"
        "backend opts" "ns_option opts"] by auto
qed auto

text \<open>C37: the exit code. Without help and without the module names, the program ends with 0 exactly if the
  mode is one of the three, the input is a regular file, the output directory is there or can be made, and
  generation succeeded; then the files are those of the generator, and in all other cases none is
  written.\<close>

theorem exit_code:
  assumes "hash_order it" and "\<not> help_asked opts" and "\<not> print_module_names opts"
  shows "\<exists>r. main it moved usage what fs (Some opts) = Some r
    \<and> (ending r = Exits 0 \<longleftrightarrow>
        (\<exists>gm. mode_of (mode_str opts) = Some gm \<and> fs_kind fs (input_json opts) = Some Regular
          \<and> output_usable fs (fs_absolute fs (output_dir opts)) \<and> generateFromOpenAPI it moved (fs_json fs (fs_absolute fs (input_json opts))) gm (\<not> no_python opts)
              (backend opts) (ns_option opts) = Some (Inr (True, written r))))
    \<and> (ending r = Exits 0 \<or> written r = [])"
proof (cases "mode_of (mode_str opts)")
  case None
  then show ?thesis using assms(2,3) by (simp add: main_def exits_def)
next
  case (Some gm)
  obtain r where g: "generate_into it moved what fs opts gm = Some r"
    using generate_into_returns [OF assms(1)] by blast
  from generate_into_zero [OF g] Some g assms(2,3) show ?thesis by (auto simp: main_def)
qed

text \<open>A file system with one document and an output directory.\<close>

definition sample_fs :: "json option \<Rightarrow> file_system" where
  "sample_fs doc = \<lparr>fs_kind = (\<lambda>p. if p = ''in'' then Some Regular else if p = ''out'' then Some Directory else None),
     fs_absolute = (\<lambda>p. p), fs_creatable = (\<lambda>p. False), fs_json = (\<lambda>p. if p = ''in'' then doc else None)\<rparr>"

definition sample_options :: options where
  "sample_options = default_options\<lparr>input_json := ''in'', output_dir := ''out''\<rparr>"

lemma sample_run:
  assumes "hash_order it"
  shows "\<exists>r. main it moved usage what (sample_fs (Some (J_Object pet_doc))) (Some sample_options) = Some r \<and> ending r = Exits 0"
proof -
  from pet_generates [OF assms, of moved GM_both True "[]"] obtain files where
    "generateFromOpenAPI it moved (Some (J_Object pet_doc)) GM_both True ''beast'' [] = Some (Inr (True, files))" by blast
  then show ?thesis
    by (simp add: main_def generate_into_def sample_options_def default_options_def sample_fs_def mode_of_def Let_def)
qed

theorem exit_code_witness:
  "\<exists>r. main rev [] [] [] (sample_fs (Some (J_Object pet_doc))) (Some sample_options) = Some r
    \<and> (\<exists>gm. generateFromOpenAPI rev [] (Some (J_Object pet_doc)) gm True ''beast'' [] = Some (Inr (True, written r)))"
proof -
  have o: "\<not> help_asked sample_options" "\<not> print_module_names sample_options"
    by (simp_all add: sample_options_def default_options_def)
  from sample_run [OF hash_order_rev, of "[]" "[]" "[]"] obtain r where
    r: "main rev [] [] [] (sample_fs (Some (J_Object pet_doc))) (Some sample_options) = Some r" "ending r = Exits 0" by blast
  have "\<exists>gm. generateFromOpenAPI rev [] (Some (J_Object pet_doc)) gm True ''beast'' [] = Some (Inr (True, written r))"
    using exit_code [OF hash_order_rev o, of "[]" "[]" "[]" "sample_fs (Some (J_Object pet_doc))"] r
    by (auto simp: sample_options_def default_options_def sample_fs_def)
  with r(1) show ?thesis by blast
qed

lemma emitted_cmake:
  assumes "emit_files it moved mode python ns_override title ast order endpoints = Some files"
  shows "map_of files ''siesta_info.cmake'' = Some (cmake_info (python \<and> mode \<noteq> GM_server) (python \<and> mode \<noteq> GM_client)
    (module_of_title title) (module_of_title title @ ''_server''))"
proof -
  let ?n = "module_of_title title" and ?ns = "if ns_override = [] then module_of_title title else ns_override"
  from assms obtain defs where d: "DefsGenerator it ?ns order ast = Some defs"
    and files: "files = defs @ (if mode \<noteq> GM_server then BeastClientGenerator ?ns endpoints else [])
      @ (if python \<and> mode \<noteq> GM_server then BeastPythonGenerator ?n ?ns endpoints else [])
      @ (if mode \<noteq> GM_client then BeastServerGenerator ?ns endpoints else [])
      @ (if python \<and> mode \<noteq> GM_client then BeastServerPythonGenerator (?n @ ''_server'') moved endpoints else [])
      @ [(''siesta_info.cmake'', cmake_info (python \<and> mode \<noteq> GM_server) (python \<and> mode \<noteq> GM_client) ?n (?n @ ''_server''))]"
    by (cases mode) (auto simp: emit_files_def Let_def)
  have "map_of defs ''siesta_info.cmake'' = None"
    using d by (auto simp: DefsGenerator_def DEFS_HPP_def DEFS_CPP_def bind_eq_Some_conv)
  then show ?thesis
    by (simp add: files map_add_def BeastClientGenerator_def BeastPythonGenerator_def BeastServerGenerator_def
        BeastServerPythonGenerator_def CLIENT_HPP_def PY_MODULE_def SERVER_HPP_def SERVER_CPP_def SERVER_PY_def)
qed

lemma generated_cmake:
  assumes "generateFromOpenAPI it moved parsed mode python be ns_override = Some (Inr (True, files))"
  obtains spec title where "parsed = Some (J_Object spec)" and "rbind (spec_info (Some spec)) Info_title = Inr title"
    and "map_of files ''siesta_info.cmake'' = Some (cmake_info (python \<and> mode \<noteq> GM_server) (python \<and> mode \<noteq> GM_client)
      (module_of_title title) (module_of_title title @ ''_server''))"
proof -
  obtain x where "OpenAPI_Load parsed = Inr x"
    using assms by (cases "OpenAPI_Load parsed") (auto simp: generateFromOpenAPI_def split: if_splits)
  then obtain spec where p: "parsed = Some (J_Object spec)"
    by (auto simp: OpenAPI_Load_def split: option.splits json.splits)
  from assms p obtain title ast endpoints where "rbind (spec_info (Some spec)) Info_title = Inr title"
    "emit_files it moved mode python ns_override title ast (sortTypes it ast) endpoints = Some files"
    by (auto simp: generateFromOpenAPI_def OpenAPI_Load_def Let_def split: if_splits sum.splits)
  from p this(1) emitted_cmake [OF this(2)] show thesis by (rule that)
qed

text \<open>C38: the names that \<open>--print-module-names\<close> prints are those of the modules in the file
  \<open>siesta_info.cmake\<close> that generation from the same document writes.\<close>

theorem printed_names:
  assumes "fs_json fs (fs_absolute fs (input_json opts)) = fs_json fs (input_json opts)" and "\<not> help_asked opts"
    and "main it moved usage what fs (Some (opts\<lparr>print_module_names := True\<rparr>)) = Some r" and "ending r = Exits 0"
    and "main it moved usage what fs (Some (opts\<lparr>print_module_names := False\<rparr>)) = Some r'" and "ending r' = Exits 0"
  shows "\<exists>client gm. cout r = line [''client='', client] @ line [''server='', client, ''_server''] \<and> mode_of (mode_str opts) = Some gm
    \<and> map_of (written r') ''siesta_info.cmake'' = Some (cmake_info (\<not> no_python opts \<and> gm \<noteq> GM_server)
        (\<not> no_python opts \<and> gm \<noteq> GM_client) client (client @ ''_server''))"
proof -
  from assms(2,5,6) obtain gm where gm: "mode_of (mode_str opts) = Some gm"
    and g: "generate_into it moved what fs (opts\<lparr>print_module_names := False\<rparr>) gm = Some r'"
    by (cases "mode_of (mode_str opts)") (auto simp: main_def exits_def)
  from generate_into_zero [OF g] assms(6) have "generateFromOpenAPI it moved (fs_json fs (fs_absolute fs (input_json opts))) gm
      (\<not> no_python opts) (backend opts) (ns_option opts) = Some (Inr (True, written r'))" by simp
  then obtain spec title where t: "fs_json fs (input_json opts) = Some (J_Object spec)"
      "rbind (spec_info (Some spec)) Info_title = Inr title"
    and c: "map_of (written r') ''siesta_info.cmake'' = Some (cmake_info (\<not> no_python opts \<and> gm \<noteq> GM_server)
        (\<not> no_python opts \<and> gm \<noteq> GM_client) (module_of_title title) (module_of_title title @ ''_server''))"
    unfolding assms(1) by (rule generated_cmake)
  have "r = print_names what fs (opts\<lparr>print_module_names := True\<rparr>)" using assms(2,3) by (simp add: main_def)
  then have "cout r = line [''client='', module_of_title title] @ line [''server='', module_of_title title, ''_server'']"
    using assms(4) t by (auto simp: print_names_def exits_def OpenAPI_Load_def module_of_title_def Let_def split: if_splits)
  with gm c show ?thesis by blast
qed

theorem printed_names_witness:
  "\<exists>r. main rev [] [] [] (sample_fs (Some (J_Object pet_doc))) (Some (sample_options\<lparr>print_module_names := True\<rparr>)) = Some r
    \<and> cout r = line [''client='', ''Pets''] @ line [''server='', ''Pets'', ''_server'']"
proof -
  let ?fs = "sample_fs (Some (J_Object pet_doc))"
  let ?r = "print_names [] ?fs (sample_options\<lparr>print_module_names := True\<rparr>)"
  have same: "sample_options\<lparr>print_module_names := False\<rparr> = sample_options"
    and h: "\<not> help_asked sample_options" and m: "mode_of (mode_str sample_options) = Some GM_both"
    by (simp_all add: sample_options_def default_options_def mode_of_def)
  have "sanitize ''Pets'' = ''Pets''" by code_simp
  then have p: "cout ?r = line [''client='', ''Pets''] @ line [''server='', ''Pets'', ''_server'']" "ending ?r = Exits 0"
    using sample_title [of "[(''Pet'', string_schema)]"]
    by (simp_all add: print_names_def exits_def sample_fs_def sample_options_def default_options_def OpenAPI_Load_def pet_doc_def
        Let_def)
  have r: "main rev [] [] [] ?fs (Some (sample_options\<lparr>print_module_names := True\<rparr>)) = Some ?r"
    using h by (simp add: main_def)
  from sample_run [OF hash_order_rev] obtain r' where
    "main rev [] [] [] ?fs (Some (sample_options\<lparr>print_module_names := False\<rparr>)) = Some r'" "ending r' = Exits 0"
    unfolding same by blast
  from printed_names [OF _ h r p(2) this] p r show ?thesis by (auto simp: sample_fs_def)
qed

end
