(* ===== verification/Json_Schema.thy ===== *)
theory Json_Schema
  imports Openapi
begin

text \<open>
  \<open>jsonschema/src/schema_types.hpp\<close> and the first half of \<open>schema_types.cpp\<close>: the schema tree, the
  tables for \<open>$ref\<close>, and the helpers on JSON values. Values are those of \<^typ>\<open>json\<close>; a double is
  the rational number it stands for, so the sign of a zero, which only shows in the text of a
  message, is left out.

  Memory as the code has it: \<open>parent\<close> and \<open>ids_\<close> hold addresses. The nodes are built in local variables
  and moved into the vector of their parent, so the only address that stays good is that of the
  member \<open>root_node_\<close>; the others are \<open>P_stale\<close> and \<open>T_stale\<close>. The table \<open>anchors_\<close> is filled when the
  tree is complete, its addresses are the positions in the tree.
\<close>

section \<open>Doubles\<close>

function num_digits :: "int \<Rightarrow> int \<Rightarrow> nat" where
  "num_digits b n = (if b < 2 \<or> n \<le> 0 then 0 else Suc (num_digits b (n div b)))"
  by pat_completeness auto

termination
proof (relation "measure (\<lambda>(b, n). nat n)")
  fix b n :: int
  assume "\<not> (b < 2 \<or> n \<le> 0)"
  then show "((b, n div b), b, n) \<in> measure (\<lambda>(b, n). nat n)" by (simp add: div_less_dividend int_div_less_self)
qed simp

declare num_digits.simps [simp del]

text \<open>The exponent of the leading digit of a positive number.\<close>

definition floor_log :: "int \<Rightarrow> rat \<Rightarrow> int" where
  "floor_log b x =
     (if 1 \<le> x then int (num_digits b \<lfloor>x\<rfloor>) - 1 else - int (num_digits b (\<lceil>1 / x\<rceil> - 1)))"

definition pow_rat :: "nat \<Rightarrow> int \<Rightarrow> rat" where
  "pow_rat b e = (if 0 \<le> e then of_nat b ^ nat e else 1 / of_nat b ^ nat (- e))"

definition round_half_even :: "rat \<Rightarrow> int" where
  "round_half_even x =
     (let f = \<lfloor>x\<rfloor>; r = x - of_int f
      in if r < 1 / 2 then f else if r > 1 / 2 then f + 1 else if even f then f else f + 1)"

text \<open>The nearest double: 53 significant bits. The conversions and differences the code makes stay
  above the subnormal range or are exact, and a difference that overflows is only compared with a
  small number, so the range of the exponent makes no difference.\<close>

definition to_double :: "rat \<Rightarrow> rat" where
  "to_double x =
     (if x = 0 then 0
      else let u = pow_rat 2 (floor_log 2 \<bar>x\<bar> - 52) in of_int (round_half_even (x / u)) * u)"

text \<open>The literal \<open>1e-10\<close>.\<close>

definition tolerance :: rat where
  "tolerance = 7737125245533627 / 2 ^ 86"

definition double_minus :: "rat \<Rightarrow> rat \<Rightarrow> rat" where
  "double_minus x y = to_double (x - y)"

text \<open>\<open>std::fmod\<close>, which is exact.\<close>

definition fmod :: "rat \<Rightarrow> rat \<Rightarrow> rat" where
  "fmod x y = (let q = x / y in x - of_int (if q < 0 then \<lceil>q\<rceil> else \<lfloor>q\<rfloor>) * y)"

definition pad_left :: "nat \<Rightarrow> string \<Rightarrow> string" where
  "pad_left n s = replicate (n - length s) (CHR ''0'') @ s"

text \<open>\<open>std::to_string(double)\<close>: six digits after the point.\<close>

definition double_to_string :: "rat \<Rightarrow> string" where
  "double_to_string d =
     (let n = nat (round_half_even (\<bar>d\<bar> * 10 ^ 6))
      in (if d < 0 then ''-'' else []) @ nat_to_string (n div 10 ^ 6) @ ''.'' @ pad_left 6 (nat_to_string (n mod 10 ^ 6)))"

text \<open>\<open>stream << double\<close>: six significant digits, without the trailing zeros; an exponent when it is
  below \<open>-4\<close> or not below \<open>6\<close>.\<close>

definition strip_zeros :: "string \<Rightarrow> string" where
  "strip_zeros s = rev (dropWhile (\<lambda>c. c = CHR ''0'') (rev s))"

definition with_point :: "string \<Rightarrow> string \<Rightarrow> string" where
  "with_point whole decimals = (if decimals = [] then whole else whole @ ''.'' @ decimals)"

definition stream_double :: "rat \<Rightarrow> string" where
  "stream_double d =
     (if d = 0 then ''0''
      else let x0 = floor_log 10 \<bar>d\<bar>;
               m0 = round_half_even (\<bar>d\<bar> / pow_rat 10 (x0 - 5));
               (x, m) = (if m0 = 10 ^ 6 then (x0 + 1, 10 ^ 5) else (x0, m0));
               s = nat_to_string (nat m)
           in (if d < 0 then ''-'' else [])
              @ (if x < - 4 \<or> 6 \<le> x
                 then with_point (take 1 s) (strip_zeros (drop 1 s)) @ ''e'' @ (if x < 0 then ''-'' else ''+'')
                      @ pad_left 2 (nat_to_string (nat \<bar>x\<bar>))
                 else if 0 \<le> x then with_point (take (nat x + 1) s) (strip_zeros (drop (nat x + 1) s))
                 else ''0.'' @ replicate (nat (- x) - 1) (CHR ''0'') @ strip_zeros s))"

section \<open>JSON values\<close>

text \<open>The type and the typed reads of an element: a number without fraction or exponent is an
  \<open>INT64\<close>, or a \<open>UINT64\<close> above its range; a read fails when the value is not of the type.\<close>

datatype element_type = E_ARRAY | E_OBJECT | E_INT64 | E_UINT64 | E_DOUBLE | E_STRING | E_BOOL | E_NULL

definition fits_int64 :: "int \<Rightarrow> bool" where
  "fits_int64 i \<longleftrightarrow> - (2 ^ 63) \<le> i \<and> i < 2 ^ 63"

fun elem_type :: "json \<Rightarrow> element_type" where
  "elem_type J_Null = E_NULL"
| "elem_type (J_Bool b) = E_BOOL"
| "elem_type (J_Int i) = (if fits_int64 i then E_INT64 else E_UINT64)"
| "elem_type (J_Double d) = E_DOUBLE"
| "elem_type (J_String s) = E_STRING"
| "elem_type (J_Array vs) = E_ARRAY"
| "elem_type (J_Object ms) = E_OBJECT"

fun read_string :: "json \<Rightarrow> string option" where
  "read_string (J_String s) = Some s"
| "read_string v = None"

fun read_int64 :: "json \<Rightarrow> int option" where
  "read_int64 (J_Int i) = (if fits_int64 i then Some i else None)"
| "read_int64 v = None"

fun read_uint64 :: "json \<Rightarrow> int option" where
  "read_uint64 (J_Int i) = (if 0 \<le> i then Some i else None)"
| "read_uint64 v = None"

fun read_double :: "json \<Rightarrow> rat option" where
  "read_double (J_Int i) = Some (to_double (of_int i))"
| "read_double (J_Double d) = Some d"
| "read_double v = None"

fun read_bool :: "json \<Rightarrow> bool option" where
  "read_bool (J_Bool b) = Some b"
| "read_bool v = None"

text \<open>\<open>for (auto x : value.get_array())\<close> and \<open>value.get_object()\<close> throw on a value of another type.\<close>

fun iter_array :: "json \<Rightarrow> json list result" where
  "iter_array (J_Array vs) = Inr vs"
| "iter_array v = Inl Exception"

fun iter_object :: "json \<Rightarrow> members result" where
  "iter_object (J_Object ms) = Inr ms"
| "iter_object v = Inl Exception"

text \<open>Numbers are compared with a tolerance, after the types; of an object only the members of \<open>a\<close>
  are looked at (\<open>map_b\<close> keeps the first member of a name).\<close>

fun json_equal :: "json \<Rightarrow> json \<Rightarrow> bool"
  and array_equal :: "json list \<Rightarrow> json list \<Rightarrow> bool"
  and object_within :: "members \<Rightarrow> members \<Rightarrow> bool"
  where
  "json_equal (J_Array xs) (J_Array ys) = array_equal xs ys"
| "json_equal (J_Object ms) (J_Object ns) = object_within ms ns"
| "json_equal (J_String s) (J_String t) = (s = t)"
| "json_equal (J_Bool p) (J_Bool q) = (p = q)"
| "json_equal J_Null J_Null = True"
| "json_equal (J_Int i) (J_Int j) =
     (fits_int64 i = fits_int64 j \<and> \<bar>double_minus (to_double (of_int i)) (to_double (of_int j))\<bar> < tolerance)"
| "json_equal (J_Double x) (J_Double y) = (\<bar>double_minus x y\<bar> < tolerance)"
| "json_equal _ _ = False"
| "array_equal (x # xs) (y # ys) = (json_equal x y \<and> array_equal xs ys)"
| "array_equal [] [] = True"
| "array_equal _ _ = False"
| "object_within [] ns = True"
| "object_within ((k, v) # ms) ns =
     ((case map_of ns k of None \<Rightarrow> False | Some w \<Rightarrow> json_equal v w) \<and> object_within ms ns)"

definition type_to_string :: "json \<Rightarrow> string" where
  "type_to_string v = (case elem_type v of
     E_ARRAY \<Rightarrow> ''array'' | E_OBJECT \<Rightarrow> ''object'' | E_INT64 \<Rightarrow> ''integer'' | E_UINT64 \<Rightarrow> ''integer''
   | E_DOUBLE \<Rightarrow> ''number'' | E_STRING \<Rightarrow> ''string'' | E_BOOL \<Rightarrow> ''boolean'' | E_NULL \<Rightarrow> ''null'')"

definition check_type_match :: "json \<Rightarrow> string \<Rightarrow> bool" where
  "check_type_match v t = (case v of
     J_Array _ \<Rightarrow> t = ''array'' | J_Object _ \<Rightarrow> t = ''object'' | J_String _ \<Rightarrow> t = ''string''
   | J_Bool _ \<Rightarrow> t = ''boolean'' | J_Null \<Rightarrow> t = ''null''
   | J_Int _ \<Rightarrow> t = ''integer'' \<or> t = ''number''
   | J_Double d \<Rightarrow> (if t = ''number'' then True else if t = ''integer'' then of_int \<lfloor>d\<rfloor> = d else False))"

section \<open>The schema tree\<close>

record SchemaURI =
  uri_base :: string
  uri_fragment :: string

definition parse_uri :: "string \<Rightarrow> SchemaURI" where
  "parse_uri uri =
     (if CHR ''#'' \<in> set uri
      then \<lparr>uri_base = takeWhile (\<lambda>c. c \<noteq> CHR ''#'') uri, uri_fragment = dropWhile (\<lambda>c. c \<noteq> CHR ''#'') uri\<rparr>
      else \<lparr>uri_base = uri, uri_fragment = []\<rparr>)"

definition uri_to_string :: "SchemaURI \<Rightarrow> string" where
  "uri_to_string u = uri_base u @ (if uri_fragment u \<noteq> [] then uri_fragment u else [])"

definition resolve_fragment :: "SchemaURI \<Rightarrow> string" where
  "resolve_fragment u =
     (if uri_fragment u = [] then (if uri_base u = [] then ''#'' else uri_base u) else uri_fragment u)"

lemma uri_to_string_parse [simp]: "uri_to_string (parse_uri s) = s"
  by (auto simp: uri_to_string_def parse_uri_def)

type_synonym InstanceLocation = "string list"

definition location_to_string :: "InstanceLocation \<Rightarrow> string" where
  "location_to_string segments = concat (map (\<lambda>seg. CHR ''/'' # seg) segments)"

definition location_append :: "InstanceLocation \<Rightarrow> string \<Rightarrow> InstanceLocation" where
  "location_append loc segment = loc @ [segment]"

datatype Keyword = K_Unknown
  | K_Type | K_Enum | K_Const | K_MultipleOf | K_Maximum | K_Minimum | K_ExclusiveMaximum | K_ExclusiveMinimum
  | K_MaxLength | K_MinLength | K_Pattern | K_MaxItems | K_MinItems | K_UniqueItems | K_MaxContains
  | K_MinContains | K_MaxProperties | K_MinProperties | K_Required | K_DependentRequired
  | K_AllOf | K_AnyOf | K_OneOf | K_Not
  | K_Properties | K_PatternProperties | K_AdditionalProperties | K_PropertyNames | K_Items | K_PrefixItems
  | K_AdditionalItems | K_UnevaluatedItems | K_UnevaluatedProperties | K_Contains
  | K_Title | K_Description | K_Default | K_Deprecated | K_ReadOnly | K_WriteOnly
  | K_ContentEncoding | K_ContentMediaType | K_ContentSchema
  | K_Schema | K_ID | K_Anchor | K_Ref | K_DynamicRef | K_DynamicAnchor | K_Defs | K_Definitions
  | K_If | K_Then | K_Else | K_DependentSchemas

definition keyword_table :: "(string \<times> Keyword) list" where
  "keyword_table =
     [(''$schema'', K_Schema), (''$id'', K_ID), (''$anchor'', K_Anchor), (''$ref'', K_Ref),
      (''$dynamicRef'', K_DynamicRef), (''$dynamicAnchor'', K_DynamicAnchor), (''$defs'', K_Defs),
      (''definitions'', K_Definitions), (''type'', K_Type), (''enum'', K_Enum), (''const'', K_Const),
      (''multipleOf'', K_MultipleOf), (''maximum'', K_Maximum), (''minimum'', K_Minimum),
      (''exclusiveMaximum'', K_ExclusiveMaximum), (''exclusiveMinimum'', K_ExclusiveMinimum),
      (''maxLength'', K_MaxLength), (''minLength'', K_MinLength), (''pattern'', K_Pattern),
      (''maxItems'', K_MaxItems), (''minItems'', K_MinItems), (''uniqueItems'', K_UniqueItems),
      (''maxContains'', K_MaxContains), (''minContains'', K_MinContains),
      (''maxProperties'', K_MaxProperties), (''minProperties'', K_MinProperties),
      (''required'', K_Required), (''dependentRequired'', K_DependentRequired),
      (''properties'', K_Properties), (''patternProperties'', K_PatternProperties),
      (''additionalProperties'', K_AdditionalProperties),
      (''unevaluatedProperties'', K_UnevaluatedProperties), (''propertyNames'', K_PropertyNames),
      (''items'', K_Items), (''prefixItems'', K_PrefixItems), (''additionalItems'', K_AdditionalItems),
      (''unevaluatedItems'', K_UnevaluatedItems), (''contains'', K_Contains), (''allOf'', K_AllOf),
      (''anyOf'', K_AnyOf), (''oneOf'', K_OneOf), (''not'', K_Not), (''if'', K_If), (''then'', K_Then),
      (''else'', K_Else), (''dependentSchemas'', K_DependentSchemas), (''title'', K_Title),
      (''description'', K_Description), (''default'', K_Default), (''deprecated'', K_Deprecated),
      (''readOnly'', K_ReadOnly), (''writeOnly'', K_WriteOnly), (''contentEncoding'', K_ContentEncoding),
      (''contentMediaType'', K_ContentMediaType), (''contentSchema'', K_ContentSchema)]"

definition keyword_of :: "string \<Rightarrow> Keyword" where
  "keyword_of key = (case map_of keyword_table key of Some kw \<Rightarrow> kw | None \<Rightarrow> K_Unknown)"

datatype parent = P_null | P_root | P_stale

datatype SchemaNode = SchemaNode
  (n_uri: SchemaURI) (n_id: string) (n_anchor: string) (n_dynamic_anchor: string)
  (n_keyword: Keyword) (n_value: json) (n_children: "SchemaNode list") (n_parent: parent)

definition has_id :: "SchemaNode \<Rightarrow> bool" where "has_id node \<longleftrightarrow> n_id node \<noteq> []"
definition has_anchor :: "SchemaNode \<Rightarrow> bool" where "has_anchor node \<longleftrightarrow> n_anchor node \<noteq> []"
definition has_dynamic_anchor :: "SchemaNode \<Rightarrow> bool" where
  "has_dynamic_anchor node \<longleftrightarrow> n_dynamic_anchor node \<noteq> []"

section \<open>Building the tree\<close>

text \<open>What building changes besides the tree: the keys of \<open>ids_\<close>, whose addresses are stale, and the
  base of the root's URI.\<close>

record build_state =
  stale_ids :: "string list"
  root_base :: string

text \<open>The node of a keyword before its children, with the URI the later members use: \<open>$id\<close> replaces
  it. \<open>orphan\<close> is \<open>node.parent == nullptr\<close>, \<open>self\<close> the address of \<open>node\<close>.\<close>

definition id_value :: "Keyword \<Rightarrow> json \<Rightarrow> string option" where
  "id_value kw value = (if kw = K_ID then read_string value else None)"

definition open_child ::
  "string \<Rightarrow> Keyword \<Rightarrow> json \<Rightarrow> bool \<Rightarrow> parent \<Rightarrow> SchemaURI \<Rightarrow> build_state \<Rightarrow> SchemaNode \<times> SchemaURI \<times> build_state" where
  "open_child key kw value orphan self uri st =
     (let child_uri = parse_uri (uri_to_string uri @ ''/'' @ key);
          anchor = (if kw = K_Anchor then map_option (\<lambda>a. CHR ''#'' # a) (read_string value) else None);
          dynamic = (if kw = K_DynamicAnchor then map_option (\<lambda>a. CHR ''#'' # a) (read_string value) else None);
          (uri', st') = (case id_value kw value of
              None \<Rightarrow> (uri, st)
            | Some ident \<Rightarrow> (parse_uri ident,
                st\<lparr>stale_ids := stale_ids st @ [ident], root_base := if orphan then ident else root_base st\<rparr>))
      in (SchemaNode (case anchor of None \<Rightarrow> child_uri | Some a \<Rightarrow> child_uri\<lparr>uri_fragment := a\<rparr>)
            (case id_value kw value of None \<Rightarrow> [] | Some ident \<Rightarrow> ident)
            (case anchor of None \<Rightarrow> [] | Some a \<Rightarrow> a) (case dynamic of None \<Rightarrow> [] | Some a \<Rightarrow> a) kw value [] self,
          uri', st'))"

definition set_children :: "SchemaNode \<Rightarrow> SchemaNode list \<Rightarrow> SchemaNode" where
  "set_children node chs = SchemaNode (n_uri node) (n_id node) (n_anchor node) (n_dynamic_anchor node)
     (n_keyword node) (n_value node) chs (n_parent node)"

definition set_uri :: "SchemaNode \<Rightarrow> SchemaURI \<Rightarrow> SchemaNode" where
  "set_uri node uri = SchemaNode uri (n_id node) (n_anchor node) (n_dynamic_anchor node)
     (n_keyword node) (n_value node) (n_children node) (n_parent node)"

text \<open>The URI of a definition, with the base alone for one of the root.\<close>

definition def_uri :: "string \<Rightarrow> string \<Rightarrow> bool \<Rightarrow> SchemaURI \<Rightarrow> string" where
  "def_uri key def_name orphan uri =
     (if uri_base uri \<noteq> [] \<and> uri_fragment uri = [] \<and> orphan
      then uri_base uri @ ''#/definitions/'' @ def_name
      else uri_to_string uri @ ''/'' @ key @ ''/'' @ def_name)"

text \<open>A node with no keyword, no parent and the given value.\<close>

definition plain_node :: "string \<Rightarrow> Keyword \<Rightarrow> json \<Rightarrow> SchemaNode list \<Rightarrow> SchemaNode" where
  "plain_node uri kw value chs = SchemaNode (parse_uri uri) [] [] [] kw value chs P_null"

definition is_object :: "json \<Rightarrow> bool" where
  "is_object v = (case v of J_Object _ \<Rightarrow> True | _ \<Rightarrow> False)"

fun keyed_items :: "nat \<Rightarrow> json list \<Rightarrow> members" where
  "keyed_items i [] = []"
| "keyed_items i (v # vs) = (nat_to_string i, v) # keyed_items (i + 1) vs"

definition values_size :: "members \<Rightarrow> nat" where
  "values_size ms = sum_list (map (\<lambda>(k, v). Suc (size v)) ms)"

lemma values_size_simps [simp]:
  "values_size [] = 0" "values_size ((k, v) # ms) = Suc (size v) + values_size ms"
  by (simp_all add: values_size_def)

lemma values_size_object: "values_size ms < size (J_Object ms)"
proof (induction ms)
  case (Cons m ms)
  then show ?case by (cases m) simp
qed simp

lemma values_size_items: "values_size (keyed_items i vs) < size (J_Array vs)"
  by (induction vs arbitrary: i) (auto simp: less_Suc_eq_le)

lemma iter_Inr_iff:
  "iter_object v = Inr ms \<longleftrightarrow> v = J_Object ms" "iter_array v = Inr vs \<longleftrightarrow> v = J_Array vs"
  by (cases v; simp)+

text \<open>The result is the list of nodes that are pushed to \<open>node.children\<close>. The items of \<open>allOf\<close>,
  \<open>anyOf\<close>, \<open>oneOf\<close> and \<open>prefixItems\<close> are pushed one by one, without a node for the keyword.\<close>

function (sequential) build_schema_tree ::
    "json \<Rightarrow> bool \<Rightarrow> parent \<Rightarrow> SchemaURI \<Rightarrow> build_state \<Rightarrow> (SchemaNode list \<times> build_state) result"
  and build_fields ::
    "members \<Rightarrow> bool \<Rightarrow> parent \<Rightarrow> SchemaURI \<Rightarrow> build_state \<Rightarrow> (SchemaNode list \<times> build_state) result"
  and build_keyword ::
    "string \<Rightarrow> Keyword \<Rightarrow> json \<Rightarrow> SchemaNode \<Rightarrow> bool \<Rightarrow> SchemaURI \<Rightarrow> build_state \<Rightarrow> (SchemaNode list \<times> build_state) result"
  and build_defs ::
    "members \<Rightarrow> string \<Rightarrow> SchemaNode \<Rightarrow> bool \<Rightarrow> SchemaURI \<Rightarrow> build_state \<Rightarrow> (SchemaNode list \<times> build_state) result"
  and build_nodes :: "string \<Rightarrow> members \<Rightarrow> build_state \<Rightarrow> (SchemaNode list \<times> build_state) result"
  where
  "build_schema_tree (J_Object ms) orphan self uri st = build_fields ms orphan self uri st"
| "build_schema_tree v orphan self uri st = Inr ([], st)"
| "build_fields [] orphan self uri st = Inr ([], st)"
| "build_fields ((key, value) # ms) orphan self uri st =
     (let kw = keyword_of key
      in if kw = K_Unknown then build_fields ms orphan self uri st
         else
           let (child, uri1, st1) = open_child key kw value orphan self uri st
           in rbind (build_keyword key kw value child orphan uri1 st1) (\<lambda>(nodes, st2).
              rbind (build_fields ms orphan self uri1 st2) (\<lambda>(rest, st3). Inr (nodes @ rest, st3))))"
| "build_keyword key kw value child orphan uri st =
     (if kw \<in> {K_Defs, K_Definitions} then
        rbind (iter_object value) (\<lambda>ds. build_defs ds key child orphan uri st)
      else if kw \<in> {K_Properties, K_PatternProperties, K_DependentRequired, K_DependentSchemas} then
        (let kw_uri = uri_to_string uri @ ''/'' @ key
         in rbind (iter_object value) (\<lambda>props.
            rbind (build_nodes (uri_to_string (parse_uri kw_uri)) props st) (\<lambda>(chs, st1).
              Inr ([plain_node kw_uri kw value chs], st1))))
      else if kw \<in> {K_AllOf, K_AnyOf, K_OneOf, K_PrefixItems} then
        rbind (iter_array value) (\<lambda>items. build_nodes (uri_to_string uri @ ''/'' @ key) (keyed_items 0 items) st)
      else if is_object value then
        rbind (build_schema_tree value False P_stale (n_uri child) st) (\<lambda>(chs, st1).
          Inr ([set_children child chs], st1))
      else Inr ([child], st))"
| "build_defs [] key child orphan uri st = Inr ([], st)"
| "build_defs ((def_name, v) # ds) key child orphan uri st =
     (let u = parse_uri (def_uri key def_name orphan uri)
      in rbind (build_schema_tree v False P_stale u st) (\<lambda>(chs, st1).
         rbind (build_defs ds key child orphan uri st1) (\<lambda>(rest, st2).
           Inr (set_children (set_uri child u) chs # rest, st2))))"
| "build_nodes prefix_uri [] st = Inr ([], st)"
| "build_nodes prefix_uri ((name, v) # ms) st =
     (let u = prefix_uri @ ''/'' @ name
      in rbind (build_schema_tree v True P_stale (parse_uri u) st) (\<lambda>(chs, st1).
         rbind (build_nodes prefix_uri ms st1) (\<lambda>(rest, st2).
           Inr (plain_node u K_Unknown v chs # rest, st2))))"
  by pat_completeness auto

termination
proof (relation "measure (case_sum
    (case_sum (\<lambda>(v, _). 2 * size v) (\<lambda>(ms, _). 2 * values_size ms))
    (case_sum (\<lambda>(_, _, v, _). 2 * size v + 1)
      (case_sum (\<lambda>(ms, _). 2 * values_size ms) (\<lambda>(_, ms, _). 2 * values_size ms))))")
qed (use values_size_object values_size_items in \<open>auto simp: iter_Inr_iff less_Suc_eq\<close>)

declare build_schema_tree.simps [simp del] build_keyword.simps [simp del] build_fields.simps(2) [simp del]
  build_defs.simps(2) [simp del] build_nodes.simps(2) [simp del]

section \<open>The tables for references\<close>

datatype target = T_node "nat list" | T_stale

fun node_at :: "SchemaNode \<Rightarrow> nat list \<Rightarrow> SchemaNode option" where
  "node_at node [] = Some node"
| "node_at node (i # is) = (if i < length (n_children node) then node_at (n_children node ! i) is else None)"

text \<open>\<open>emplace\<close> keeps an entry that is there.\<close>

definition emplace :: "string \<Rightarrow> 'v \<Rightarrow> (string, 'v) umap \<Rightarrow> (string, 'v) umap" where
  "emplace k v m = (if k \<in> key_set m then m else m @ [(k, v)])"

record ref_tables =
  anchor_table :: "(string, nat list) umap"
  id_table :: "(string, target) umap"

definition register :: "nat list \<Rightarrow> SchemaNode \<Rightarrow> ref_tables \<Rightarrow> ref_tables" where
  "register pos node t =
     (let t1 = (if has_anchor node then t\<lparr>anchor_table := emplace (uri_to_string (n_uri node)) pos (anchor_table t)\<rparr> else t);
          t2 = (if has_id node then t1\<lparr>id_table := emplace (n_id node) (T_node pos) (id_table t1)\<rparr> else t1);
          t3 = (if has_dynamic_anchor node then t2\<lparr>anchor_table := emplace (n_dynamic_anchor node) pos (anchor_table t2)\<rparr> else t2)
      in t3\<lparr>anchor_table := emplace (uri_to_string (n_uri node)) pos (anchor_table t3)\<rparr>)"

fun collect_anchors :: "nat list \<Rightarrow> SchemaNode \<Rightarrow> ref_tables \<Rightarrow> ref_tables"
  and collect_children :: "nat list \<Rightarrow> nat \<Rightarrow> SchemaNode list \<Rightarrow> ref_tables \<Rightarrow> ref_tables"
  where
  "collect_anchors pos (SchemaNode u ident a d kw v chs p) t =
     collect_children pos 0 chs (register pos (SchemaNode u ident a d kw v chs p) t)"
| "collect_children pos i [] t = t"
| "collect_children pos i (c # cs) t = collect_children pos (i + 1) cs (collect_anchors (pos @ [i]) c t)"

record ValidationError =
  ve_location :: InstanceLocation
  ve_schema_uri :: string
  ve_message :: string

record SchemaCompiler =
  root_node :: SchemaNode
  tables :: ref_tables
  error_list :: "ValidationError list"

text \<open>The last resort is the fragment, alone and with the base of the root.\<close>

definition find_ref :: "SchemaCompiler \<Rightarrow> string \<Rightarrow> target option" where
  "find_ref c ref_uri =
     (let anchors = anchor_table (tables c); root = uri_base (n_uri (root_node c)) in
      case map_of anchors ref_uri of
        Some pos \<Rightarrow> Some (T_node pos)
      | None \<Rightarrow>
      (case map_of (id_table (tables c)) ref_uri of
        Some tgt \<Rightarrow> Some tgt
      | None \<Rightarrow>
      if CHR ''#'' \<in> set ref_uri then
        (let fragment = dropWhile (\<lambda>c. c \<noteq> CHR ''#'') ref_uri in
         case map_of anchors fragment of
           Some pos \<Rightarrow> Some (T_node pos)
         | None \<Rightarrow> if root \<noteq> [] then map_option T_node (map_of anchors (root @ fragment)) else None)
      else None))"

text \<open>The entries that building made, with the addresses of variables that are gone.\<close>

definition add_stale :: "string list \<Rightarrow> ref_tables \<Rightarrow> ref_tables" where
  "add_stale ks t = fold (\<lambda>k t. t\<lparr>id_table := emplace k T_stale (id_table t)\<rparr>) ks t"

text \<open>\<open>parse\<close> is the JSON library's parser. An exception leaves \<open>compile\<close>.\<close>

definition root_uri :: SchemaURI where
  "root_uri = parse_uri ''#''"

definition compile :: "(string \<Rightarrow> json option) \<Rightarrow> string \<Rightarrow> SchemaCompiler \<Rightarrow> (bool \<times> SchemaCompiler) result" where
  "compile parse schema_json c =
     (case parse schema_json of
        None \<Rightarrow> Inr (False, c\<lparr>error_list := [], tables := \<lparr>anchor_table = [], id_table = []\<rparr>\<rparr>)
      | Some v \<Rightarrow>
          rbind (build_schema_tree v True P_root root_uri \<lparr>stale_ids = [], root_base = uri_base root_uri\<rparr>)
            (\<lambda>(chs, b).
              let root = SchemaNode (root_uri\<lparr>uri_base := root_base b\<rparr>) [] [] [] K_Schema v chs P_null;
                  t = add_stale (stale_ids b) \<lparr>anchor_table = [], id_table = []\<rparr>
              in Inr (True, c\<lparr>root_node := root, tables := collect_anchors [] root t, error_list := []\<rparr>)))"

section \<open>The nodes of a compiled tree\<close>

text \<open>Every node below a list of nodes.\<close>

fun all_nodes :: "SchemaNode \<Rightarrow> SchemaNode set" where
  "all_nodes (SchemaNode u ident a d kw v chs p) = insert (SchemaNode u ident a d kw v chs p) (\<Union>c \<in> set chs. all_nodes c)"

declare all_nodes.simps [simp del]

lemma all_nodes_unfold: "all_nodes node = insert node (\<Union>c \<in> set (n_children node). all_nodes c)"
  by (cases node) (simp add: all_nodes.simps)

definition composition_keywords :: "Keyword set" where
  "composition_keywords = {K_AllOf, K_AnyOf, K_OneOf, K_PrefixItems}"

text \<open>\<open>built_ok S node\<close>: below the node, no keyword of composition, no id outside \<open>S\<close>, and no parent that
  is the root.\<close>

definition built_ok :: "string set \<Rightarrow> SchemaNode \<Rightarrow> bool" where
  "built_ok S node \<longleftrightarrow> (\<forall>n \<in> all_nodes node. n_keyword n \<notin> composition_keywords \<and> n_id n \<in> insert [] S
     \<and> (\<forall>c \<in> set (n_children n). n_parent c \<noteq> P_root))"

lemma built_ok_unfold:
  "built_ok S node \<longleftrightarrow> n_keyword node \<notin> composition_keywords \<and> n_id node \<in> insert [] S
     \<and> (\<forall>c \<in> set (n_children node). n_parent c \<noteq> P_root \<and> built_ok S c)"
  unfolding built_ok_def by (subst all_nodes_unfold) auto

lemma built_ok_mono: "built_ok S node \<Longrightarrow> S \<subseteq> T \<Longrightarrow> built_ok T node"
  unfolding built_ok_def by blast

lemma set_children_sels [simp]:
  "n_keyword (set_children n chs) = n_keyword n" "n_id (set_children n chs) = n_id n"
  "n_children (set_children n chs) = chs" "n_parent (set_children n chs) = n_parent n"
  "n_keyword (set_uri n u) = n_keyword n" "n_id (set_uri n u) = n_id n" "n_parent (set_uri n u) = n_parent n"
  "n_children (set_uri n u) = n_children n"
  by (simp_all add: set_children_def set_uri_def)

lemma plain_node_sels [simp]:
  "n_keyword (plain_node u kw v chs) = kw" "n_id (plain_node u kw v chs) = []"
  "n_children (plain_node u kw v chs) = chs" "n_parent (plain_node u kw v chs) = P_null"
  by (simp_all add: plain_node_def)

lemma open_child_ok:
  assumes "open_child key kw value orphan self uri st = (child, uri1, st1)"
  shows "n_keyword child = kw" and "n_parent child = self" and "n_children child = []"
    and "set (stale_ids st) \<subseteq> set (stale_ids st1)" and "n_id child \<in> insert [] (set (stale_ids st1))"
  using assms by (auto simp: open_child_def Let_def split: option.splits prod.splits)

text \<open>\<open>pushed self st r\<close>: the nodes of the result are well built and their parents are \<open>self\<close> or null.\<close>

definition pushed :: "parent set \<Rightarrow> build_state \<Rightarrow> (SchemaNode list \<times> build_state) result \<Rightarrow> bool" where
  "pushed P st r \<longleftrightarrow> (\<forall>nodes st'. r = Inr (nodes, st') \<longrightarrow> set (stale_ids st) \<subseteq> set (stale_ids st')
     \<and> (\<forall>n \<in> set nodes. built_ok (set (stale_ids st')) n \<and> n_parent n \<in> insert P_null P))"

lemma pushed_simps [simp]: "pushed P st (Inl e)" "pushed P st (Inr ([], st))"
  by (simp_all add: pushed_def)

lemma pushed_mono: "pushed P st r \<Longrightarrow> P \<subseteq> Q \<Longrightarrow> pushed Q st r"
  unfolding pushed_def by blast

lemma pushed_append:
  assumes "pushed P st r" and "\<And>nodes st1. r = Inr (nodes, st1) \<Longrightarrow> pushed P st1 (f st1)"
  shows "pushed P st (rbind r (\<lambda>(nodes, st1). rbind (f st1) (\<lambda>(rest, st2). Inr (nodes @ rest, st2))))"
  unfolding pushed_def
proof (intro allI impI)
  fix nodes st'
  assume "rbind r (\<lambda>(nodes, st1). rbind (f st1) (\<lambda>(rest, st2). Inr (nodes @ rest, st2))) = Inr (nodes, st')"
  then obtain ns st1 rest where *: "r = Inr (ns, st1)" "f st1 = Inr (rest, st')" "nodes = ns @ rest"
    by (auto simp: rbind_Inr_iff)
  with assms(1) assms(2) [OF *(1)] show "set (stale_ids st) \<subseteq> set (stale_ids st')
      \<and> (\<forall>n \<in> set nodes. built_ok (set (stale_ids st')) n \<and> n_parent n \<in> insert P_null P)"
    unfolding pushed_def by (auto intro: built_ok_mono)
qed

lemma pushed_wrap:
  assumes "pushed {P_stale} st r"
    and "\<And>chs st1. r = Inr (chs, st1) \<Longrightarrow> n_children (g chs) = chs \<and> n_keyword (g chs) \<notin> composition_keywords
      \<and> n_id (g chs) \<in> insert [] (set (stale_ids st)) \<and> n_parent (g chs) \<in> insert P_null P"
  shows "pushed P st (rbind r (\<lambda>(chs, st1). Inr ([g chs], st1)))"
  using assms by (fastforce simp: pushed_def rbind_Inr_iff built_ok_unfold [of _ "g _"])

lemma pushed_extend: "set (stale_ids st) \<subseteq> set (stale_ids st1) \<Longrightarrow> pushed P st1 r \<Longrightarrow> pushed P st r"
  unfolding pushed_def by blast

lemma pushed_one_more:
  assumes "pushed {P_stale} st r"
    and "\<And>chs. n_children (g chs) = chs \<and> n_keyword (g chs) \<notin> composition_keywords
      \<and> n_id (g chs) \<in> insert [] (set (stale_ids st)) \<and> n_parent (g chs) \<in> insert P_null P"
    and "\<And>chs st1. r = Inr (chs, st1) \<Longrightarrow> pushed P st1 (f st1)"
  shows "pushed P st (rbind r (\<lambda>(chs, st1). rbind (f st1) (\<lambda>(rest, st2). Inr (g chs # rest, st2))))"
proof -
  have "rbind r (\<lambda>(chs, st1). rbind (f st1) (\<lambda>(rest, st2). Inr (g chs # rest, st2)))
      = rbind (rbind r (\<lambda>(chs, st1). Inr ([g chs], st1))) (\<lambda>(nodes, st1). rbind (f st1) (\<lambda>(rest, st2). Inr (nodes @ rest, st2)))"
    by (cases r) (auto split: prod.splits)
  moreover have "pushed P st (rbind r (\<lambda>(chs, st1). Inr ([g chs], st1)))"
    using assms(1,2) by (intro pushed_wrap) auto
  ultimately show ?thesis using assms(3) by (auto intro!: pushed_append simp: rbind_Inr_iff)
qed

lemma pushed_idsD: "pushed P st (Inr (nodes, st1)) \<Longrightarrow> x \<in> set (stale_ids st) \<Longrightarrow> x \<in> set (stale_ids st1)"
  unfolding pushed_def by blast

lemma build_pushed:
  "pushed {self} st (build_schema_tree v orphan self uri st)"
  "pushed {self} st (build_fields ms orphan self uri st)"
  "n_keyword child = kw \<Longrightarrow> n_id child \<in> insert [] (set (stale_ids st)) \<Longrightarrow> n_children child = [] \<Longrightarrow>
    pushed {n_parent child} st (build_keyword key kw w child orphan uri st)"
  "n_keyword child \<notin> composition_keywords \<Longrightarrow> n_id child \<in> insert [] (set (stale_ids st)) \<Longrightarrow>
    pushed {n_parent child} st (build_defs ds key child orphan uri st)"
  "pushed {} st (build_nodes prefix_uri ms st)"
proof (induction v orphan self uri st and ms orphan self uri st and key kw w child orphan uri st
    and ds key child orphan uri st and prefix_uri ms st
    rule: build_schema_tree_build_fields_build_keyword_build_defs_build_nodes.induct)
  case (4 key w ms orphan self uri st)
  show ?case
  proof (cases "keyword_of key = K_Unknown")
    case False
    obtain child uri1 st1 where o: "open_child key (keyword_of key) w orphan self uri st = (child, uri1, st1)"
      by (cases "open_child key (keyword_of key) w orphan self uri st") auto
    note c = open_child_ok [OF o]
    have "pushed {self} st1 (build_keyword key (keyword_of key) w child orphan uri1 st1)"
      using 4(2) [OF refl False o [symmetric] refl] c by simp
    then have "pushed {self} st (build_keyword key (keyword_of key) w child orphan uri1 st1)"
      using c(4) by (rule pushed_extend [rotated])
    then show ?thesis
      using False 4(3) [OF refl False o [symmetric] refl]
      by (auto simp: build_fields.simps(2) o Let_def intro!: pushed_append)
  qed (use 4(1) in \<open>simp add: build_fields.simps(2)\<close>)
next
  case (5 key kw w child orphan uri st)
  note IH = 5(1-4) and c = 5(5-7)
  let ?D = "{K_Defs, K_Definitions}" and ?P = "{K_Properties, K_PatternProperties, K_DependentRequired, K_DependentSchemas}"
    and ?C = "{K_AllOf, K_AnyOf, K_OneOf, K_PrefixItems}"
  consider "kw \<in> ?D" | "kw \<notin> ?D" "kw \<in> ?P" | "kw \<notin> ?D" "kw \<notin> ?P" "kw \<in> ?C" | "kw \<notin> ?D" "kw \<notin> ?P" "kw \<notin> ?C" by blast
  then show ?case
  proof cases
    case 1
    then have "n_keyword child \<notin> composition_keywords" using c by (auto simp: composition_keywords_def)
    with 1 IH(1) c show ?thesis
      by (cases "iter_object w") (simp_all add: build_keyword.simps iter_Inr_iff)
  next
    case 2
    then have "kw \<notin> composition_keywords" by (auto simp: composition_keywords_def)
    with 2 IH(2) show ?thesis
      by (cases "iter_object w") (auto simp: build_keyword.simps Let_def intro!: pushed_wrap intro: pushed_mono)
  next
    case 3
    with IH(3) show ?thesis by (cases "iter_array w") (auto simp: build_keyword.simps intro: pushed_mono)
  next
    case 4
    then have k: "kw \<notin> composition_keywords" by (auto simp: composition_keywords_def)
    show ?thesis
    proof (cases "is_object w")
      case True
      with 4 IH(4) c k show ?thesis by (auto simp: build_keyword.simps intro!: pushed_wrap)
    next
      case False
      with 4 c k show ?thesis
        by (auto simp: build_keyword.simps pushed_def built_ok_unfold [of _ child])
    qed
  qed
next
  case (7 def_name v ds key child orphan uri st)
  then show ?case by (auto simp: build_defs.simps(2) Let_def intro!: pushed_one_more) (use pushed_idsD in blast)
next
  case (9 prefix_uri name v ms st)
  then show ?case by (auto simp: build_nodes.simps(2) Let_def composition_keywords_def intro!: pushed_one_more)
qed (simp_all add: build_schema_tree.simps)

text \<open>\<open>tables_ok rt S t\<close>: an anchor leads to a node of the tree that has it as URI or as dynamic anchor;
  all the ids are stale, and those of \<open>S\<close> are there.\<close>

definition tables_ok :: "SchemaNode \<Rightarrow> string set \<Rightarrow> ref_tables \<Rightarrow> bool" where
  "tables_ok rt S t \<longleftrightarrow>
     (\<forall>(k, pos) \<in> set (anchor_table t). \<exists>n. node_at rt pos = Some n
        \<and> (k = uri_to_string (n_uri n) \<or> k = n_dynamic_anchor n))
     \<and> (\<forall>(k, tgt) \<in> set (id_table t). tgt = T_stale) \<and> S \<subseteq> key_set (id_table t)"

lemma key_set_emplace [simp]: "key_set (emplace k v m) = insert k (key_set m)"
  by (auto simp: emplace_def key_set_def)

lemma set_emplace: "set (emplace k v m) \<subseteq> insert (k, v) (set m)"
  by (simp add: emplace_def subset_insertI)

lemma emplace_same: "k \<in> key_set m \<Longrightarrow> emplace k v m = m"
  by (simp add: emplace_def)

lemma tables_ok_anchor:
  assumes "tables_ok rt S t" and "node_at rt pos = Some n" and "k = uri_to_string (n_uri n) \<or> k = n_dynamic_anchor n"
  shows "tables_ok rt S (t\<lparr>anchor_table := emplace k pos (anchor_table t)\<rparr>)"
proof -
  have "\<exists>n. node_at rt q = Some n \<and> (l = uri_to_string (n_uri n) \<or> l = n_dynamic_anchor n)"
    if "(l, q) \<in> set (emplace k pos (anchor_table t))" for l q
    using that set_emplace [of k pos "anchor_table t"] assms by (cases "(l, q) = (k, pos)") (auto simp: tables_ok_def)
  then show ?thesis using assms(1) by (auto simp: tables_ok_def)
qed

lemma tables_ok_register:
  assumes "tables_ok rt S t" and "node_at rt pos = Some n" and "n_id n \<in> insert [] S"
  shows "tables_ok rt S (register pos n t)"
proof -
  have *: "t'\<lparr>id_table := emplace (n_id n) (T_node pos) (id_table t')\<rparr> = t'"
    if "tables_ok rt S t'" "has_id n" for t' :: ref_tables
    using that assms(3) by (auto simp: tables_ok_def has_id_def emplace_same)
  show ?thesis
    unfolding register_def Let_def
    using assms by (auto simp: * tables_ok_anchor intro!: tables_ok_anchor [OF _ assms(2)])
qed

lemma key_set_register: "insert (uri_to_string (n_uri n)) (key_set (anchor_table t)) \<subseteq> key_set (anchor_table (register pos n t))"
  by (auto simp: register_def Let_def)

lemma node_at_append: "node_at rt pos = Some n \<Longrightarrow> node_at rt (pos @ qos) = node_at n qos"
  by (induction rt pos rule: node_at.induct) (auto split: if_splits)

lemma collect_ok:
  "tables_ok rt S t \<Longrightarrow> node_at rt pos = Some node \<Longrightarrow> built_ok S node \<Longrightarrow> tables_ok rt S (collect_anchors pos node t)"
  "tables_ok rt S t \<Longrightarrow> (\<And>j. j < length chs \<Longrightarrow> node_at rt (pos @ [i + j]) = Some (chs ! j)) \<Longrightarrow>
    (\<forall>c \<in> set chs. built_ok S c) \<Longrightarrow> tables_ok rt S (collect_children pos i chs t)"
proof (induction pos node t and pos i chs t rule: collect_anchors_collect_children.induct)
  case (1 pos u ident a d kw v chs p t)
  let ?n = "SchemaNode u ident a d kw v chs p"
  have "n_id ?n \<in> insert [] S" "\<forall>c \<in> set chs. built_ok S c" using 1(4) by (auto simp: built_ok_unfold [of _ ?n])
  moreover have "node_at rt (pos @ [0 + j]) = Some (chs ! j)" if "j < length chs" for j
    using that by (simp add: node_at_append [OF 1(3)])
  ultimately show ?case using 1(1) tables_ok_register [OF 1(2,3)] by simp
next
  case (3 pos i c cs t)
  have "node_at rt (pos @ [i]) = Some c" using 3(4) [of 0] by simp
  then have "tables_ok rt S (collect_anchors (pos @ [i]) c t)" using 3(1,3,5) by simp
  moreover have "node_at rt (pos @ [(i + 1) + j]) = Some (cs ! j)" if "j < length cs" for j
    using 3(4) [of "Suc j"] that by simp
  ultimately show ?case using 3(2) 3(5) by simp
qed simp

lemma collect_keys:
  "key_set (anchor_table t) \<union> (\<lambda>n. uri_to_string (n_uri n)) ` all_nodes node \<subseteq> key_set (anchor_table (collect_anchors pos node t))"
  "key_set (anchor_table t) \<union> (\<lambda>n. uri_to_string (n_uri n)) ` (\<Union>c \<in> set chs. all_nodes c)
    \<subseteq> key_set (anchor_table (collect_children pos i chs t))"
proof (induction pos node t and pos i chs t rule: collect_anchors_collect_children.induct)
  case (1 pos u ident a d kw v chs p t)
  then show ?case using key_set_register [of "SchemaNode u ident a d kw v chs p" t pos] by (simp add: all_nodes.simps) blast
next
  case (3 pos i c cs t)
  then show ?case by (simp add: image_Un) blast
qed simp

lemma add_stale_spec:
  "\<forall>(k, tgt) \<in> set (id_table t). tgt = T_stale \<Longrightarrow>
    anchor_table (add_stale ks t) = anchor_table t \<and> key_set (id_table (add_stale ks t)) = key_set (id_table t) \<union> set ks
    \<and> (\<forall>(k, tgt) \<in> set (id_table (add_stale ks t)). tgt = T_stale)"
proof (induction ks arbitrary: t)
  case (Cons k ks)
  have "\<forall>(k, tgt) \<in> set (emplace k T_stale (id_table t)). tgt = T_stale"
    using Cons.prems set_emplace [of k T_stale "id_table t"] by fastforce
  with Cons.IH [of "t\<lparr>id_table := emplace k T_stale (id_table t)\<rparr>"] show ?case by (simp add: add_stale_def)
qed (simp add: add_stale_def)

text \<open>What \<open>compile\<close> leaves behind.\<close>

definition compiled :: "SchemaCompiler \<Rightarrow> bool" where
  "compiled c \<longleftrightarrow>
     n_keyword (root_node c) = K_Schema \<and> n_parent (root_node c) = P_null
     \<and> (\<forall>n \<in> all_nodes (root_node c). n_keyword n \<notin> composition_keywords)
     \<and> (\<forall>n \<in> all_nodes (root_node c) - {root_node c}. \<forall>ch \<in> set (n_children n). n_parent ch \<in> {P_null, P_stale})
     \<and> (\<forall>ch \<in> set (n_children (root_node c)). n_parent ch \<in> {P_null, P_root})
     \<and> (\<forall>k pos. map_of (anchor_table (tables c)) k = Some pos \<longrightarrow>
          (\<exists>n. node_at (root_node c) pos = Some n \<and> (k = uri_to_string (n_uri n) \<or> k = n_dynamic_anchor n)))
     \<and> (\<forall>n \<in> all_nodes (root_node c). uri_to_string (n_uri n) \<in> key_set (anchor_table (tables c)))
     \<and> (\<forall>k tgt. map_of (id_table (tables c)) k = Some tgt \<longrightarrow> tgt = T_stale)"

lemma compile_compiled:
  assumes "compile parse s c = Inr (True, c')"
  shows "compiled c'"
proof -
  let ?b0 = "\<lparr>stale_ids = [], root_base = uri_base root_uri\<rparr>"
  from assms obtain v chs b where v: "parse s = Some v" and b: "build_schema_tree v True P_root root_uri ?b0 = Inr (chs, b)"
    and c': "root_node c' = SchemaNode (root_uri\<lparr>uri_base := root_base b\<rparr>) [] [] [] K_Schema v chs P_null"
      "tables c' = collect_anchors [] (root_node c') (add_stale (stale_ids b) \<lparr>anchor_table = [], id_table = []\<rparr>)"
    by (auto simp: compile_def rbind_Inr_iff Let_def split: option.splits)
  let ?S = "set (stale_ids b)" and ?t = "add_stale (stale_ids b) \<lparr>anchor_table = [], id_table = []\<rparr>"
  have chs: "\<forall>n \<in> set chs. built_ok ?S n \<and> n_parent n \<in> {P_null, P_root}"
    using build_pushed(1) [of P_root ?b0 v True root_uri] by (simp add: b pushed_def)
  have t: "tables_ok (root_node c') ?S ?t"
    using add_stale_spec [of "\<lparr>anchor_table = [], id_table = []\<rparr>" "stale_ids b"] by (simp add: tables_ok_def)
  have "tables_ok (root_node c') ?S (register [] (root_node c') ?t)"
    using t by (rule tables_ok_register) (simp_all add: c'(1))
  then have "tables_ok (root_node c') ?S (collect_children [] 0 chs (register [] (root_node c') ?t))"
    by (rule collect_ok(2)) (use chs in \<open>simp_all add: c'(1)\<close>)
  then have T: "tables_ok (root_node c') ?S (tables c')" by (simp add: c')
  have K: "uri_to_string (n_uri n) \<in> key_set (anchor_table (tables c'))" if "n \<in> all_nodes (root_node c')" for n
    using collect_keys(1) [of ?t "root_node c'" "[]"] that by (auto simp: c'(2))
  have N: "all_nodes (root_node c') = insert (root_node c') (\<Union>ch \<in> set chs. all_nodes ch)"
    by (subst all_nodes_unfold) (simp add: c'(1))
  have kw: "n_keyword n \<notin> composition_keywords" if "n \<in> all_nodes (root_node c')" for n
    using that chs unfolding N by (auto simp: built_ok_def c'(1) composition_keywords_def)
  have par: "n_parent ch \<in> {P_null, P_stale}" if "n \<in> all_nodes (root_node c') - {root_node c'}" "ch \<in> set (n_children n)" for n ch
    using that chs unfolding N by (cases "n_parent ch") (auto simp: built_ok_def)
  show ?thesis
    unfolding compiled_def
    using T K kw par chs by (auto simp: c'(1) tables_ok_def dest!: map_of_SomeD)
qed

end
