(* ===== verification/Json_Validate.thy ===== *)
theory Json_Validate
  imports Json_Schema "HOL-Library.Word"
begin

text \<open>
  The second half of \<open>jsonschema/src/schema_types.cpp\<close>: validation of an instance against a compiled
  schema. \<open>validate_node\<close> is one function with a case per keyword; here every case is a definition of
  its own, over the validator \<open>V\<close> of the nodes it descends to, and \<open>validate_node\<close> ties them together.

  A schema can refer to itself, so the recursion need not end: \<open>validate_node\<close> takes fuel, and \<open>None\<close>
  is the result of a run that has not returned within it. The result type has the failures of the
  document views: \<open>Exception\<close> for a \<open>simdjson_error\<close>, \<open>Undefined\<close> for the use of a stale address.
\<close>

section \<open>State and results\<close>

text \<open>The parameters: \<open>std::regex_search\<close> for the ECMAScript pattern and the text, \<open>None\<close> for a
  \<open>regex_error\<close>; the JSON library's \<open>minify\<close> and the text of its parse errors.\<close>

record vlib =
  rx_search :: "string \<Rightarrow> string \<Rightarrow> bool option"
  minify_text :: "json \<Rightarrow> string"
  parse_error :: "string \<Rightarrow> string"

text \<open>The errors, the \<open>EvaluationContext\<close>, and the calls of the callback.\<close>

record vstate =
  v_errors :: "ValidationError list"
  evaluated_items :: "bool list"
  evaluated_properties :: "string set"
  min_contains_count :: "64 word"
  max_contains_count :: "64 word"
  visits :: "(SchemaNode \<times> string) list"

type_synonym 'a run = "'a result option"
type_synonym validator = "SchemaNode \<Rightarrow> json \<Rightarrow> string \<Rightarrow> string \<Rightarrow> vstate \<Rightarrow> vstate run"

definition vreturn :: "'a \<Rightarrow> 'a run" where "vreturn x = Some (Inr x)"
definition vfail :: "failure \<Rightarrow> 'a run" where "vfail e = Some (Inl e)"

definition vbind :: "'a run \<Rightarrow> ('a \<Rightarrow> 'b run) \<Rightarrow> 'b run" where
  "vbind r f = (case r of None \<Rightarrow> None | Some (Inl e) \<Rightarrow> Some (Inl e) | Some (Inr x) \<Rightarrow> f x)"

text \<open>A range-based \<open>for\<close>.\<close>

fun each :: "('a \<Rightarrow> vstate \<Rightarrow> vstate run) \<Rightarrow> 'a list \<Rightarrow> vstate \<Rightarrow> vstate run" where
  "each f [] st = vreturn st"
| "each f (x # xs) st = vbind (f x st) (each f xs)"

text \<open>\<open>errors_.emplace_back(InstanceLocation(), schema_location, msg)\<close>\<close>

definition add_error :: "string \<Rightarrow> string \<Rightarrow> vstate \<Rightarrow> vstate" where
  "add_error sloc msg st =
     st\<lparr>v_errors := v_errors st @ [\<lparr>ve_location = [], ve_schema_uri = sloc, ve_message = msg\<rparr>]\<rparr>"

definition resize_errors :: "nat \<Rightarrow> vstate \<Rightarrow> vstate" where
  "resize_errors n st = st\<lparr>v_errors := take n (v_errors st)\<rparr>"

definition error_count :: "vstate \<Rightarrow> nat" where
  "error_count st = length (v_errors st)"

definition report_all :: "string \<Rightarrow> string list result \<Rightarrow> vstate \<Rightarrow> vstate run" where
  "report_all sloc r st = (case r of Inl e \<Rightarrow> vfail e | Inr msgs \<Rightarrow> vreturn (fold (add_error sloc) msgs st))"

definition visit :: "validator \<Rightarrow> SchemaNode \<Rightarrow> json \<Rightarrow> string \<Rightarrow> vstate \<Rightarrow> vstate run" where
  "visit V node inst iloc st = V node inst (uri_to_string (n_uri node)) iloc st"

definition child_loc :: "string \<Rightarrow> string \<Rightarrow> string" where
  "child_loc iloc seg = (if iloc = [] then ''/'' @ seg else iloc @ ''/'' @ seg)"

text \<open>The part of a URI after its last slash.\<close>

definition last_segment :: "SchemaURI \<Rightarrow> string" where
  "last_segment u = last (segs (CHR ''/'') (uri_to_string u))"

text \<open>Sizes are of type \<open>size_t\<close>.\<close>

definition count_of :: "'a list \<Rightarrow> 64 word" where
  "count_of xs = of_nat (length xs)"

definition size_to_string :: "64 word \<Rightarrow> string" where
  "size_to_string w = nat_to_string (unat w)"

section \<open>The keywords that look at one value\<close>

definition type_messages :: "json \<Rightarrow> json \<Rightarrow> string list" where
  "type_messages v inst =
     (case v of
        J_String t \<Rightarrow>
          (if check_type_match inst t then []
           else [''Type mismatch: expected '' @ quoted t @ '', got '' @ quoted (type_to_string inst)])
      | J_Array ts \<Rightarrow>
          (if \<exists>t \<in> set ts. case read_string t of None \<Rightarrow> False | Some s \<Rightarrow> check_type_match inst s then []
           else [''Type mismatch: expected one of array types, got '' @ quoted (type_to_string inst)])
      | _ \<Rightarrow> [])"

definition show_value :: "json \<Rightarrow> string" where
  "show_value v =
     (case read_string v of Some s \<Rightarrow> quoted s | None \<Rightarrow>
     (case read_int64 v of Some i \<Rightarrow> int_to_string i | None \<Rightarrow>
     (case read_uint64 v of Some u \<Rightarrow> int_to_string u | None \<Rightarrow>
     (case read_double v of Some d \<Rightarrow> stream_double d | None \<Rightarrow>
     (case read_bool v of Some b \<Rightarrow> (if b then ''true'' else ''false'') | None \<Rightarrow>
      ''<'' @ type_to_string v @ ''>'')))))"

definition enum_messages :: "json \<Rightarrow> json \<Rightarrow> string list result" where
  "enum_messages v inst = rmap (\<lambda>vals.
     if \<exists>w \<in> set vals. json_equal inst w then []
     else [''Value not in enum: allowed values are ['' @ comma_join (map show_value vals) @ '']'']) (iter_array v)"

definition const_messages :: "json \<Rightarrow> json \<Rightarrow> string list" where
  "const_messages v inst =
     (if json_equal inst v then []
      else [''Value does not match const: expected '' @ show_value v @ '', got '' @ type_to_string inst])"

definition multiple_messages :: "json \<Rightarrow> json \<Rightarrow> string list" where
  "multiple_messages v inst =
     (case (read_double v, read_double inst) of
        (Some divisor, Some x) \<Rightarrow>
          (let r = fmod x divisor
           in if divisor \<noteq> 0 \<and> \<bar>r\<bar> > tolerance \<and> \<bar>double_minus r divisor\<bar> > tolerance
              then [''Value '' @ double_to_string x @ '' is not a multiple of '' @ double_to_string divisor] else [])
      | _ \<Rightarrow> [])"

definition bound_messages :: "Keyword \<Rightarrow> json \<Rightarrow> json \<Rightarrow> string list" where
  "bound_messages kw v inst =
     (case (read_double v, read_double inst) of
        (Some limit, Some x) \<Rightarrow>
          (let say = (\<lambda>text. [''Value '' @ double_to_string x @ text @ double_to_string limit])
           in if kw = K_Maximum then (if x > limit then say '' exceeds maximum of '' else [])
              else if kw = K_Minimum then (if x < limit then say '' is below minimum of '' else [])
              else if kw = K_ExclusiveMaximum then
                (if x \<ge> limit then say '' must be less than exclusiveMaximum of '' else [])
              else (if x \<le> limit then say '' must be greater than exclusiveMinimum of '' else []))
      | _ \<Rightarrow> [])"

text \<open>The length of a string is compared as a signed number.\<close>

definition length_messages :: "Keyword \<Rightarrow> json \<Rightarrow> json \<Rightarrow> string list" where
  "length_messages kw v inst =
     (case (read_int64 v, read_string inst) of
        (Some limit, Some s) \<Rightarrow>
          (let len = count_of s
           in if kw = K_MaxLength
              then (if sint len > limit then [''String length '' @ size_to_string len @ '' exceeds maxLength of ''
                      @ int_to_string limit] else [])
              else (if sint len < limit then [''String length '' @ size_to_string len @ '' is below minLength of ''
                      @ int_to_string limit] else []))
      | _ \<Rightarrow> [])"

text \<open>The limits of arrays and objects are cast to \<open>size_t\<close>: a negative one is a large number.\<close>

definition size_exceeded :: "bool \<Rightarrow> 64 word \<Rightarrow> int \<Rightarrow> bool" where
  "size_exceeded is_max count limit \<longleftrightarrow> (if is_max then count > word_of_int limit else count < word_of_int limit)"

definition items_messages :: "Keyword \<Rightarrow> json \<Rightarrow> json \<Rightarrow> string list" where
  "items_messages kw v inst =
     (case (read_int64 v, inst) of
        (Some limit, J_Array xs) \<Rightarrow>
          (let count = count_of xs
           in if size_exceeded (kw = K_MaxItems) count limit
              then [if kw = K_MaxItems
                    then ''Array length '' @ size_to_string count @ '' exceeds maxItems of '' @ int_to_string limit
                    else ''Array length '' @ size_to_string count @ '' is below minItems of '' @ int_to_string limit]
              else [])
      | _ \<Rightarrow> [])"

fun duplicate_index :: "string set \<Rightarrow> nat \<Rightarrow> string list \<Rightarrow> nat option" where
  "duplicate_index seen idx [] = None"
| "duplicate_index seen idx (s # ss) = (if s \<in> seen then Some idx else duplicate_index (insert s seen) (idx + 1) ss)"

definition unique_messages :: "vlib \<Rightarrow> json \<Rightarrow> json \<Rightarrow> string list" where
  "unique_messages lib v inst =
     (case (read_bool v, inst) of
        (Some True, J_Array xs) \<Rightarrow>
          (case duplicate_index {} 0 (map (minify_text lib) xs) of
             Some i \<Rightarrow> [''Array contains duplicate items at index '' @ nat_to_string i] | None \<Rightarrow> [])
      | _ \<Rightarrow> [])"

definition properties_messages :: "Keyword \<Rightarrow> json \<Rightarrow> json \<Rightarrow> string list" where
  "properties_messages kw v inst =
     (case (read_int64 v, inst) of
        (Some limit, J_Object ms) \<Rightarrow>
          (let count = count_of ms
           in if size_exceeded (kw = K_MaxProperties) count limit
              then [if kw = K_MaxProperties
                    then ''Object has '' @ size_to_string count @ '' properties, exceeds maxProperties of '' @ int_to_string limit
                    else ''Object has '' @ size_to_string count @ '' properties, below minProperties of '' @ int_to_string limit]
              else [])
      | _ \<Rightarrow> [])"

definition has_member :: "members \<Rightarrow> string \<Rightarrow> bool" where
  "has_member ms key \<longleftrightarrow> key \<in> fst ` set ms"

definition required_messages :: "json \<Rightarrow> json \<Rightarrow> string list result" where
  "required_messages v inst =
     (case inst of
        J_Object ms \<Rightarrow> rmap (\<lambda>reqs. concat (map (\<lambda>r. case read_string r of
            Some name \<Rightarrow> if has_member ms name then [] else [''Missing required property: '' @ name]
          | None \<Rightarrow> []) reqs)) (iter_array v)
      | _ \<Rightarrow> Inr [])"

text \<open>A pattern that is no regular expression is looked for as a text.\<close>

definition pattern_found :: "vlib \<Rightarrow> string \<Rightarrow> string \<Rightarrow> bool" where
  "pattern_found lib pattern text =
     (case rx_search lib pattern text of Some found \<Rightarrow> found | None \<Rightarrow> contains_sub pattern text)"

definition validate_pattern :: "vlib \<Rightarrow> string \<Rightarrow> json \<Rightarrow> string list" where
  "validate_pattern lib pattern inst =
     (case read_string inst of
        Some s \<Rightarrow> (if pattern_found lib pattern s then []
                  else [''String '' @ quoted s @ '' does not match pattern /'' @ pattern @ ''/''])
      | None \<Rightarrow> [])"

definition pattern_messages :: "vlib \<Rightarrow> json \<Rightarrow> json \<Rightarrow> string list" where
  "pattern_messages lib v inst = (case read_string v of Some p \<Rightarrow> validate_pattern lib p inst | None \<Rightarrow> [])"

definition bool_messages :: "json \<Rightarrow> string list" where
  "bool_messages v = (if read_bool v = Some False then [''Value does not match schema (schema is false)''] else [])"

section \<open>The keywords that descend\<close>

definition all_of :: "validator \<Rightarrow> SchemaNode \<Rightarrow> json \<Rightarrow> string \<Rightarrow> vstate \<Rightarrow> vstate run" where
  "all_of V node inst iloc = each (\<lambda>child. visit V child inst iloc) (n_children node)"

fun any_loop :: "validator \<Rightarrow> SchemaNode list \<Rightarrow> json \<Rightarrow> string \<Rightarrow> vstate \<Rightarrow> (bool \<times> vstate) run" where
  "any_loop V [] inst iloc st = vreturn (False, st)"
| "any_loop V (c # cs) inst iloc st = vbind (visit V c inst iloc st) (\<lambda>st1.
     if error_count st1 = error_count st then vreturn (True, st1) else any_loop V cs inst iloc st1)"

definition any_of :: "validator \<Rightarrow> SchemaNode \<Rightarrow> json \<Rightarrow> string \<Rightarrow> string \<Rightarrow> vstate \<Rightarrow> vstate run" where
  "any_of V node inst sloc iloc st =
     vbind (any_loop V (n_children node) inst iloc st) (\<lambda>(matched, st1).
       let st2 = resize_errors (error_count st) st1
       in vreturn (if \<not> matched then add_error sloc ''Value does not match any of the anyOf schemas'' st2 else st2))"

fun one_loop :: "validator \<Rightarrow> SchemaNode list \<Rightarrow> json \<Rightarrow> string \<Rightarrow> nat \<Rightarrow> vstate \<Rightarrow> (nat \<times> vstate) run" where
  "one_loop V [] inst iloc k st = vreturn (k, st)"
| "one_loop V (c # cs) inst iloc k st = vbind (visit V c inst iloc st) (\<lambda>st1.
     if error_count st1 = error_count st then one_loop V cs inst iloc (k + 1) st1
     else one_loop V cs inst iloc k (resize_errors (error_count st) st1))"

definition one_of :: "validator \<Rightarrow> SchemaNode \<Rightarrow> json \<Rightarrow> string \<Rightarrow> string \<Rightarrow> vstate \<Rightarrow> vstate run" where
  "one_of V node inst sloc iloc st =
     vbind (one_loop V (n_children node) inst iloc 0 st) (\<lambda>(k, st1).
       let st2 = resize_errors (error_count st) st1;
           msg = ''Value must match exactly one of the oneOf schemas'' @
             (if k = 0 then '' (matched '' @ nat_to_string k @ '')'' else '' (matched '' @ nat_to_string k @ '', expected 1)'')
       in vreturn (if k \<noteq> 1 then add_error sloc msg st2 else st2))"

text \<open>\<open>not\<close> and \<open>if\<close> look at the first child.\<close>

definition check_not :: "validator \<Rightarrow> SchemaNode \<Rightarrow> json \<Rightarrow> string \<Rightarrow> string \<Rightarrow> vstate \<Rightarrow> vstate run" where
  "check_not V node inst sloc iloc st =
     (case n_children node of
        [] \<Rightarrow> vreturn st
      | c # _ \<Rightarrow> vbind (visit V c inst iloc st) (\<lambda>st1. vreturn
          (if error_count st1 = error_count st then add_error sloc (''Value must not match the '' @ quoted ''not'' @ '' schema'') st1
           else resize_errors (error_count st) st1)))"

text \<open>The nodes next to a node, through its \<open>parent\<close>.\<close>

definition siblings :: "SchemaCompiler \<Rightarrow> SchemaNode \<Rightarrow> SchemaNode list result" where
  "siblings c node = (case n_parent node of P_null \<Rightarrow> Inr [] | P_root \<Rightarrow> Inr (n_children (root_node c)) | P_stale \<Rightarrow> Inl Undefined)"

definition last_with :: "Keyword \<Rightarrow> SchemaNode list \<Rightarrow> SchemaNode option" where
  "last_with kw ns = (case rev (filter (\<lambda>n. n_keyword n = kw) ns) of [] \<Rightarrow> None | n # _ \<Rightarrow> Some n)"

definition check_if :: "SchemaCompiler \<Rightarrow> validator \<Rightarrow> SchemaNode \<Rightarrow> json \<Rightarrow> string \<Rightarrow> vstate \<Rightarrow> vstate run" where
  "check_if c V node inst iloc st =
     (case n_children node of
        [] \<Rightarrow> vreturn st
      | n # _ \<Rightarrow> vbind (visit V n inst iloc st) (\<lambda>st1.
          let st2 = resize_errors (error_count st) st1;
              branch = (if error_count st1 = error_count st then K_Then else K_Else)
          in case siblings c node of
               Inl e \<Rightarrow> vfail e
             | Inr ns \<Rightarrow> (case last_with branch ns of None \<Rightarrow> vreturn st2 | Some b \<Rightarrow> visit V b inst iloc st2)))"

text \<open>The children of \<open>properties\<close>, \<open>patternProperties\<close>, \<open>dependentRequired\<close> and \<open>dependentSchemas\<close>
  stand for names, which are read back from their URIs.\<close>

definition evaluated :: "string \<Rightarrow> vstate \<Rightarrow> vstate" where
  "evaluated name st = st\<lparr>evaluated_properties := insert name (evaluated_properties st)\<rparr>"

definition check_property :: "validator \<Rightarrow> SchemaNode \<Rightarrow> string \<Rightarrow> json \<Rightarrow> string \<Rightarrow> vstate \<Rightarrow> vstate run" where
  "check_property V child name v iloc st =
     vbind (each (\<lambda>sub. visit V sub v (child_loc iloc name)) (n_children child) st) (\<lambda>st1. vreturn (evaluated name st1))"

definition check_properties :: "validator \<Rightarrow> SchemaNode \<Rightarrow> json \<Rightarrow> string \<Rightarrow> vstate \<Rightarrow> vstate run" where
  "check_properties V node inst iloc st =
     (case inst of
        J_Object ms \<Rightarrow> each (\<lambda>child st.
          let prop_name = last_segment (n_uri child)
          in case map_of ms prop_name of None \<Rightarrow> vreturn st | Some v \<Rightarrow> check_property V child prop_name v iloc st)
          (n_children node) st
      | _ \<Rightarrow> vreturn st)"

definition check_pattern_properties :: "vlib \<Rightarrow> validator \<Rightarrow> SchemaNode \<Rightarrow> json \<Rightarrow> string \<Rightarrow> vstate \<Rightarrow> vstate run" where
  "check_pattern_properties lib V node inst iloc st =
     (case inst of
        J_Object ms \<Rightarrow> each (\<lambda>child. each (\<lambda>(key, v) st.
          if pattern_found lib (last_segment (n_uri child)) key then check_property V child key v iloc st
          else vreturn st) ms) (n_children node) st
      | _ \<Rightarrow> vreturn st)"

text \<open>\<open>additionalProperties\<close> and \<open>unevaluatedProperties\<close> are the same code.\<close>

definition check_remaining :: "validator \<Rightarrow> SchemaNode \<Rightarrow> json \<Rightarrow> string \<Rightarrow> vstate \<Rightarrow> vstate run" where
  "check_remaining V node inst iloc st =
     (case (inst, n_children node) of
        (J_Object ms, c # _) \<Rightarrow> each (\<lambda>(key, v) st.
          if key \<notin> evaluated_properties st then visit V c v (child_loc iloc key) st else vreturn st) ms st
      | _ \<Rightarrow> vreturn st)"

definition dependent_required_messages :: "SchemaNode \<Rightarrow> json \<Rightarrow> string list" where
  "dependent_required_messages node inst =
     (case inst of
        J_Object ms \<Rightarrow> concat (map (\<lambda>child.
          let dep_name = last_segment (n_uri child)
          in if has_member ms dep_name \<and> n_children child \<noteq> []
             then concat (map (\<lambda>req. let req_name = last_segment (n_uri req)
                 in if has_member ms req_name then []
                    else [''Missing required property '' @ [CHR 0x27] @ req_name @ [CHR 0x27] @ '' due to dependency ''
                      @ [CHR 0x27] @ dep_name @ [CHR 0x27]])
               (n_children (hd (n_children child))))
             else []) (n_children node))
      | _ \<Rightarrow> [])"

definition check_dependent_schemas :: "validator \<Rightarrow> SchemaNode \<Rightarrow> json \<Rightarrow> string \<Rightarrow> vstate \<Rightarrow> vstate run" where
  "check_dependent_schemas V node inst iloc st =
     (case inst of
        J_Object ms \<Rightarrow> each (\<lambda>child st.
          if has_member ms (last_segment (n_uri child)) then each (\<lambda>sub. visit V sub inst iloc) (n_children child) st
          else vreturn st) (n_children node) st
      | _ \<Rightarrow> vreturn st)"

text \<open>The items of an array with their indices.\<close>

definition items_of :: "json \<Rightarrow> (nat \<times> json) list" where
  "items_of inst = (case inst of J_Array xs \<Rightarrow> enumerate 0 xs | _ \<Rightarrow> [])"

definition item_evaluated :: "vstate \<Rightarrow> vstate" where
  "item_evaluated st = st\<lparr>evaluated_items := evaluated_items st @ [True]\<rparr>"

definition visit_item :: "validator \<Rightarrow> SchemaNode \<Rightarrow> nat \<times> json \<Rightarrow> string \<Rightarrow> vstate \<Rightarrow> vstate run" where
  "visit_item V c item iloc st = visit V c (snd item) (child_loc iloc (nat_to_string (fst item))) st"

definition check_items :: "validator \<Rightarrow> SchemaNode \<Rightarrow> json \<Rightarrow> string \<Rightarrow> vstate \<Rightarrow> vstate run" where
  "check_items V node inst iloc st =
     (case n_children node of
        [] \<Rightarrow> vreturn st
      | c # _ \<Rightarrow> each (\<lambda>item st. vbind (visit_item V c item iloc st) (\<lambda>st1. vreturn (item_evaluated st1))) (items_of inst) st)"

definition check_prefix_items :: "validator \<Rightarrow> SchemaNode \<Rightarrow> json \<Rightarrow> string \<Rightarrow> vstate \<Rightarrow> vstate run" where
  "check_prefix_items V node inst iloc st =
     each (\<lambda>item st. vbind
         (if fst item < length (n_children node) then visit_item V (n_children node ! fst item) item iloc st
          else if n_children node \<noteq> [] then visit_item V (last (n_children node)) item iloc st
          else vreturn st)
         (\<lambda>st1. vreturn (item_evaluated st1))) (items_of inst) st"

fun contains_loop :: "validator \<Rightarrow> SchemaNode \<Rightarrow> (nat \<times> json) list \<Rightarrow> string \<Rightarrow> nat \<Rightarrow> vstate \<Rightarrow> (nat \<times> vstate) run" where
  "contains_loop V c [] iloc k st = vreturn (k, st)"
| "contains_loop V c (item # items) iloc k st = vbind (visit_item V c item iloc st) (\<lambda>st1.
     if error_count st1 = error_count st then contains_loop V c items iloc (k + 1) st1
     else contains_loop V c items iloc k (resize_errors (error_count st) st1))"

definition check_contains :: "validator \<Rightarrow> SchemaNode \<Rightarrow> json \<Rightarrow> string \<Rightarrow> string \<Rightarrow> vstate \<Rightarrow> vstate run" where
  "check_contains V node inst sloc iloc st =
     (case (inst, n_children node) of
        (J_Array _, c # _) \<Rightarrow> vbind (contains_loop V c (items_of inst) iloc 0 st) (\<lambda>(k, st1). vreturn
          (if k < 1 then add_error sloc (''Array does not contain any items matching the '' @ quoted ''contains'' @ '' schema'') st1
           else st1))
      | _ \<Rightarrow> vreturn st)"

text \<open>\<open>node.parent->children.size()\<close>.\<close>

definition sibling_count :: "SchemaCompiler \<Rightarrow> SchemaNode \<Rightarrow> nat result" where
  "sibling_count c node = (case n_parent node of P_root \<Rightarrow> Inr (length (n_children (root_node c))) | _ \<Rightarrow> Inl Undefined)"

definition check_additional_items :: "SchemaCompiler \<Rightarrow> validator \<Rightarrow> SchemaNode \<Rightarrow> json \<Rightarrow> string \<Rightarrow> vstate \<Rightarrow> vstate run" where
  "check_additional_items c V node inst iloc st =
     (case n_children node of
        [] \<Rightarrow> vreturn st
      | n # _ \<Rightarrow> each (\<lambda>item st. case sibling_count c node of
            Inl e \<Rightarrow> vfail e
          | Inr k \<Rightarrow> if fst item \<ge> k then visit_item V n item iloc st else vreturn st) (items_of inst) st)"

definition check_unevaluated_items :: "validator \<Rightarrow> SchemaNode \<Rightarrow> json \<Rightarrow> string \<Rightarrow> vstate \<Rightarrow> vstate run" where
  "check_unevaluated_items V node inst iloc st =
     (case n_children node of
        [] \<Rightarrow> vreturn st
      | c # _ \<Rightarrow> each (\<lambda>item st.
          if fst item \<ge> length (evaluated_items st) \<or> \<not> evaluated_items st ! fst item then visit_item V c item iloc st
          else vreturn st) (items_of inst) st)"

definition check_ref :: "SchemaCompiler \<Rightarrow> validator \<Rightarrow> SchemaNode \<Rightarrow> json \<Rightarrow> string \<Rightarrow> string \<Rightarrow> vstate \<Rightarrow> vstate run" where
  "check_ref c V node inst sloc iloc st =
     (case read_string (n_value node) of
        None \<Rightarrow> vreturn st
      | Some target \<Rightarrow> (case find_ref c target of
            None \<Rightarrow> vreturn (add_error sloc (''Cannot resolve $ref: '' @ target) st)
          | Some T_stale \<Rightarrow> vfail Undefined
          | Some (T_node pos) \<Rightarrow> (case node_at (root_node c) pos of
                None \<Rightarrow> vfail Undefined
              | Some n \<Rightarrow> visit V n inst iloc st)))"

text \<open>\<open>propertyNames\<close> applies the keywords below its first child to the values that are strings, not
  to the names. The errors have the location of the keyword.\<close>

definition name_messages :: "vlib \<Rightarrow> string \<Rightarrow> json \<Rightarrow> string \<Rightarrow> SchemaNode \<Rightarrow> string list result" where
  "name_messages lib key v text sub =
     (let sv = n_value sub in
      case n_keyword sub of
        K_Pattern \<Rightarrow> Inr (pattern_messages lib sv v)
      | K_MaxLength \<Rightarrow> Inr (case read_int64 sv of Some limit \<Rightarrow>
            (if sint (count_of text) > limit then [''Property name '' @ quoted key @ '' (length ''
               @ size_to_string (count_of text) @ '') exceeds maxLength of '' @ int_to_string limit] else []) | None \<Rightarrow> [])
      | K_MinLength \<Rightarrow> Inr (case read_int64 sv of Some limit \<Rightarrow>
            (if sint (count_of text) < limit then [''Property name '' @ quoted key @ '' (length ''
               @ size_to_string (count_of text) @ '') is below minLength of '' @ int_to_string limit] else []) | None \<Rightarrow> [])
      | K_Const \<Rightarrow> Inr (case read_string sv of Some s \<Rightarrow>
            (if text \<noteq> s then [''Property name '' @ quoted key @ '' does not match const '' @ quoted s] else []) | None \<Rightarrow> [])
      | K_Enum \<Rightarrow> rmap (\<lambda>vals. if Some text \<in> set (map read_string vals) then []
            else [''Property name '' @ quoted key @ '' not in enum'']) (iter_array sv)
      | _ \<Rightarrow> Inr [])"

definition check_property_names :: "vlib \<Rightarrow> SchemaNode \<Rightarrow> json \<Rightarrow> string \<Rightarrow> vstate \<Rightarrow> vstate run" where
  "check_property_names lib node inst sloc st =
     (case (inst, n_children node) of
        (J_Object ms, c # _) \<Rightarrow> each (\<lambda>(key, v) st. vbind
            (case read_string v of
               None \<Rightarrow> vreturn st
             | Some text \<Rightarrow> each (\<lambda>sub. report_all (uri_to_string (n_uri sub)) (name_messages lib key v text sub)) (n_children c) st)
            (\<lambda>st1. vreturn
              (if error_count st1 > error_count st
               then add_error sloc (''Property name '' @ quoted key @ '' does not match propertyNames schema'') st1 else st1))) ms st
      | _ \<Rightarrow> vreturn st)"

definition set_contains_limit :: "Keyword \<Rightarrow> json \<Rightarrow> vstate \<Rightarrow> vstate" where
  "set_contains_limit kw v st =
     (case read_int64 v of
        None \<Rightarrow> st
      | Some limit \<Rightarrow> if kw = K_MaxContains then st\<lparr>max_contains_count := word_of_int limit\<rparr>
                    else st\<lparr>min_contains_count := word_of_int limit\<rparr>)"

section \<open>\<open>validate_node\<close>\<close>

definition note_visit :: "SchemaNode \<Rightarrow> string \<Rightarrow> vstate \<Rightarrow> vstate" where
  "note_visit node iloc st = st\<lparr>visits := visits st @ [(node, iloc)]\<rparr>"

text \<open>The switch.\<close>

definition validate_step :: "vlib \<Rightarrow> SchemaCompiler \<Rightarrow> validator \<Rightarrow> validator" where
  "validate_step lib c V node inst sloc iloc =
     (let v = n_value node; kw = n_keyword node; say = report_all sloc in
      case kw of
        K_Schema \<Rightarrow> all_of V node inst iloc
      | K_Type \<Rightarrow> say (Inr (type_messages v inst))
      | K_Enum \<Rightarrow> say (enum_messages v inst)
      | K_Const \<Rightarrow> say (Inr (const_messages v inst))
      | K_MultipleOf \<Rightarrow> say (Inr (multiple_messages v inst))
      | K_Maximum \<Rightarrow> say (Inr (bound_messages kw v inst))
      | K_Minimum \<Rightarrow> say (Inr (bound_messages kw v inst))
      | K_ExclusiveMaximum \<Rightarrow> say (Inr (bound_messages kw v inst))
      | K_ExclusiveMinimum \<Rightarrow> say (Inr (bound_messages kw v inst))
      | K_MaxLength \<Rightarrow> say (Inr (length_messages kw v inst))
      | K_MinLength \<Rightarrow> say (Inr (length_messages kw v inst))
      | K_Pattern \<Rightarrow> say (Inr (pattern_messages lib v inst))
      | K_MaxItems \<Rightarrow> say (Inr (items_messages kw v inst))
      | K_MinItems \<Rightarrow> say (Inr (items_messages kw v inst))
      | K_UniqueItems \<Rightarrow> say (Inr (unique_messages lib v inst))
      | K_MaxContains \<Rightarrow> (\<lambda>st. vreturn (set_contains_limit kw v st))
      | K_MinContains \<Rightarrow> (\<lambda>st. vreturn (set_contains_limit kw v st))
      | K_MaxProperties \<Rightarrow> say (Inr (properties_messages kw v inst))
      | K_MinProperties \<Rightarrow> say (Inr (properties_messages kw v inst))
      | K_Required \<Rightarrow> say (required_messages v inst)
      | K_AllOf \<Rightarrow> all_of V node inst iloc
      | K_AnyOf \<Rightarrow> any_of V node inst sloc iloc
      | K_OneOf \<Rightarrow> one_of V node inst sloc iloc
      | K_Not \<Rightarrow> check_not V node inst sloc iloc
      | K_If \<Rightarrow> check_if c V node inst iloc
      | K_Properties \<Rightarrow> check_properties V node inst iloc
      | K_AdditionalProperties \<Rightarrow> check_remaining V node inst iloc
      | K_Items \<Rightarrow> check_items V node inst iloc
      | K_PrefixItems \<Rightarrow> check_prefix_items V node inst iloc
      | K_Contains \<Rightarrow> check_contains V node inst sloc iloc
      | K_Ref \<Rightarrow> check_ref c V node inst sloc iloc
      | K_PatternProperties \<Rightarrow> check_pattern_properties lib V node inst iloc
      | K_DependentRequired \<Rightarrow> say (Inr (dependent_required_messages node inst))
      | K_DependentSchemas \<Rightarrow> check_dependent_schemas V node inst iloc
      | K_PropertyNames \<Rightarrow> check_property_names lib node inst sloc
      | K_AdditionalItems \<Rightarrow> check_additional_items c V node inst iloc
      | K_UnevaluatedProperties \<Rightarrow> check_remaining V node inst iloc
      | K_UnevaluatedItems \<Rightarrow> check_unevaluated_items V node inst iloc
      | _ \<Rightarrow> say (Inr (bool_messages v)))"

primrec validate_node :: "vlib \<Rightarrow> SchemaCompiler \<Rightarrow> nat \<Rightarrow> validator" where
  "validate_node lib c 0 = (\<lambda>node inst sloc iloc st. None)"
| "validate_node lib c (Suc fuel) = (\<lambda>node inst sloc iloc st.
     validate_step lib c (validate_node lib c fuel) node inst sloc iloc (note_visit node iloc st))"

definition fresh_state :: vstate where
  "fresh_state = \<lparr>v_errors = [], evaluated_items = [], evaluated_properties = {}, min_contains_count = 0,
     max_contains_count = 0, visits = []\<rparr>"

text \<open>The result of \<open>validate\<close>, with the calls of the callback.\<close>

definition validate_json ::
  "vlib \<Rightarrow> (string \<Rightarrow> json option) \<Rightarrow> nat \<Rightarrow> string \<Rightarrow> SchemaCompiler
    \<Rightarrow> (bool \<times> SchemaCompiler \<times> (SchemaNode \<times> string) list) run" where
  "validate_json lib parse fuel instance_json c =
     (case parse instance_json of
        None \<Rightarrow> vreturn (False, c\<lparr>error_list := [\<lparr>ve_location = [], ve_schema_uri = ''#'',
          ve_message = ''Invalid JSON instance: '' @ parse_error lib instance_json\<rparr>]\<rparr>, [])
      | Some inst \<Rightarrow> vbind (validate_node lib c fuel (root_node c) inst ''#'' [] fresh_state) (\<lambda>st.
          vreturn (v_errors st = [], c\<lparr>error_list := v_errors st\<rparr>, visits st)))"

section \<open>\<open>main.cpp\<close>\<close>

text \<open>The command line tool, from the texts of the two files: the exit code and what is printed to the
  standard output. \<open>what e\<close> is caught: only \<open>Exception\<close> is a \<open>std::exception\<close>.\<close>

definition error_line :: "ValidationError \<Rightarrow> string" where
  "error_line err = line [''  Instance: '', location_to_string (ve_location err), '', Schema: '', ve_schema_uri err,
     '', Message: '', ve_message err]"

definition tester :: "vlib \<Rightarrow> (string \<Rightarrow> json option) \<Rightarrow> nat \<Rightarrow> string \<Rightarrow> string \<Rightarrow> SchemaCompiler \<Rightarrow> (nat \<times> string) run" where
  "tester lib parse fuel schema_json instance_json c =
     (case compile parse schema_json c of
        Inl Exception \<Rightarrow> vreturn (1, [])
      | Inl e \<Rightarrow> vfail e
      | Inr (ok, c1) \<Rightarrow>
          if \<not> ok then vreturn (1, [])
          else (case validate_json lib parse fuel instance_json c1 of
              None \<Rightarrow> None
            | Some (Inl Exception) \<Rightarrow> vreturn (1, [])
            | Some (Inl e) \<Rightarrow> vfail e
            | Some (Inr (valid, c2, _)) \<Rightarrow>
                if valid then vreturn (0, line [''Valid''])
                else vreturn (1, line [''Invalid:''] @ concat (map error_line (error_list c2)))))"

text \<open>\<open>files\<close> gives the contents of the files that can be opened; \<open>args\<close> has the name of the program first.\<close>

definition load_file :: "(string \<Rightarrow> string option) \<Rightarrow> string \<Rightarrow> string result" where
  "load_file files path = (case files path of None \<Rightarrow> Inl Exception | Some content \<Rightarrow> Inr content)"

definition tool_main ::
  "vlib \<Rightarrow> (string \<Rightarrow> json option) \<Rightarrow> nat \<Rightarrow> (string \<Rightarrow> string option) \<Rightarrow> string list \<Rightarrow> SchemaCompiler \<Rightarrow> (nat \<times> string) run" where
  "tool_main lib parse fuel files args c =
     (if length args < 3 then vreturn (1, [])
      else (case rbind (load_file files (args ! 1)) (\<lambda>s. rmap (\<lambda>i. (s, i)) (load_file files (args ! 2))) of
          Inl e \<Rightarrow> vreturn (1, [])
        | Inr (schema_json, instance_json) \<Rightarrow> tester lib parse fuel schema_json instance_json c))"

definition bool_schema_accepts :: "SchemaNode \<Rightarrow> bool" where
  "bool_schema_accepts node = (case n_value node of J_Bool accepts \<Rightarrow> accepts | _ \<Rightarrow> True)"

section \<open>What a run adds\<close>

lemma vbind_simps [simp]:
  "vbind None f = None" "vbind (Some (Inl e)) f = Some (Inl e)" "vbind (Some (Inr x)) f = f x"
  "vbind (vreturn x) f = f x" "vbind (vfail e) f = vfail e"
  by (simp_all add: vbind_def vreturn_def vfail_def)

lemma vbind_Inr_iff: "vbind r f = Some (Inr y) \<longleftrightarrow> (\<exists>x. r = Some (Inr x) \<and> f x = Some (Inr y))"
  by (auto simp: vbind_def split: option.splits sum.splits)

lemma vreturn_iff [simp]: "vreturn x = Some (Inr y) \<longleftrightarrow> x = y" "vfail e \<noteq> Some (Inr y)"
  by (simp_all add: vreturn_def vfail_def)

text \<open>Errors, evaluated items and properties and the trace only grow, and no error has a location.\<close>

definition grows :: "vstate \<Rightarrow> vstate \<Rightarrow> bool" where
  "grows st st' \<longleftrightarrow>
     (\<exists>es. v_errors st' = v_errors st @ es \<and> (\<forall>e \<in> set es. ve_location e = []))
     \<and> evaluated_properties st \<subseteq> evaluated_properties st'
     \<and> (\<exists>k. evaluated_items st' = evaluated_items st @ replicate k True)
     \<and> prefix (visits st) (visits st')"

lemma grows_refl [simp]: "grows st st"
  by (simp add: grows_def exI [of _ 0])

lemma grows_trans:
  assumes "grows st st1" and "grows st1 st2"
  shows "grows st st2"
proof -
  from assms obtain es es' where "v_errors st1 = v_errors st @ es" "v_errors st2 = v_errors st1 @ es'"
    "\<forall>e \<in> set es. ve_location e = []" "\<forall>e \<in> set es'. ve_location e = []" unfolding grows_def by blast
  moreover from assms obtain k k' where "evaluated_items st1 = evaluated_items st @ replicate k True"
    "evaluated_items st2 = evaluated_items st1 @ replicate k' True" unfolding grows_def by blast
  ultimately show ?thesis
    using assms unfolding grows_def
    by (intro conjI exI [of _ "es @ es'"] exI [of _ "k + k'"])
      (auto simp: replicate_add intro: prefix_order.trans)
qed

lemma grows_steps [simp]:
  "grows st (add_error sloc msg st)" "grows st (evaluated name st)" "grows st (note_visit node iloc st)"
  "grows st (set_contains_limit kw v st)"
proof -
  show "grows st (add_error sloc msg st)" "grows st (note_visit node iloc st)" "grows st (set_contains_limit kw v st)"
    by (auto simp: grows_def add_error_def note_visit_def set_contains_limit_def exI [of _ 0] split: option.split)
  show "grows st (evaluated name st)" by (auto simp: grows_def evaluated_def exI [of _ 0])
qed

lemma grows_item_evaluated [simp]: "grows st (item_evaluated st)"
  by (auto simp: grows_def item_evaluated_def intro: exI [of _ 1])

lemma grows_resize: "grows st st1 \<Longrightarrow> grows st (resize_errors (error_count st) st1)"
  by (auto simp: grows_def resize_errors_def error_count_def)

lemma grows_errors: "grows st st' \<Longrightarrow> error_count st \<le> error_count st'"
  "grows st st' \<Longrightarrow> error_count st' = error_count st \<Longrightarrow> v_errors st' = v_errors st"
  by (auto simp: grows_def error_count_def)

lemma grows_fold_add_error: "grows st (fold (add_error sloc) msgs st)"
  by (induction msgs arbitrary: st) (auto intro: grows_trans [OF grows_steps(1)])

definition growing :: "(vstate \<Rightarrow> vstate run) \<Rightarrow> bool" where
  "growing f \<longleftrightarrow> (\<forall>st st'. f st = Some (Inr st') \<longrightarrow> grows st st')"

named_theorems growing_intros \<open>operations that only add to the state\<close>

lemma growing_return [growing_intros]: "(\<And>st. grows st (g st)) \<Longrightarrow> growing (\<lambda>st. vreturn (g st))"
  by (simp add: growing_def)

lemma growing_fail [growing_intros]: "growing (\<lambda>st. vfail e)"
  by (simp add: growing_def)

lemma growing_report_all [growing_intros]: "growing (report_all sloc r)"
  by (auto simp: growing_def report_all_def grows_fold_add_error split: sum.splits)

lemma growing_then [growing_intros]:
  "growing f \<Longrightarrow> (\<And>st. grows st (g st)) \<Longrightarrow> growing (\<lambda>st. vbind (f st) (\<lambda>st1. vreturn (g st1)))"
  unfolding growing_def vbind_Inr_iff by (auto intro: grows_trans)

lemma growing_if [growing_intros]: "growing f \<Longrightarrow> growing g \<Longrightarrow> growing (\<lambda>st. if P st then f st else g st)"
  by (simp add: growing_def)

lemma growing_cases [growing_intros]:
  "\<lbrakk>growing g; \<And>v. growing (f v)\<rbrakk> \<Longrightarrow> growing (\<lambda>st. case x of None \<Rightarrow> g st | Some v \<Rightarrow> f v st)"
  "\<lbrakk>\<And>e. growing (h e); \<And>v. growing (f v)\<rbrakk> \<Longrightarrow> growing (\<lambda>st. case r of Inl e \<Rightarrow> h e st | Inr v \<Rightarrow> f v st)"
  "\<lbrakk>\<And>pos. growing (f' pos); growing g\<rbrakk> \<Longrightarrow> growing (\<lambda>st. case t of T_node pos \<Rightarrow> f' pos st | T_stale \<Rightarrow> g st)"
  "\<lbrakk>\<And>a b. growing (k a b)\<rbrakk> \<Longrightarrow> growing (case p of (a, b) \<Rightarrow> k a b)"
  "\<lbrakk>growing g; \<And>c cs. growing (q c cs)\<rbrakk> \<Longrightarrow> growing (\<lambda>st. case xs of [] \<Rightarrow> g st | c # cs \<Rightarrow> q c cs st)"
  by (cases x; cases r; cases t; cases p; cases xs; simp)+

lemma growing_object [growing_intros]:
  "\<lbrakk>growing g; \<And>ms. growing (f ms)\<rbrakk> \<Longrightarrow> growing (\<lambda>st. case inst of J_Object ms \<Rightarrow> f ms st | _ \<Rightarrow> g st)"
  by (cases inst) simp_all

lemma growing_each [growing_intros]: "(\<And>x. x \<in> set xs \<Longrightarrow> growing (f x)) \<Longrightarrow> growing (each f xs)"
proof (induction xs)
  case (Cons x xs)
  then have "growing (f x)" "growing (each f xs)" by simp_all
  then show ?case unfolding growing_def each.simps vbind_Inr_iff by (blast intro: grows_trans)
qed (simp add: growing_def)

locale growing_validator =
  fixes V :: validator
  assumes growing_V: "growing (V node inst sloc iloc)"
begin

lemma growing_visit [growing_intros]: "growing (visit V node inst iloc)"
  using growing_V by (simp add: growing_def visit_def)

lemma growing_visit_item [growing_intros]: "growing (visit_item V c item iloc)"
  using growing_visit by (simp add: growing_def visit_item_def)

lemma growing_all_of [growing_intros]: "growing (all_of V node inst iloc)"
  unfolding all_of_def by (intro growing_intros)

lemma visit_grows: "visit V node inst iloc st = Some (Inr st') \<Longrightarrow> grows st st'"
  "visit_item V node item iloc st = Some (Inr st') \<Longrightarrow> grows st st'"
  using growing_visit growing_visit_item by (auto simp: growing_def)

lemma any_loop_grows: "any_loop V cs inst iloc st = Some (Inr (b, st')) \<Longrightarrow> grows st st'"
proof (induction cs arbitrary: st)
  case (Cons c cs)
  from Cons.prems obtain x where "visit V c inst iloc st = Some (Inr x)"
    and r: "st' = x \<or> any_loop V cs inst iloc x = Some (Inr (b, st'))"
    by (auto simp: vbind_Inr_iff split: if_splits)
  from r Cons.IH visit_grows(1) [OF this(1)] show ?case by (blast intro: grows_trans)
qed simp

lemma one_loop_grows: "one_loop V cs inst iloc k st = Some (Inr (k', st')) \<Longrightarrow> grows st st'"
proof (induction cs arbitrary: st k)
  case (Cons c cs)
  from Cons.prems obtain x where v: "visit V c inst iloc st = Some (Inr x)"
    and r: "one_loop V cs inst iloc (k + 1) x = Some (Inr (k', st'))
      \<or> one_loop V cs inst iloc k (resize_errors (error_count st) x) = Some (Inr (k', st'))"
    by (simp add: vbind_Inr_iff split: if_splits) blast+
  from visit_grows(1) [OF v] grows_resize [OF visit_grows(1) [OF v]] r Cons.IH show ?case by (blast intro: grows_trans)
qed simp

lemma contains_loop_grows: "contains_loop V c items iloc k st = Some (Inr (k', st')) \<Longrightarrow> grows st st'"
proof (induction items arbitrary: st k)
  case (Cons item items)
  from Cons.prems obtain x where v: "visit_item V c item iloc st = Some (Inr x)"
    and r: "contains_loop V c items iloc (k + 1) x = Some (Inr (k', st'))
      \<or> contains_loop V c items iloc k (resize_errors (error_count st) x) = Some (Inr (k', st'))"
    by (simp add: vbind_Inr_iff split: if_splits) blast+
  from visit_grows(2) [OF v] grows_resize [OF visit_grows(2) [OF v]] r Cons.IH show ?case by (blast intro: grows_trans)
qed simp

lemma growing_composed [growing_intros]:
  "growing (any_of V node inst sloc iloc)" "growing (one_of V node inst sloc iloc)"
  "growing (check_contains V node inst sloc iloc)" "growing (check_not V node inst sloc iloc)"
  by (auto simp: growing_def any_of_def one_of_def check_contains_def check_not_def vbind_Inr_iff Let_def
      dest!: any_loop_grows one_loop_grows contains_loop_grows visit_grows
      intro: grows_resize grows_trans [OF _ grows_steps(1)] split: list.splits json.splits prod.splits)

lemma growing_if_then [growing_intros]: "growing (check_if c V node inst iloc)"
proof -
  have "grows st st'" if "check_if c V node inst iloc st = Some (Inr st')" for st st'
  proof (cases "n_children node")
    case (Cons n ns)
    with that obtain st1 where "visit V n inst iloc st = Some (Inr st1)"
      and r: "st' = resize_errors (error_count st) st1
        \<or> (\<exists>b. visit V b inst iloc (resize_errors (error_count st) st1) = Some (Inr st'))"
      by (cases "siblings c node") (auto simp: check_if_def vbind_Inr_iff Let_def split: option.splits if_splits)
    then have "grows st (resize_errors (error_count st) st1)"
      using growing_visit by (auto simp: growing_def intro: grows_resize)
    with r show ?thesis using growing_visit unfolding growing_def by (blast intro: grows_trans)
  qed (use that in \<open>simp add: check_if_def\<close>)
  then show ?thesis by (simp add: growing_def)
qed

lemma growing_named [growing_intros]:
  "growing (check_property V child name v iloc)" "growing (check_properties V node inst iloc)"
  "growing (check_pattern_properties lib V node inst iloc)" "growing (check_dependent_schemas V node inst iloc)"
proof -
  show p: "growing (check_property V child name v iloc)" for child name v
    unfolding check_property_def by (intro growing_intros grows_steps)
  show "growing (check_properties V node inst iloc)" "growing (check_pattern_properties lib V node inst iloc)"
    "growing (check_dependent_schemas V node inst iloc)"
    unfolding check_properties_def check_pattern_properties_def check_dependent_schemas_def Let_def
    by (intro growing_intros grows_refl p)+
qed

lemma growing_remaining [growing_intros]: "growing (check_remaining V node inst iloc)"
proof -
  have "growing (\<lambda>st. if key \<notin> evaluated_properties st then visit V c v (child_loc iloc key) st else vreturn st)" for c key v
    by (intro growing_intros grows_refl)
  then have "growing (each (\<lambda>(key, v) st. if key \<notin> evaluated_properties st then visit V c v (child_loc iloc key) st
      else vreturn st) ms)" for c ms
    by (intro growing_each growing_cases(4))
  then show ?thesis
    by (cases inst; cases "n_children node") (simp_all add: check_remaining_def growing_def)
qed

lemma growing_items [growing_intros]:
  "growing (check_items V node inst iloc)" "growing (check_prefix_items V node inst iloc)"
  "growing (check_additional_items c V node inst iloc)" "growing (check_unevaluated_items V node inst iloc)"
  "growing (check_ref c V node inst sloc iloc)"
  unfolding check_items_def check_prefix_items_def check_additional_items_def check_unevaluated_items_def check_ref_def
  by (intro growing_intros grows_refl grows_steps grows_item_evaluated)+

end

lemma growing_property_names [growing_intros]: "growing (check_property_names lib node inst sloc)"
proof -
  let ?f = "\<lambda>c (key, v) st. vbind
            (case read_string v of
               None \<Rightarrow> vreturn st
             | Some text \<Rightarrow> each (\<lambda>sub. report_all (uri_to_string (n_uri sub)) (name_messages lib key v text sub)) (n_children c) st)
            (\<lambda>st1. vreturn
              (if error_count st1 > error_count st
               then add_error sloc (''Property name '' @ quoted key @ '' does not match propertyNames schema'') st1 else st1))"
  have "growing (\<lambda>st. case read_string v of None \<Rightarrow> vreturn st
      | Some text \<Rightarrow> each (\<lambda>sub. report_all (uri_to_string (n_uri sub)) (name_messages lib key v text sub)) (n_children c) st)" for key v c
    by (intro growing_intros grows_refl)
  then have "growing (?f c x)" for c x
    by (cases x) (auto simp: growing_def vbind_Inr_iff intro: grows_trans [OF _ grows_steps(1)])
  then have "growing (each (?f c) ms)" for c ms by (intro growing_each)
  then show ?thesis
    by (cases inst; cases "n_children node") (simp_all add: check_property_names_def growing_def)
qed

context growing_validator
begin

lemma growing_step: "growing (validate_step lib c V node inst sloc iloc)"
  by (cases "n_keyword node") (simp_all add: validate_step_def growing_intros)

end

interpretation validation: growing_validator "validate_node lib c fuel" for lib c fuel
proof (induction fuel)
  case 0
  show ?case by unfold_locales (simp add: growing_def)
next
  case (Suc fuel)
  show ?case
  proof
    fix node inst sloc iloc
    have "grows st st'" if "validate_node lib c (Suc fuel) node inst sloc iloc st = Some (Inr st')" for st st'
    proof -
      have "grows (note_visit node iloc st) st'"
        using that growing_validator.growing_step [OF Suc, of lib c node inst sloc iloc] by (simp add: growing_def)
      then show ?thesis by (rule grows_trans [OF grows_steps(3)])
    qed
    then show "growing (validate_node lib c (Suc fuel) node inst sloc iloc)" by (simp add: growing_def)
  qed
qed

section \<open>When a run returns\<close>

definition answers :: "'a run \<Rightarrow> bool" where "answers r \<longleftrightarrow> r \<noteq> None"

lemma vbind_returns: "answers (r) \<Longrightarrow> (\<And>x. r = Some (Inr x) \<Longrightarrow> answers (f x)) \<Longrightarrow> answers (vbind r f)"
  by (auto simp: answers_def vbind_def split: sum.splits)

lemma returns_simps [simp]: "answers (vreturn x)" "answers (vfail e)" "answers (report_all sloc r st)"
  by (simp_all add: answers_def vreturn_def vfail_def report_all_def split: sum.split)

lemma each_returns: "(\<And>x st. x \<in> set xs \<Longrightarrow> answers (f x st)) \<Longrightarrow> answers (each f xs st)"
proof (induction xs arbitrary: st)
  case (Cons x xs)
  then show ?case by (simp add: vbind_returns)
qed simp

lemma property_names_return: "answers (check_property_names lib node inst sloc st)"
  unfolding check_property_names_def
  by (auto intro!: each_returns vbind_returns split: json.split list.split option.split)

definition below_ok :: "(SchemaNode \<Rightarrow> bool) \<Rightarrow> SchemaNode \<Rightarrow> bool" where
  "below_ok ok node \<longleftrightarrow> (\<forall>c \<in> set (n_children node). ok c \<and> (\<forall>d \<in> set (n_children c). ok d))"

text \<open>A validator that returns on some of the nodes; what it is asked about a node are its children and
  the children of these.\<close>

locale returning_validator =
  fixes V :: validator and ok :: "SchemaNode \<Rightarrow> bool"
  assumes V_returns: "ok node \<Longrightarrow> answers (V node inst sloc iloc st)"
begin

lemma visit_returns: "ok node \<Longrightarrow> answers (visit V node inst iloc st)" "ok node \<Longrightarrow> answers (visit_item V node item iloc st)"
  by (simp_all add: visit_def visit_item_def V_returns)

lemma loops_return:
  "\<forall>c \<in> set cs. ok c \<Longrightarrow> answers (any_loop V cs inst iloc st)"
  "\<forall>c \<in> set cs. ok c \<Longrightarrow> answers (one_loop V cs inst iloc k st)"
  "ok c \<Longrightarrow> answers (contains_loop V c items iloc k st)"
proof -
  show "\<forall>c \<in> set cs. ok c \<Longrightarrow> answers (any_loop V cs inst iloc st)"
    by (induction cs arbitrary: st) (auto intro!: vbind_returns visit_returns)
  show "\<forall>c \<in> set cs. ok c \<Longrightarrow> answers (one_loop V cs inst iloc k st)"
    by (induction cs arbitrary: st k) (auto intro!: vbind_returns visit_returns)
  show "ok c \<Longrightarrow> answers (contains_loop V c items iloc k st)"
    by (induction items arbitrary: st k) (auto intro!: vbind_returns visit_returns)
qed

lemma composed_return:
  assumes "below_ok ok node"
  shows "answers (all_of V node inst iloc st)" and "answers (any_of V node inst sloc iloc st)"
    and "answers (one_of V node inst sloc iloc st)" and "answers (check_not V node inst sloc iloc st)"
    and "answers (check_contains V node inst sloc iloc st)"
  using assms unfolding all_of_def any_of_def one_of_def check_not_def check_contains_def below_ok_def Let_def
  by (auto intro!: each_returns vbind_returns visit_returns loops_return
      split: list.split json.split)

lemma if_returns:
  assumes "below_ok ok node" and "\<And>ns kw b. siblings c node = Inr ns \<Longrightarrow> last_with kw ns = Some b \<Longrightarrow> kw \<in> {K_Then, K_Else} \<Longrightarrow> ok b"
  shows "answers (check_if c V node inst iloc st)"
  using assms unfolding check_if_def below_ok_def Let_def
  by (auto intro!: vbind_returns visit_returns split: list.split sum.split option.split)

lemma property_returns: "\<forall>d \<in> set (n_children c). ok d \<Longrightarrow> answers (check_property V c name v iloc st)"
  unfolding check_property_def by (auto intro!: each_returns vbind_returns visit_returns)

lemma descend_returns:
  assumes "below_ok ok node"
  shows "answers (check_properties V node inst iloc st)" and "answers (check_pattern_properties lib V node inst iloc st)"
    and "answers (check_remaining V node inst iloc st)" and "answers (check_dependent_schemas V node inst iloc st)"
  using assms unfolding check_properties_def check_pattern_properties_def check_remaining_def check_dependent_schemas_def
    below_ok_def Let_def
  by (auto intro!: each_returns property_returns visit_returns split: json.split option.split list.split)

lemma items_return:
  assumes "below_ok ok node"
  shows "answers (check_items V node inst iloc st)" and "answers (check_prefix_items V node inst iloc st)"
    and "answers (check_additional_items c V node inst iloc st)" and "answers (check_unevaluated_items V node inst iloc st)"
  using assms unfolding check_items_def check_prefix_items_def check_additional_items_def check_unevaluated_items_def
    below_ok_def
  by (auto intro!: each_returns vbind_returns visit_returns split: list.split sum.split)

lemma step_returns:
  assumes "below_ok ok node" and "n_keyword node \<noteq> K_Ref"
    and "\<And>ns kw b. siblings c node = Inr ns \<Longrightarrow> last_with kw ns = Some b \<Longrightarrow> kw \<in> {K_Then, K_Else} \<Longrightarrow>
      n_children node \<noteq> [] \<Longrightarrow> ok b"
  shows "answers (validate_step lib c V node inst sloc iloc st)"
proof -
  have "answers (check_if c V node inst iloc st)"
  proof (cases "n_children node")
    case Nil then show ?thesis by (simp add: check_if_def)
  next
    case Cons then show ?thesis using assms(1,3) by (intro if_returns) auto
  qed
  with composed_return [OF assms(1)] descend_returns [OF assms(1)] items_return [OF assms(1)] assms(2)
  show ?thesis by (cases "n_keyword node") (simp_all add: validate_step_def property_names_return)
qed

end

text \<open>Without \<open>$ref\<close>, as much fuel as the node has nodes below it is enough. The branches of an \<open>if\<close> are
  not below it, but they end at once.\<close>

definition ref_free :: "SchemaNode \<Rightarrow> bool" where
  "ref_free node \<longleftrightarrow> (\<forall>n \<in> all_nodes node. n_keyword n \<noteq> K_Ref)"

definition in_reach :: "nat \<Rightarrow> SchemaNode \<Rightarrow> bool" where
  "in_reach k node \<longleftrightarrow> ref_free node \<and> size node \<le> k \<or> 0 < k \<and> n_keyword node \<in> {K_Then, K_Else}"

lemma size_node_pos: "0 < size (node :: SchemaNode)"
  by (cases node) simp

lemma size_child: "c \<in> set (n_children node) \<Longrightarrow> size c < size node"
  by (cases node) (auto simp: less_Suc_eq_le dest: size_list_estimation' [OF _ order_refl])

lemma ref_free_unfold: "ref_free node \<longleftrightarrow> n_keyword node \<noteq> K_Ref \<and> (\<forall>c \<in> set (n_children node). ref_free c)"
  unfolding ref_free_def by (subst all_nodes_unfold) auto

lemma last_with_keyword: "last_with kw ns = Some b \<Longrightarrow> n_keyword b = kw"
proof -
  assume "last_with kw ns = Some b"
  then obtain xs where "rev (filter (\<lambda>n. n_keyword n = kw) ns) = b # xs"
    by (auto simp: last_with_def simp del: rev_eq_Cons_iff split: list.splits)
  then have "b \<in> set (rev (filter (\<lambda>n. n_keyword n = kw) ns))" by (metis list.set_intros(1))
  then show ?thesis by simp
qed

interpretation returning: returning_validator "validate_node lib c k" "in_reach k" for lib c k
proof (induction k)
  case 0
  have "\<not> in_reach 0 node" for node by (cases node) (simp add: in_reach_def)
  then show ?case by unfold_locales simp
next
  case (Suc k)
  show ?case
  proof
    fix node inst sloc iloc st
    assume w: "in_reach (Suc k) node"
    have "answers (validate_step lib c (validate_node lib c k) node inst sloc iloc st')" for st'
    proof (cases "n_keyword node \<in> {K_Then, K_Else}")
      case True
      then show ?thesis by (auto simp: validate_step_def)
    next
      case False
      with w have r: "ref_free node" and s: "size node \<le> Suc k" by (auto simp: in_reach_def)
      have "in_reach k d" if "d \<in> set (n_children n)" "n = node \<or> n \<in> set (n_children node)" for n d
        using that r s size_child [of d n] size_child [of n node] ref_free_unfold [of node] ref_free_unfold [of n]
        by (auto simp: in_reach_def)
      then have "below_ok (in_reach k) node" by (auto simp: below_ok_def)
      moreover have "in_reach k b" if "last_with kw ns = Some b" "kw \<in> {K_Then, K_Else}" "n_children node \<noteq> []" for kw ns b
        using that last_with_keyword [OF that(1)] s size_child [of "hd (n_children node)" node]
          size_node_pos [of "hd (n_children node)"]
        by (auto simp: in_reach_def)
      ultimately show ?thesis
        using r ref_free_unfold [of node] by (intro returning_validator.step_returns [OF Suc]) auto
    qed
    then show "answers (validate_node lib c (Suc k) node inst sloc iloc st)" by simp
  qed
qed

end
