(* ===== verification/Json_Meaning.thy ===== *)
theory Json_Meaning
  imports Json_Validate
begin

text \<open>
  The validator of \<open>Json_Validate\<close> against a reading of the schema that has no state, no fuel and no
  list of errors: \<open>satisfies\<close>. Then the properties of the component.
\<close>

section \<open>What a schema means\<close>

text \<open>A reading of the keywords without state: the ones that \<open>validate_node\<close> decides from the node and
  the instance alone.\<close>

definition stateful_keywords :: "Keyword set" where
  "stateful_keywords = {K_If, K_Ref, K_AdditionalProperties, K_UnevaluatedProperties, K_AdditionalItems,
     K_UnevaluatedItems, K_PropertyNames}"

definition opt_all :: "'a option \<Rightarrow> ('a \<Rightarrow> bool) \<Rightarrow> bool" where
  "opt_all x P = (case x of None \<Rightarrow> True | Some y \<Rightarrow> P y)"

definition array_elements :: "json \<Rightarrow> json list" where
  "array_elements v = (case v of J_Array xs \<Rightarrow> xs | _ \<Rightarrow> [])"

definition object_members :: "json \<Rightarrow> members" where
  "object_members v = (case v of J_Object ms \<Rightarrow> ms | _ \<Rightarrow> [])"

definition number_ok :: "(rat \<Rightarrow> rat \<Rightarrow> bool) \<Rightarrow> json \<Rightarrow> json \<Rightarrow> bool" where
  "number_ok R v inst \<longleftrightarrow> opt_all (read_double v) (\<lambda>limit. opt_all (read_double inst) (\<lambda>x. R x limit))"

definition leaf_ok :: "vlib \<Rightarrow> Keyword \<Rightarrow> json \<Rightarrow> json \<Rightarrow> bool" where
  "leaf_ok lib kw v inst =
     (case kw of
        K_Type \<Rightarrow> (case v of J_String t \<Rightarrow> check_type_match inst t
          | J_Array ts \<Rightarrow> (\<exists>t. J_String t \<in> set ts \<and> check_type_match inst t) | _ \<Rightarrow> True)
      | K_Enum \<Rightarrow> (\<exists>w \<in> set (array_elements v). json_equal inst w)
      | K_Const \<Rightarrow> json_equal inst v
      | K_MultipleOf \<Rightarrow> number_ok (\<lambda>x d. d = 0 \<or> \<bar>fmod x d\<bar> \<le> tolerance \<or> \<bar>double_minus (fmod x d) d\<bar> \<le> tolerance) v inst
      | K_Maximum \<Rightarrow> number_ok (\<le>) v inst
      | K_Minimum \<Rightarrow> number_ok (\<ge>) v inst
      | K_ExclusiveMaximum \<Rightarrow> number_ok (<) v inst
      | K_ExclusiveMinimum \<Rightarrow> number_ok (>) v inst
      | K_MaxLength \<Rightarrow> opt_all (read_int64 v) (\<lambda>l. opt_all (read_string inst) (\<lambda>s. sint (count_of s) \<le> l))
      | K_MinLength \<Rightarrow> opt_all (read_int64 v) (\<lambda>l. opt_all (read_string inst) (\<lambda>s. l \<le> sint (count_of s)))
      | K_Pattern \<Rightarrow> opt_all (read_string v) (\<lambda>p. opt_all (read_string inst) (pattern_found lib p))
      | K_MaxItems \<Rightarrow> opt_all (read_int64 v) (\<lambda>l. (\<forall>xs. inst = J_Array xs \<longrightarrow> count_of xs \<le> word_of_int l))
      | K_MinItems \<Rightarrow> opt_all (read_int64 v) (\<lambda>l. (\<forall>xs. inst = J_Array xs \<longrightarrow> word_of_int l \<le> count_of xs))
      | K_UniqueItems \<Rightarrow> (v = J_Bool True \<longrightarrow> distinct (map (minify_text lib) (array_elements inst)))
      | K_MaxProperties \<Rightarrow> opt_all (read_int64 v) (\<lambda>l. (\<forall>ms. inst = J_Object ms \<longrightarrow> count_of ms \<le> word_of_int l))
      | K_MinProperties \<Rightarrow> opt_all (read_int64 v) (\<lambda>l. (\<forall>ms. inst = J_Object ms \<longrightarrow> word_of_int l \<le> count_of ms))
      | K_Required \<Rightarrow> (\<forall>ms. inst = J_Object ms \<longrightarrow>
          (\<forall>name. J_String name \<in> set (array_elements v) \<longrightarrow> name \<in> fst ` set ms))
      | K_MaxContains \<Rightarrow> True
      | K_MinContains \<Rightarrow> True
      | _ \<Rightarrow> v \<noteq> J_Bool False)"

definition dependent_ok :: "SchemaNode \<Rightarrow> json \<Rightarrow> bool" where
  "dependent_ok node inst \<longleftrightarrow> (\<forall>c \<in> set (n_children node). last_segment (n_uri c) \<in> fst ` set (object_members inst)
     \<and> n_children c \<noteq> [] \<longrightarrow> (\<forall>r \<in> set (n_children (hd (n_children c))). last_segment (n_uri r) \<in> fst ` set (object_members inst)))"

lemma size_children_less: "c \<in> set chs \<Longrightarrow> size c < Suc (size_list size chs)"
  "c \<in> set chs \<Longrightarrow> d \<in> set (n_children c) \<Longrightarrow> size d < Suc (size_list size chs)"
proof -
  show c: "c \<in> set chs \<Longrightarrow> size c < Suc (size_list size chs)"
    by (simp add: less_Suc_eq_le size_list_estimation')
  show "c \<in> set chs \<Longrightarrow> d \<in> set (n_children c) \<Longrightarrow> size d < Suc (size_list size chs)"
    using c size_child [of d c] by fastforce
qed

function satisfies :: "vlib \<Rightarrow> SchemaNode \<Rightarrow> json \<Rightarrow> bool" where
  "satisfies lib (SchemaNode u ident a d kw v chs p) inst =
     (case kw of
        K_Schema \<Rightarrow> (\<forall>c \<in> set chs. satisfies lib c inst)
      | K_Not \<Rightarrow> (case chs of [] \<Rightarrow> True | c # _ \<Rightarrow> \<not> satisfies lib c inst)
      | K_Items \<Rightarrow> (case chs of [] \<Rightarrow> True | c # _ \<Rightarrow> \<forall>x \<in> set (array_elements inst). satisfies lib c x)
      | K_Contains \<Rightarrow> (case chs of [] \<Rightarrow> True
          | c # _ \<Rightarrow> (\<forall>xs. inst = J_Array xs \<longrightarrow> (\<exists>x \<in> set xs. satisfies lib c x)))
      | K_Properties \<Rightarrow> (\<forall>c \<in> set chs. \<forall>s \<in> set (n_children c).
          opt_all (map_of (object_members inst) (last_segment (n_uri c))) (satisfies lib s))
      | K_PatternProperties \<Rightarrow> (\<forall>c \<in> set chs. \<forall>s \<in> set (n_children c). \<forall>(key, w) \<in> set (object_members inst).
          pattern_found lib (last_segment (n_uri c)) key \<longrightarrow> satisfies lib s w)
      | K_DependentSchemas \<Rightarrow> (\<forall>c \<in> set chs. last_segment (n_uri c) \<in> fst ` set (object_members inst) \<longrightarrow>
          (\<forall>s \<in> set (n_children c). satisfies lib s inst))
      | K_DependentRequired \<Rightarrow> dependent_ok (SchemaNode u ident a d kw v chs p) inst
      | _ \<Rightarrow> leaf_ok lib kw v inst)"
  by pat_completeness auto

termination
  by (relation "measure (\<lambda>(lib, node, inst). size node)") (auto dest: size_children_less)

declare satisfies.simps [simp del]

section \<open>Runs that decide a condition\<close>

text \<open>\<open>decides f P\<close>: a run of \<open>f\<close> that returns leaves the errors as they were exactly if \<open>P\<close>.\<close>

definition decides :: "(vstate \<Rightarrow> vstate run) \<Rightarrow> bool \<Rightarrow> bool" where
  "decides f P \<longleftrightarrow> (\<forall>st st'. f st = Some (Inr st') \<longrightarrow> grows st st' \<and> (v_errors st' = v_errors st \<longleftrightarrow> P))"

lemma decidesD: "decides f P \<Longrightarrow> f st = Some (Inr st') \<Longrightarrow> grows st st' \<and> (v_errors st' = v_errors st \<longleftrightarrow> P)"
  by (simp add: decides_def)

lemma grows_both:
  "grows st st1 \<Longrightarrow> grows st1 st2 \<Longrightarrow> v_errors st2 = v_errors st \<longleftrightarrow> v_errors st1 = v_errors st \<and> v_errors st2 = v_errors st1"
  by (auto simp: grows_def)

lemma decides_return: "(\<And>st. grows st (g st) \<and> v_errors (g st) = v_errors st) \<Longrightarrow> decides (\<lambda>st. vreturn (g st)) True"
  by (auto simp: decides_def)

lemma decides_then:
  assumes "decides f P" and "\<And>st. grows st (g st) \<and> v_errors (g st) = v_errors st"
  shows "decides (\<lambda>st. vbind (f st) (\<lambda>st1. vreturn (g st1))) P"
  using assms by (auto simp: decides_def vbind_Inr_iff intro: grows_trans)

lemma decides_each: "(\<And>x. x \<in> set xs \<Longrightarrow> decides (f x) (P x)) \<Longrightarrow> decides (each f xs) (\<forall>x \<in> set xs. P x)"
proof (induction xs)
  case (Cons x xs)
  then have x: "decides (f x) (P x)" and xs: "decides (each f xs) (\<forall>x \<in> set xs. P x)" by simp_all
  show ?case
    unfolding decides_def
  proof (intro allI impI)
    fix st st'
    assume "each f (x # xs) st = Some (Inr st')"
    then obtain st1 where "f x st = Some (Inr st1)" "each f xs st1 = Some (Inr st')" by (auto simp: vbind_Inr_iff)
    with decidesD [OF x] decidesD [OF xs] have "grows st st1" "v_errors st1 = v_errors st \<longleftrightarrow> P x"
      "grows st1 st'" "v_errors st' = v_errors st1 \<longleftrightarrow> (\<forall>x \<in> set xs. P x)" by blast+
    then show "grows st st' \<and> (v_errors st' = v_errors st \<longleftrightarrow> (\<forall>y \<in> set (x # xs). P y))"
      using grows_both [of st st1 st'] grows_trans [of st st1 st'] by auto
  qed
qed (auto simp: decides_def)

lemma fold_add_error_same: "v_errors (fold (add_error sloc) msgs st) = v_errors st \<longleftrightarrow> msgs = []"
proof -
  have "length (v_errors (fold (add_error sloc) msgs st)) = length (v_errors st) + length msgs" for st
    by (induction msgs arbitrary: st) (simp_all add: add_error_def)
  then show ?thesis by (cases msgs) (auto dest: arg_cong [of _ _ length])
qed

lemma decides_report_all: "(\<And>msgs. r = Inr msgs \<Longrightarrow> msgs = [] \<longleftrightarrow> P) \<Longrightarrow> decides (report_all sloc r) P"
  by (auto simp: decides_def report_all_def grows_fold_add_error fold_add_error_same split: sum.splits)

lemma decides_cong: "decides f P \<Longrightarrow> P = Q \<Longrightarrow> decides f Q"
  by simp

section \<open>The keywords that look at one value\<close>

lemma duplicate_index_None: "duplicate_index seen i ss = None \<longleftrightarrow> distinct ss \<and> set ss \<inter> seen = {}"
  by (induction ss arbitrary: seen i) auto

lemma duplicate_index_Some: "duplicate_index {} i ss = Some k \<Longrightarrow> \<not> distinct ss"
  using duplicate_index_None [of "{}" i ss] by auto

lemma concat_map_Nil: "concat (map f xs) = [] \<longleftrightarrow> (\<forall>x \<in> set xs. f x = [])"
  by (induction xs) simp_all

lemma has_string_iff: "(\<exists>t \<in> set ts. case read_string t of None \<Rightarrow> False | Some s \<Rightarrow> P s) \<longleftrightarrow> (\<exists>s. J_String s \<in> set ts \<and> P s)"
proof
  assume "\<exists>t \<in> set ts. case read_string t of None \<Rightarrow> False | Some s \<Rightarrow> P s"
  then obtain t where "t \<in> set ts" "case read_string t of None \<Rightarrow> False | Some s \<Rightarrow> P s" by blast
  then show "\<exists>s. J_String s \<in> set ts \<and> P s" by (cases t rule: json.exhaust) auto
next
  assume "\<exists>s. J_String s \<in> set ts \<and> P s"
  then obtain s where "J_String s \<in> set ts" "P s" by blast
  then show "\<exists>t \<in> set ts. case read_string t of None \<Rightarrow> False | Some s \<Rightarrow> P s" by (intro bexI [of _ "J_String s"]) simp_all
qed

lemma required_ok:
  assumes "required_messages v inst = Inr msgs"
  shows "msgs = [] \<longleftrightarrow> leaf_ok lib K_Required v inst"
proof (cases inst)
  case (J_Object ms)
  with assms obtain reqs where v: "v = J_Array reqs" and
    m: "msgs = concat (map (\<lambda>r. case read_string r of
            Some name \<Rightarrow> if has_member ms name then [] else [''Missing required property: '' @ name]
          | None \<Rightarrow> []) reqs)"
    by (auto simp: required_messages_def rmap_Inr_iff iter_Inr_iff)
  have "msgs = [] \<longleftrightarrow> \<not> (\<exists>r \<in> set reqs. case read_string r of None \<Rightarrow> False | Some name \<Rightarrow> \<not> has_member ms name)"
    by (auto simp: m split: option.splits if_splits)
  then show ?thesis by (auto simp: has_string_iff v J_Object leaf_ok_def array_elements_def has_member_def)
qed (use assms in \<open>simp_all add: required_messages_def leaf_ok_def\<close>)

lemma leaf_messages_ok:
  "type_messages v inst = [] \<longleftrightarrow> leaf_ok lib K_Type v inst"
  "const_messages v inst = [] \<longleftrightarrow> leaf_ok lib K_Const v inst"
  "multiple_messages v inst = [] \<longleftrightarrow> leaf_ok lib K_MultipleOf v inst"
  "pattern_messages lib v inst = [] \<longleftrightarrow> leaf_ok lib K_Pattern v inst"
  "unique_messages lib v inst = [] \<longleftrightarrow> leaf_ok lib K_UniqueItems v inst"
proof -
  show "type_messages v inst = [] \<longleftrightarrow> leaf_ok lib K_Type v inst"
    by (cases v) (simp_all add: type_messages_def leaf_ok_def has_string_iff)
  show "const_messages v inst = [] \<longleftrightarrow> leaf_ok lib K_Const v inst" by (simp add: const_messages_def leaf_ok_def)
  show "multiple_messages v inst = [] \<longleftrightarrow> leaf_ok lib K_MultipleOf v inst"
    by (auto simp: multiple_messages_def leaf_ok_def number_ok_def opt_all_def Let_def split: option.split)
  show "pattern_messages lib v inst = [] \<longleftrightarrow> leaf_ok lib K_Pattern v inst"
    by (simp add: pattern_messages_def validate_pattern_def leaf_ok_def opt_all_def split: option.split)
  show "unique_messages lib v inst = [] \<longleftrightarrow> leaf_ok lib K_UniqueItems v inst"
    by (cases v; cases inst) (auto simp: unique_messages_def leaf_ok_def array_elements_def duplicate_index_None
        dest: duplicate_index_Some split: option.split bool.split)
qed

lemma bound_messages_ok:
  "kw \<in> {K_Maximum, K_Minimum, K_ExclusiveMaximum, K_ExclusiveMinimum} \<Longrightarrow> bound_messages kw v inst = [] \<longleftrightarrow> leaf_ok lib kw v inst"
  "kw \<in> {K_MaxLength, K_MinLength} \<Longrightarrow> length_messages kw v inst = [] \<longleftrightarrow> leaf_ok lib kw v inst"
  "kw \<in> {K_MaxItems, K_MinItems} \<Longrightarrow> items_messages kw v inst = [] \<longleftrightarrow> leaf_ok lib kw v inst"
  "kw \<in> {K_MaxProperties, K_MinProperties} \<Longrightarrow> properties_messages kw v inst = [] \<longleftrightarrow> leaf_ok lib kw v inst"
  by (auto simp: bound_messages_def length_messages_def items_messages_def properties_messages_def leaf_ok_def
      number_ok_def opt_all_def size_exceeded_def Let_def not_less not_le split: option.split json.split)

lemma enum_ok: "enum_messages v inst = Inr msgs \<Longrightarrow> msgs = [] \<longleftrightarrow> leaf_ok lib K_Enum v inst"
  by (auto simp: enum_messages_def rmap_Inr_iff iter_Inr_iff leaf_ok_def array_elements_def split: if_splits)

lemma dependent_messages_ok: "dependent_required_messages node inst = [] \<longleftrightarrow> dependent_ok node inst"
  by (cases inst; simp add: dependent_required_messages_def dependent_ok_def object_members_def has_member_def Let_def
      concat_map_Nil del: concat_eq_Nil_conv; blast)

section \<open>The keywords that descend\<close>

text \<open>A validator that decides \<open>sat\<close> on the nodes with \<open>core\<close>.\<close>

lemma same_errors [simp]:
  "v_errors (item_evaluated st) = v_errors st" "v_errors (evaluated name st) = v_errors st"
  "v_errors (note_visit node iloc st) = v_errors st" "v_errors (set_contains_limit kw v st) = v_errors st"
  by (simp_all add: item_evaluated_def evaluated_def note_visit_def set_contains_limit_def split: option.split)

lemma decides_after:
  assumes "decides f P" and "\<And>st. grows st (g st) \<and> v_errors (g st) = v_errors st"
  shows "decides (\<lambda>st. f (g st)) P"
  using assms unfolding decides_def by (metis grows_trans)

locale deciding_validator = growing_validator +
  fixes sat :: "SchemaNode \<Rightarrow> json \<Rightarrow> bool" and core :: "SchemaNode \<Rightarrow> bool"
  assumes decides_V: "core node \<Longrightarrow> decides (V node inst sloc iloc) (sat node inst)"
begin

lemma decides_visit: "core node \<Longrightarrow> decides (visit V node inst iloc) (sat node inst)"
  using decides_V by (simp add: decides_def visit_def)

lemma decides_visit_item: "core node \<Longrightarrow> decides (visit_item V node item iloc) (sat node (snd item))"
  using decides_visit by (simp add: decides_def visit_item_def)

lemma decides_all_of:
  "below_ok core node \<Longrightarrow> decides (all_of V node inst iloc) (\<forall>c \<in> set (n_children node). sat c inst)"
  unfolding all_of_def below_ok_def by (intro decides_each decides_visit) blast

lemma decides_not:
  assumes "below_ok core node"
  shows "decides (check_not V node inst sloc iloc) (case n_children node of [] \<Rightarrow> True | c # _ \<Rightarrow> \<not> sat c inst)"
proof (cases "n_children node")
  case Nil
  then show ?thesis by (simp add: decides_def check_not_def)
next
  case (Cons c cs)
  then have c: "core c" using assms by (simp add: below_ok_def)
  show ?thesis
    unfolding decides_def
  proof (intro allI impI)
    fix st st'
    assume run: "check_not V node inst sloc iloc st = Some (Inr st')"
    then obtain st1 where v: "visit V c inst iloc st = Some (Inr st1)"
      and st': "st' = (if error_count st1 = error_count st then add_error sloc (''Value must not match the '' @ quoted ''not'' @ '' schema'') st1
           else resize_errors (error_count st) st1)"
      by (auto simp: check_not_def Cons vbind_Inr_iff)
    note d = decidesD [OF decides_visit [OF c] v]
    then have g: "grows st st1" and e: "error_count st1 = error_count st \<longleftrightarrow> sat c inst"
      using grows_errors(2) by (auto simp: error_count_def)
    have "grows st st'" using run growing_composed(4) by (auto simp: growing_def)
    moreover have "v_errors st' = v_errors st \<longleftrightarrow> \<not> sat c inst"
      using g unfolding st' e by (auto simp: add_error_def resize_errors_def grows_def error_count_def)
    ultimately show "grows st st' \<and> (v_errors st' = v_errors st \<longleftrightarrow> (case n_children node of [] \<Rightarrow> True | c # _ \<Rightarrow> \<not> sat c inst))"
      by (simp add: Cons)
  qed
qed

lemma contains_loop_counts:
  "core c \<Longrightarrow> contains_loop V c items iloc k st = Some (Inr (k', st')) \<Longrightarrow>
    v_errors st' = v_errors st \<and> k \<le> k' \<and> (k < k' \<longleftrightarrow> (\<exists>item \<in> set items. sat c (snd item)))"
proof (induction items arbitrary: k st)
  case (Cons item items)
  from Cons.prems(2) obtain st1 where v: "visit_item V c item iloc st = Some (Inr st1)"
    and rest: "(if error_count st1 = error_count st then contains_loop V c items iloc (k + 1) st1
      else contains_loop V c items iloc k (resize_errors (error_count st) st1)) = Some (Inr (k', st'))"
    by (auto simp: vbind_Inr_iff)
  note d = decidesD [OF decides_visit_item [OF Cons.prems(1)] v]
  then have e: "error_count st1 = error_count st \<longleftrightarrow> sat c (snd item)" and "grows st st1"
    using grows_errors(2) by (auto simp: error_count_def)
  then have r: "v_errors (resize_errors (error_count st) st1) = v_errors st"
    by (auto simp: grows_def resize_errors_def error_count_def)
  show ?case
  proof (cases "sat c (snd item)")
    case True
    with rest e have "contains_loop V c items iloc (k + 1) st1 = Some (Inr (k', st'))" by simp
    from Cons.IH [OF Cons.prems(1) this] d True show ?thesis by auto
  next
    case False
    with rest e have "contains_loop V c items iloc k (resize_errors (error_count st) st1) = Some (Inr (k', st'))" by simp
    from Cons.IH [OF Cons.prems(1) this] r False show ?thesis by auto
  qed
qed simp

lemma items_of_array: "snd ` set (items_of (J_Array xs)) = set xs"
  by (simp add: items_of_def) (metis list.set_map map_snd_enumerate)

lemma decides_contains:
  assumes "below_ok core node"
  shows "decides (check_contains V node inst sloc iloc)
    (case n_children node of [] \<Rightarrow> True | c # _ \<Rightarrow> (\<forall>xs. inst = J_Array xs \<longrightarrow> (\<exists>x \<in> set xs. sat c x)))"
proof (cases "\<exists>xs c cs. inst = J_Array xs \<and> n_children node = c # cs")
  case False
  then show ?thesis
    by (cases inst; cases "n_children node") (simp_all add: decides_def check_contains_def)
next
  case True
  then obtain xs c cs where inst: "inst = J_Array xs" and Cons: "n_children node = c # cs" by blast
  then have c: "core c" using assms by (simp add: below_ok_def)
  show ?thesis
    unfolding decides_def
  proof (intro allI impI)
    fix st st'
    assume run: "check_contains V node inst sloc iloc st = Some (Inr st')"
    then obtain k st1 where loop: "contains_loop V c (items_of inst) iloc 0 st = Some (Inr (k, st1))"
      and st': "st' = (if k < 1 then add_error sloc (''Array does not contain any items matching the '' @ quoted ''contains'' @ '' schema'') st1
           else st1)"
      by (auto simp: check_contains_def inst Cons vbind_Inr_iff)
    have "0 < k \<longleftrightarrow> (\<exists>x \<in> set xs. sat c x)" "v_errors st1 = v_errors st"
      using contains_loop_counts [OF c loop] items_of_array [of xs] by (auto simp: inst) (metis imageE)
    moreover have "grows st st'" using run growing_composed(3) by (auto simp: growing_def)
    ultimately show "grows st st' \<and> (v_errors st' = v_errors st \<longleftrightarrow>
        (case n_children node of [] \<Rightarrow> True | c # _ \<Rightarrow> (\<forall>xs. inst = J_Array xs \<longrightarrow> (\<exists>x \<in> set xs. sat c x))))"
      by (auto simp: st' Cons inst add_error_def)
  qed
qed

lemma decides_items:
  assumes "below_ok core node"
  shows "decides (check_items V node inst iloc)
    (case n_children node of [] \<Rightarrow> True | c # _ \<Rightarrow> \<forall>x \<in> set (array_elements inst). sat c x)"
proof (cases "n_children node")
  case (Cons c cs)
  then have c: "core c" using assms by (simp add: below_ok_def)
  have "set (array_elements inst) = snd ` set (items_of inst)"
    using items_of_array by (cases inst) (simp_all add: array_elements_def items_of_def)
  then have "(\<forall>x \<in> set (array_elements inst). sat c x) \<longleftrightarrow> (\<forall>item \<in> set (items_of inst). sat c (snd item))" by simp
  moreover have "decides (each (\<lambda>item st. vbind (visit_item V c item iloc st) (\<lambda>st1. vreturn (item_evaluated st1))) (items_of inst))
      (\<forall>item \<in> set (items_of inst). sat c (snd item))"
    by (intro decides_each decides_then decides_visit_item c) simp
  ultimately show ?thesis by (simp add: decides_def check_items_def Cons)
qed (simp add: decides_def check_items_def)

lemma decides_property:
  assumes "\<forall>s \<in> set (n_children child). core s"
  shows "decides (check_property V child name v iloc) (\<forall>s \<in> set (n_children child). sat s v)"
  unfolding check_property_def
  by (intro decides_then decides_each decides_visit) (use assms in auto)

lemma decides_properties:
  assumes "below_ok core node"
  shows "decides (check_properties V node inst iloc) (\<forall>c \<in> set (n_children node). \<forall>s \<in> set (n_children c).
    opt_all (map_of (object_members inst) (last_segment (n_uri c))) (sat s))"
proof (cases inst)
  case (J_Object ms)
  let ?f = "\<lambda>child st. let prop_name = last_segment (n_uri child)
          in case map_of ms prop_name of None \<Rightarrow> vreturn st | Some v \<Rightarrow> check_property V child prop_name v iloc st"
  have "decides (?f c) (\<forall>s \<in> set (n_children c). opt_all (map_of ms (last_segment (n_uri c))) (sat s))"
    if "c \<in> set (n_children node)" for c
  proof (cases "map_of ms (last_segment (n_uri c))")
    case None
    then show ?thesis by (simp add: decides_def opt_all_def)
  next
    case (Some v)
    then show ?thesis using decides_property [of c] assms that by (simp add: below_ok_def opt_all_def Let_def)
  qed
  then have "decides (each ?f (n_children node)) (\<forall>c \<in> set (n_children node). \<forall>s \<in> set (n_children c).
    opt_all (map_of ms (last_segment (n_uri c))) (sat s))" by (rule decides_each)
  then show ?thesis by (simp add: decides_def check_properties_def J_Object object_members_def)
qed (simp_all add: decides_def check_properties_def object_members_def opt_all_def)

lemma decides_pattern_properties:
  assumes "below_ok core node"
  shows "decides (check_pattern_properties lib V node inst iloc) (\<forall>c \<in> set (n_children node). \<forall>s \<in> set (n_children c).
    \<forall>(key, w) \<in> set (object_members inst). pattern_found lib (last_segment (n_uri c)) key \<longrightarrow> sat s w)"
proof (cases inst)
  case (J_Object ms)
  let ?f = "\<lambda>child (key, v) st. if pattern_found lib (last_segment (n_uri child)) key then check_property V child key v iloc st
          else vreturn st"
  have "decides (?f c m) (pattern_found lib (last_segment (n_uri c)) (fst m) \<longrightarrow> (\<forall>s \<in> set (n_children c). sat s (snd m)))"
    if "c \<in> set (n_children node)" for c m
    using that assms decides_property [of c "fst m" "snd m" iloc]
    by (cases m; cases "pattern_found lib (last_segment (n_uri c)) (fst m)") (simp_all add: below_ok_def decides_def)
  then have "decides (each (\<lambda>child. each (?f child) ms) (n_children node)) (\<forall>c \<in> set (n_children node). \<forall>m \<in> set ms.
      pattern_found lib (last_segment (n_uri c)) (fst m) \<longrightarrow> (\<forall>s \<in> set (n_children c). sat s (snd m)))"
    by (intro decides_each)
  then have "decides (check_pattern_properties lib V node inst iloc) (\<forall>c \<in> set (n_children node). \<forall>m \<in> set ms.
      pattern_found lib (last_segment (n_uri c)) (fst m) \<longrightarrow> (\<forall>s \<in> set (n_children c). sat s (snd m)))"
    by (simp add: decides_def check_pattern_properties_def J_Object)
  then show ?thesis by (rule decides_cong) (simp add: J_Object object_members_def split_def; blast)
qed (simp_all add: decides_def check_pattern_properties_def object_members_def)

lemma decides_dependent_schemas:
  assumes "below_ok core node"
  shows "decides (check_dependent_schemas V node inst iloc) (\<forall>c \<in> set (n_children node).
    last_segment (n_uri c) \<in> fst ` set (object_members inst) \<longrightarrow> (\<forall>s \<in> set (n_children c). sat s inst))"
proof (cases inst)
  case (J_Object ms)
  let ?f = "\<lambda>child st. if has_member ms (last_segment (n_uri child)) then each (\<lambda>sub. visit V sub inst iloc) (n_children child) st
          else vreturn st"
  have "decides (each (\<lambda>sub. visit V sub inst iloc) (n_children c)) (\<forall>s \<in> set (n_children c). sat s inst)"
    if "c \<in> set (n_children node)" for c
    using that assms by (intro decides_each decides_visit) (auto simp: below_ok_def)
  then have "decides (?f c) (has_member ms (last_segment (n_uri c)) \<longrightarrow> (\<forall>s \<in> set (n_children c). sat s inst))"
    if "c \<in> set (n_children node)" for c
    using that by (cases "has_member ms (last_segment (n_uri c))") (simp_all add: decides_def)
  then have "decides (each ?f (n_children node)) (\<forall>c \<in> set (n_children node).
      has_member ms (last_segment (n_uri c)) \<longrightarrow> (\<forall>s \<in> set (n_children c). sat s inst))" by (rule decides_each)
  then show ?thesis unfolding J_Object by (simp add: decides_def check_dependent_schemas_def object_members_def has_member_def)
qed (simp_all add: decides_def check_dependent_schemas_def object_members_def)

end

text \<open>The schemas it is about: no stateful keyword, and none of composition, which no compiled schema has.\<close>

definition core_schema :: "SchemaNode \<Rightarrow> bool" where
  "core_schema node \<longleftrightarrow> (\<forall>n \<in> all_nodes node. n_keyword n \<notin> stateful_keywords \<union> composition_keywords)"

lemma core_schema_unfold:
  "core_schema node \<longleftrightarrow> n_keyword node \<notin> stateful_keywords \<union> composition_keywords \<and> (\<forall>c \<in> set (n_children node). core_schema c)"
  unfolding core_schema_def by (subst all_nodes_unfold) auto

lemma satisfies_unfold:
  "satisfies lib node inst =
     (case n_keyword node of
        K_Schema \<Rightarrow> (\<forall>c \<in> set (n_children node). satisfies lib c inst)
      | K_Not \<Rightarrow> (case n_children node of [] \<Rightarrow> True | c # _ \<Rightarrow> \<not> satisfies lib c inst)
      | K_Items \<Rightarrow> (case n_children node of [] \<Rightarrow> True | c # _ \<Rightarrow> \<forall>x \<in> set (array_elements inst). satisfies lib c x)
      | K_Contains \<Rightarrow> (case n_children node of [] \<Rightarrow> True
          | c # _ \<Rightarrow> (\<forall>xs. inst = J_Array xs \<longrightarrow> (\<exists>x \<in> set xs. satisfies lib c x)))
      | K_Properties \<Rightarrow> (\<forall>c \<in> set (n_children node). \<forall>s \<in> set (n_children c).
          opt_all (map_of (object_members inst) (last_segment (n_uri c))) (satisfies lib s))
      | K_PatternProperties \<Rightarrow> (\<forall>c \<in> set (n_children node). \<forall>s \<in> set (n_children c). \<forall>(key, w) \<in> set (object_members inst).
          pattern_found lib (last_segment (n_uri c)) key \<longrightarrow> satisfies lib s w)
      | K_DependentSchemas \<Rightarrow> (\<forall>c \<in> set (n_children node). last_segment (n_uri c) \<in> fst ` set (object_members inst) \<longrightarrow>
          (\<forall>s \<in> set (n_children c). satisfies lib s inst))
      | K_DependentRequired \<Rightarrow> dependent_ok node inst
      | _ \<Rightarrow> leaf_ok lib (n_keyword node) (n_value node) inst)"
  by (cases node; cases "n_keyword node") (simp_all add: satisfies.simps)

lemma decides_leaf:
  "decides (report_all sloc (Inr (type_messages v inst))) (leaf_ok lib K_Type v inst)"
  "decides (report_all sloc (enum_messages v inst)) (leaf_ok lib K_Enum v inst)"
  "decides (report_all sloc (Inr (const_messages v inst))) (leaf_ok lib K_Const v inst)"
  "decides (report_all sloc (Inr (multiple_messages v inst))) (leaf_ok lib K_MultipleOf v inst)"
  "decides (report_all sloc (Inr (bound_messages K_Maximum v inst))) (leaf_ok lib K_Maximum v inst)"
  "decides (report_all sloc (Inr (bound_messages K_Minimum v inst))) (leaf_ok lib K_Minimum v inst)"
  "decides (report_all sloc (Inr (bound_messages K_ExclusiveMaximum v inst))) (leaf_ok lib K_ExclusiveMaximum v inst)"
  "decides (report_all sloc (Inr (bound_messages K_ExclusiveMinimum v inst))) (leaf_ok lib K_ExclusiveMinimum v inst)"
  "decides (report_all sloc (Inr (length_messages K_MaxLength v inst))) (leaf_ok lib K_MaxLength v inst)"
  "decides (report_all sloc (Inr (length_messages K_MinLength v inst))) (leaf_ok lib K_MinLength v inst)"
  "decides (report_all sloc (Inr (pattern_messages lib v inst))) (leaf_ok lib K_Pattern v inst)"
  "decides (report_all sloc (Inr (items_messages K_MaxItems v inst))) (leaf_ok lib K_MaxItems v inst)"
  "decides (report_all sloc (Inr (items_messages K_MinItems v inst))) (leaf_ok lib K_MinItems v inst)"
  "decides (report_all sloc (Inr (unique_messages lib v inst))) (leaf_ok lib K_UniqueItems v inst)"
  "decides (report_all sloc (Inr (properties_messages K_MaxProperties v inst))) (leaf_ok lib K_MaxProperties v inst)"
  "decides (report_all sloc (Inr (properties_messages K_MinProperties v inst))) (leaf_ok lib K_MinProperties v inst)"
  "decides (report_all sloc (required_messages v inst)) (leaf_ok lib K_Required v inst)"
  "decides (report_all sloc (Inr (dependent_required_messages node inst))) (dependent_ok node inst)"
  by (rule decides_report_all, simp add: leaf_messages_ok bound_messages_ok enum_ok required_ok dependent_messages_ok)+

lemma decides_default:
  "kw \<in> {K_MaxContains, K_MinContains} \<Longrightarrow> decides (\<lambda>st. vreturn (set_contains_limit kw v st)) (leaf_ok lib kw v inst)"
  "decides (report_all sloc (Inr (bool_messages v))) (v \<noteq> J_Bool False)"
proof -
  show "kw \<in> {K_MaxContains, K_MinContains} \<Longrightarrow> decides (\<lambda>st. vreturn (set_contains_limit kw v st)) (leaf_ok lib kw v inst)"
    by (auto simp: decides_def leaf_ok_def)
  have "bool_messages v = [] \<longleftrightarrow> v \<noteq> J_Bool False" by (cases v) (simp_all add: bool_messages_def)
  then show "decides (report_all sloc (Inr (bool_messages v))) (v \<noteq> J_Bool False)" by (intro decides_report_all) simp
qed

lemma leaf_ok_default:
  "kw \<in> {K_Unknown, K_Title, K_Description, K_Default, K_Deprecated, K_ReadOnly, K_WriteOnly, K_ContentEncoding,
     K_ContentMediaType, K_ContentSchema, K_ID, K_Anchor, K_DynamicRef, K_DynamicAnchor, K_Defs, K_Definitions, K_Then, K_Else}
    \<Longrightarrow> leaf_ok lib kw v inst \<longleftrightarrow> v \<noteq> J_Bool False"
  by (auto simp: leaf_ok_def)

context deciding_validator
begin

lemma decides_step:
  assumes "sat = satisfies lib" and "core_schema node" and "below_ok core node"
  shows "decides (validate_step lib c V node inst sloc iloc) (satisfies lib node inst)"
proof -
  note assms(3) [THEN decides_all_of] assms(3) [THEN decides_not] assms(3) [THEN decides_contains]
    assms(3) [THEN decides_items] assms(3) [THEN decides_properties] assms(3) [THEN decides_pattern_properties]
    assms(3) [THEN decides_dependent_schemas]
  note descend = this [unfolded assms(1)]
  have k: "n_keyword node \<notin> stateful_keywords \<union> composition_keywords" using assms(2) by (simp add: core_schema_unfold [of node])
  show ?thesis
    unfolding satisfies_unfold [of lib node inst]
    by (cases "n_keyword node")
      (use k in \<open>simp_all add: validate_step_def descend decides_leaf decides_default leaf_ok_default stateful_keywords_def composition_keywords_def\<close>)
qed

end

interpretation deciding: deciding_validator "validate_node lib c k" "satisfies lib" core_schema for lib c k
proof (induction k)
  case 0
  show ?case by unfold_locales (simp add: decides_def)
next
  case (Suc k)
  show ?case
  proof
    fix node inst sloc iloc
    assume n: "core_schema node"
    have "core_schema c" if "c \<in> set (n_children node)" for c using n that by (simp add: core_schema_unfold [of node])
    moreover have "core_schema d" if "core_schema c" "d \<in> set (n_children c)" for c d
      using that by (simp add: core_schema_unfold [of c])
    ultimately have "below_ok core_schema node" by (auto simp: below_ok_def)
    from deciding_validator.decides_step [OF Suc refl n this, where c = c and inst = inst and sloc = sloc and iloc = iloc]
    show "decides (validate_node lib c (Suc k) node inst sloc iloc) (satisfies lib node inst)"
      by (simp add: decides_after)
  qed
qed

section \<open>Runs that raise nothing\<close>

definition raises_nothing :: "'a run \<Rightarrow> bool" where
  "raises_nothing r \<longleftrightarrow> (\<forall>e. r \<noteq> Some (Inl e))"

lemma vbind_raises_nothing:
  "raises_nothing r \<Longrightarrow> (\<And>x. r = Some (Inr x) \<Longrightarrow> raises_nothing (f x)) \<Longrightarrow> raises_nothing (vbind r f)"
  by (auto simp: raises_nothing_def vbind_def split: sum.splits option.splits)

lemma raises_nothing_simps [simp]: "raises_nothing (vreturn x)" "raises_nothing (report_all sloc (Inr msgs) st)"
  by (simp_all add: raises_nothing_def vreturn_def report_all_def)

lemma each_raises_nothing: "(\<And>x st. x \<in> set xs \<Longrightarrow> raises_nothing (f x st)) \<Longrightarrow> raises_nothing (each f xs st)"
  by (induction xs arbitrary: st) (auto intro!: vbind_raises_nothing)

locale quiet_validator =
  fixes V :: validator and ok :: "SchemaNode \<Rightarrow> bool"
  assumes V_quiet: "ok node \<Longrightarrow> raises_nothing (V node inst sloc iloc st)"
begin

lemma visit_quiet: "ok node \<Longrightarrow> raises_nothing (visit V node inst iloc st)"
  "ok node \<Longrightarrow> raises_nothing (visit_item V node item iloc st)"
  by (simp_all add: visit_def visit_item_def V_quiet)

lemma contains_quiet: "ok c \<Longrightarrow> raises_nothing (contains_loop V c items iloc k st)"
  by (induction items arbitrary: st k) (auto intro!: vbind_raises_nothing visit_quiet)

lemma property_quiet: "\<forall>d \<in> set (n_children c). ok d \<Longrightarrow> raises_nothing (check_property V c name v iloc st)"
  unfolding check_property_def by (auto intro!: each_raises_nothing vbind_raises_nothing visit_quiet)

lemma descend_quiet:
  assumes "below_ok ok node"
  shows "raises_nothing (all_of V node inst iloc st)" and "raises_nothing (check_not V node inst sloc iloc st)"
    and "raises_nothing (check_contains V node inst sloc iloc st)" and "raises_nothing (check_items V node inst iloc st)"
    and "raises_nothing (check_properties V node inst iloc st)"
    and "raises_nothing (check_pattern_properties lib V node inst iloc st)"
    and "raises_nothing (check_dependent_schemas V node inst iloc st)"
  using assms unfolding all_of_def check_not_def check_contains_def check_items_def check_properties_def
    check_pattern_properties_def check_dependent_schemas_def below_ok_def Let_def
  by (auto intro!: each_raises_nothing vbind_raises_nothing visit_quiet contains_quiet property_quiet
      split: json.split list.split option.split)

end

text \<open>A keyword that iterates over its value has an array.\<close>

definition list_valued :: "SchemaNode \<Rightarrow> bool" where
  "list_valued node \<longleftrightarrow> (\<forall>n \<in> all_nodes node. n_keyword n \<in> {K_Enum, K_Required} \<longrightarrow> (\<exists>vs. n_value n = J_Array vs))"

lemma list_valued_unfold:
  "list_valued node \<longleftrightarrow> (n_keyword node \<in> {K_Enum, K_Required} \<longrightarrow> (\<exists>vs. n_value node = J_Array vs))
    \<and> (\<forall>c \<in> set (n_children node). list_valued c)"
  unfolding list_valued_def by (subst all_nodes_unfold) auto

definition tame_schema :: "SchemaNode \<Rightarrow> bool" where
  "tame_schema node \<longleftrightarrow> core_schema node \<and> list_valued node"

lemma below_tame: "tame_schema node \<Longrightarrow> below_ok tame_schema node"
  unfolding below_ok_def tame_schema_def by (metis core_schema_unfold list_valued_unfold)

lemma list_messages_quiet:
  "v = J_Array vs \<Longrightarrow> raises_nothing (report_all sloc (enum_messages v inst) st)"
  "v = J_Array vs \<Longrightarrow> raises_nothing (report_all sloc (required_messages v inst) st)"
  by (simp_all add: enum_messages_def required_messages_def rmap_def split: json.split)

interpretation quiet: quiet_validator "validate_node lib c k" tame_schema for lib c k
proof (induction k)
  case 0
  show ?case by unfold_locales (simp add: raises_nothing_def)
next
  case (Suc k)
  show ?case
  proof
    fix node inst sloc iloc st
    assume n: "tame_schema node"
    then have kw: "n_keyword node \<notin> stateful_keywords \<union> composition_keywords"
      and lv: "n_keyword node \<in> {K_Enum, K_Required} \<Longrightarrow> \<exists>vs. n_value node = J_Array vs"
      using core_schema_unfold [of node] list_valued_unfold [of node] by (auto simp: tame_schema_def)
    have "raises_nothing (validate_step lib c (validate_node lib c k) node inst sloc iloc st')" for st'
      by (cases "n_keyword node")
        (use kw lv in \<open>auto simp: validate_step_def quiet_validator.descend_quiet [OF Suc below_tame [OF n]]
          list_messages_quiet stateful_keywords_def composition_keywords_def\<close>)
    then show "raises_nothing (validate_node lib c (Suc k) node inst sloc iloc st)" by simp
  qed
qed

section \<open>Samples\<close>

definition sample_lib :: vlib where
  "sample_lib = \<lparr>rx_search = (\<lambda>p s. Some (contains_sub p s)), minify_text = show_value, parse_error = (\<lambda>s. ''bad'')\<rparr>"

definition idle_compiler :: SchemaCompiler where
  "idle_compiler = \<lparr>root_node = plain_node ''#'' K_Schema J_Null [], tables = \<lparr>anchor_table = [], id_table = []\<rparr>, error_list = []\<rparr>"

text \<open>\<open>{"allOf": [{"type": "string"}]}\<close> and \<open>{"$ref": "#"}\<close>.\<close>

definition all_of_string :: json where
  "all_of_string = J_Object [(''allOf'', J_Array [J_Object [(''type'', J_String ''string'')]])]"

definition ref_to_root :: json where
  "ref_to_root = J_Object [(''$ref'', J_String ''#'')]"

lemma keywords_of_samples: "keyword_of ''allOf'' = K_AllOf" "keyword_of ''type'' = K_Type" "keyword_of ''$ref'' = K_Ref"
  by (simp_all add: keyword_of_def keyword_table_def)

lemma all_of_string_compiles:
  "\<exists>c. compile (\<lambda>s. Some all_of_string) s idle_compiler = Inr (True, c) \<and> n_keyword (root_node c) = K_Schema
    \<and> (\<exists>item. n_children (root_node c) = [item] \<and> n_keyword item = K_Unknown \<and> n_value item = J_Object [(''type'', J_String ''string'')]
        \<and> (\<exists>t. n_children item = [t] \<and> n_keyword t = K_Type \<and> n_children t = []))"
  by (simp add: compile_def all_of_string_def build_schema_tree.simps build_fields.simps build_keyword.simps
      build_nodes.simps open_child_def id_value_def keywords_of_samples is_object_def plain_node_def Let_def)

lemma ref_to_root_compiles:
  "\<exists>c child. compile (\<lambda>s. Some ref_to_root) s idle_compiler = Inr (True, c) \<and> n_children (root_node c) = [child]
    \<and> n_keyword child = K_Ref \<and> n_value child = J_String ''#'' \<and> find_ref c ''#'' = Some (T_node [])"
  by (simp add: compile_def ref_to_root_def build_schema_tree.simps build_fields.simps build_keyword.simps
      open_child_def id_value_def keywords_of_samples is_object_def find_ref_def register_def has_anchor_def has_id_def
      has_dynamic_anchor_def add_stale_def emplace_def key_set_def root_uri_def parse_uri_def uri_to_string_def Let_def)

section \<open>Properties\<close>

text \<open>C17: the shape of a compiled schema. No node of the tree has the keyword \<open>allOf\<close>, \<open>anyOf\<close>, \<open>oneOf\<close>
  or \<open>prefixItems\<close>, so the branches of \<open>validate_node\<close> for them are never taken; only the children of
  the root have a \<open>parent\<close> that can be followed, below them it is null or stale; an anchor leads to a
  node of the tree with that URI or dynamic anchor, and every node is found under its URI; every entry
  of \<open>ids_\<close> is a stale address.\<close>

theorem compile_tree:
  assumes "compile parse s c = Inr (True, c')"
  shows "(\<forall>n \<in> all_nodes (root_node c'). n_keyword n \<notin> {K_AllOf, K_AnyOf, K_OneOf, K_PrefixItems})
    \<and> (\<forall>ch \<in> set (n_children (root_node c')). n_parent ch \<in> {P_null, P_root})
    \<and> (\<forall>n \<in> all_nodes (root_node c') - {root_node c'}. \<forall>ch \<in> set (n_children n). n_parent ch \<in> {P_null, P_stale})
    \<and> (\<forall>k pos. map_of (anchor_table (tables c')) k = Some pos \<longrightarrow>
         (\<exists>n. node_at (root_node c') pos = Some n \<and> (k = uri_to_string (n_uri n) \<or> k = n_dynamic_anchor n)))
    \<and> (\<forall>n \<in> all_nodes (root_node c'). uri_to_string (n_uri n) \<in> key_set (anchor_table (tables c')))
    \<and> (\<forall>k tgt. map_of (id_table (tables c')) k = Some tgt \<longrightarrow> tgt = T_stale)"
  using compile_compiled [OF assms] unfolding compiled_def composition_keywords_def by blast

theorem compile_tree_witness:
  "\<exists>c. compile (\<lambda>s. Some all_of_string) [] idle_compiler = Inr (True, c)
    \<and> (\<forall>n \<in> all_nodes (root_node c). n_keyword n \<noteq> K_AllOf)"
proof -
  obtain c where "compile (\<lambda>s. Some all_of_string) [] idle_compiler = Inr (True, c)"
    using all_of_string_compiles by blast
  with compile_tree [OF this] show ?thesis by blast
qed

text \<open>Whatever the schema, the instance and the state, a run of \<open>validate_node\<close> that returns only
  appends to the errors, in spite of the branches that resize them, and no error it appends carries an
  instance location; the evaluated properties, the evaluated items and the calls of the callback
  only grow as well.\<close>

theorem validate_node_appends:
  assumes "validate_node lib c fuel node inst sloc iloc st = Some (Inr st')"
  shows "(\<exists>es. v_errors st' = v_errors st @ es \<and> (\<forall>e \<in> set es. ve_location e = []))
    \<and> evaluated_properties st \<subseteq> evaluated_properties st'
    \<and> (\<exists>k. evaluated_items st' = evaluated_items st @ replicate k True) \<and> prefix (visits st) (visits st')"
  using validation.growing_V assms unfolding growing_def grows_def by blast

theorem validate_node_appends_witness:
  "\<exists>st'. validate_node sample_lib idle_compiler 1 (plain_node ''#'' K_Type (J_String ''string'') []) (J_Int 5) ''#'' [] fresh_state
      = Some (Inr st')
    \<and> (\<exists>es. v_errors st' = es \<and> (\<forall>e \<in> set es. ve_location e = []))"
proof -
  have "\<exists>st'. validate_node sample_lib idle_compiler (Suc 0) (plain_node ''#'' K_Type (J_String ''string'') []) (J_Int 5) ''#'' [] fresh_state
      = Some (Inr st')"
    by (simp add: validate_step_def plain_node_def report_all_def vreturn_def)
  then obtain st' where run: "validate_node sample_lib idle_compiler (Suc 0) (plain_node ''#'' K_Type (J_String ''string'') [])
      (J_Int 5) ''#'' [] fresh_state = Some (Inr st')" by blast
  from validate_node_appends [OF run] run show ?thesis by (auto simp: fresh_state_def)
qed

text \<open>C22: validation with a compiled schema without \<open>$ref\<close> always returns, however the instance is
  nested, and the number of nodes of the schema bounds the depth of the recursion.\<close>

theorem validate_returns:
  assumes "\<forall>n \<in> all_nodes (root_node c). n_keyword n \<noteq> K_Ref" and "size (root_node c) \<le> fuel"
  shows "validate_json lib parse fuel text c \<noteq> None"
proof -
  have "in_reach fuel (root_node c)" using assms by (simp add: in_reach_def ref_free_def)
  then have "answers (validate_json lib parse fuel text c)"
    unfolding validate_json_def by (auto intro!: vbind_returns returning.V_returns split: option.split)
  then show ?thesis by (simp add: answers_def)
qed

theorem validate_returns_witness:
  "validate_json sample_lib (\<lambda>s. Some (J_Int 5)) (size (root_node idle_compiler)) [] idle_compiler \<noteq> None"
  by (rule validate_returns) (simp_all add: idle_compiler_def plain_node_def all_nodes.simps)

text \<open>C23: a schema that refers to itself does not: when a child of the root is a \<open>$ref\<close> to the root, no
  amount of fuel lets the validation of any instance come to a verdict.\<close>

theorem self_reference_diverges:
  assumes "n_keyword (root_node c) = K_Schema" and "child \<in> set (n_children (root_node c))" and "n_keyword child = K_Ref"
    and "n_value child = J_String target" and "find_ref c target = Some (T_node [])"
  shows "validate_node lib c fuel (root_node c) inst sloc iloc st \<noteq> Some (Inr st')"
proof (induction fuel arbitrary: sloc iloc st st' rule: less_induct)
  case (less fuel)
  show ?case
  proof
    assume run: "validate_node lib c fuel (root_node c) inst sloc iloc st = Some (Inr st')"
    then obtain k where k: "fuel = Suc k" by (cases fuel) auto
    have each_all: "\<exists>st1 st2. f x st1 = Some (Inr st2)" if "each f xs st1 = Some (Inr st2)" "x \<in> set xs" for f and x :: SchemaNode and xs st1 st2
      using that by (induction xs arbitrary: st1) (auto simp: vbind_Inr_iff)
    from run obtain st1 where "all_of (validate_node lib c k) (root_node c) inst iloc st1 = Some (Inr st')"
      by (auto simp: k validate_step_def assms(1) Let_def)
    then obtain st2 st3 where "visit (validate_node lib c k) child inst iloc st2 = Some (Inr st3)"
      unfolding all_of_def using each_all assms(2) by blast
    then obtain j st4 st5 where j: "k = Suc j"
      and "check_ref c (validate_node lib c j) child inst (uri_to_string (n_uri child)) iloc st4 = Some (Inr st5)"
      by (cases k) (auto simp: visit_def validate_step_def assms(3) Let_def)
    then have "visit (validate_node lib c j) (root_node c) inst iloc st4 = Some (Inr st5)"
      by (simp add: check_ref_def assms(4,5))
    then show False using less.IH [of j] by (auto simp: visit_def k j)
  qed
qed

theorem self_reference_diverges_witness:
  "\<exists>c. compile (\<lambda>s. Some ref_to_root) [] idle_compiler = Inr (True, c)
    \<and> (\<forall>fuel st'. validate_node sample_lib c fuel (root_node c) (J_Int 1) ''#'' [] fresh_state \<noteq> Some (Inr st'))"
proof -
  obtain c child where c: "compile (\<lambda>s. Some ref_to_root) [] idle_compiler = Inr (True, c)"
    "n_children (root_node c) = [child]" "n_keyword child = K_Ref" "n_value child = J_String ''#''"
    "find_ref c ''#'' = Some (T_node [])"
    using ref_to_root_compiles by blast
  have "n_keyword (root_node c) = K_Schema" using compile_compiled [OF c(1)] by (simp add: compiled_def)
  from self_reference_diverges [OF this _ c(3-5)] c(1,2) show ?thesis by auto
qed

text \<open>C4: validation implements the reading of the schema. For a schema without stateful keywords whose
  \<open>enum\<close> and \<open>required\<close> have arrays, validation of any instance returns without an exception, the verdict
  is \<open>satisfies\<close>, and errors are listed exactly if it is negative.\<close>

theorem validate_core:
  assumes "core_schema (root_node c)" and "list_valued (root_node c)" and "size (root_node c) \<le> fuel" and "parse text = Some inst"
  shows "\<exists>errors trace. validate_json lib parse fuel text c
      = Some (Inr (satisfies lib (root_node c) inst, c\<lparr>error_list := errors\<rparr>, trace))
    \<and> (errors = [] \<longleftrightarrow> satisfies lib (root_node c) inst)"
proof -
  let ?run = "validate_node lib c fuel (root_node c) inst ''#'' [] fresh_state"
  have "in_reach fuel (root_node c)"
    using assms(1,3) by (auto simp: in_reach_def ref_free_def core_schema_def stateful_keywords_def)
  then have "answers ?run" by (rule returning.V_returns)
  moreover have "raises_nothing ?run" using assms(1,2) by (intro quiet.V_quiet) (simp add: tame_schema_def)
  ultimately obtain st where r: "?run = Some (Inr st)" by (cases ?run) (auto simp: answers_def raises_nothing_def split: sum.splits, metis sum.exhaust)
  with decidesD [OF deciding.decides_V [OF assms(1)]] have "v_errors st = v_errors fresh_state \<longleftrightarrow> satisfies lib (root_node c) inst"
    by blast
  then have "(v_errors st = []) = satisfies lib (root_node c) inst" by (simp add: fresh_state_def)
  with r assms(4) show ?thesis by (auto simp: validate_json_def vreturn_def)
qed

text \<open>For \<open>{"allOf": [{"type": "string"}]}\<close> the verdict on a number is that it is valid.\<close>

theorem validate_core_witness:
  "\<exists>c c' trace. compile (\<lambda>s. Some all_of_string) [] idle_compiler = Inr (True, c)
    \<and> validate_json sample_lib (\<lambda>s. Some (J_Int 5)) (size (root_node c)) [] c = Some (Inr (True, c', trace))"
proof -
  obtain c item t where c: "compile (\<lambda>s. Some all_of_string) [] idle_compiler = Inr (True, c)"
    and rt: "n_keyword (root_node c) = K_Schema" "n_children (root_node c) = [item]"
    and item: "n_keyword item = K_Unknown" "n_value item = J_Object [(''type'', J_String ''string'')]" "n_children item = [t]"
    and t: "n_keyword t = K_Type" "n_children t = []"
    using all_of_string_compiles by blast
  have "tame_schema t"
    by (simp add: tame_schema_def core_schema_unfold [of t] list_valued_unfold [of t] t stateful_keywords_def composition_keywords_def)
  then have "tame_schema item"
    by (simp add: tame_schema_def core_schema_unfold [of item] list_valued_unfold [of item] item stateful_keywords_def
        composition_keywords_def)
  then have core: "core_schema (root_node c)" "list_valued (root_node c)"
    by (simp_all add: tame_schema_def core_schema_unfold [of "root_node c"] list_valued_unfold [of "root_node c"] rt
        stateful_keywords_def composition_keywords_def)
  have sat: "satisfies sample_lib (root_node c) (J_Int 5)"
    by (subst satisfies_unfold) (simp add: rt satisfies_unfold [of _ item] item leaf_ok_def)
  from validate_core [OF core order_refl, of "\<lambda>s. Some (J_Int 5)" "[]" "J_Int 5" sample_lib] sat c show ?thesis by auto
qed

text \<open>C25: the limits on sizes. A limit that is not negative means what it says for every array, object
  and string that fits in memory; a negative \<open>maxItems\<close> or \<open>maxProperties\<close> allows every size and a
  negative \<open>minItems\<close> or \<open>minProperties\<close> none, because the limit is read as a 64-bit unsigned number.\<close>

theorem size_limits:
  assumes "fits_int64 limit" and "length xs < 2 ^ 63" and "length ms < 2 ^ 63" and "length s < 2 ^ 63"
  shows "(items_messages K_MaxItems (J_Int limit) (J_Array xs) = [] \<longleftrightarrow> limit < 0 \<or> int (length xs) \<le> limit)
    \<and> (items_messages K_MinItems (J_Int limit) (J_Array xs) = [] \<longleftrightarrow> 0 \<le> limit \<and> limit \<le> int (length xs))
    \<and> (properties_messages K_MaxProperties (J_Int limit) (J_Object ms) = [] \<longleftrightarrow> limit < 0 \<or> int (length ms) \<le> limit)
    \<and> (properties_messages K_MinProperties (J_Int limit) (J_Object ms) = [] \<longleftrightarrow> 0 \<le> limit \<and> limit \<le> int (length ms))
    \<and> (length_messages K_MaxLength (J_Int limit) (J_String s) = [] \<longleftrightarrow> int (length s) \<le> limit)
    \<and> (length_messages K_MinLength (J_Int limit) (J_String s) = [] \<longleftrightarrow> limit \<le> int (length s))"
proof -
  have c: "uint (count_of ys) = int (length ys)" "sint (count_of ys) = int (length ys)" if "length ys < 2 ^ 63" for ys :: "'x list"
    using that by (simp_all add: count_of_def uint_word_ariths unsigned_of_nat take_bit_nat_eq_self signed_of_nat
        signed_take_bit_int_eq_self take_bit_int_eq_self)
  have l: "uint (word_of_int limit :: 64 word) = (if limit < 0 then limit + 2 ^ 64 else limit)"
  proof (cases "limit < 0")
    case True
    have "limit mod 2 ^ 64 = (limit + 2 ^ 64) mod 2 ^ 64" by simp
    also have "\<dots> = limit + 2 ^ 64"
      using True assms(1) by (intro mod_pos_pos_trivial) (simp_all add: fits_int64_def)
    finally show ?thesis using True by (simp add: uint_word_of_int take_bit_eq_mod)
  next
    case False
    then show ?thesis using assms(1) by (simp add: uint_word_of_int take_bit_eq_mod fits_int64_def)
  qed
  have e: "size_exceeded True (count_of ys) limit \<longleftrightarrow> 0 \<le> limit \<and> limit < int (length ys)"
    "size_exceeded False (count_of ys) limit \<longleftrightarrow> limit < 0 \<or> int (length ys) < limit"
    if "length ys < 2 ^ 63" for ys :: "'x list"
    using c(1) [OF that] that assms(1) by (auto simp: size_exceeded_def word_less_def l fits_int64_def)
  have "items_messages K_MaxItems (J_Int limit) (J_Array xs) = [] \<longleftrightarrow> limit < 0 \<or> int (length xs) \<le> limit"
    "items_messages K_MinItems (J_Int limit) (J_Array xs) = [] \<longleftrightarrow> 0 \<le> limit \<and> limit \<le> int (length xs)"
    using e [OF assms(2)] by (auto simp: items_messages_def assms(1) Let_def)
  moreover have "properties_messages K_MaxProperties (J_Int limit) (J_Object ms) = [] \<longleftrightarrow> limit < 0 \<or> int (length ms) \<le> limit"
    "properties_messages K_MinProperties (J_Int limit) (J_Object ms) = [] \<longleftrightarrow> 0 \<le> limit \<and> limit \<le> int (length ms)"
    using e [OF assms(3)] by (auto simp: properties_messages_def assms(1) Let_def)
  moreover have "length_messages K_MaxLength (J_Int limit) (J_String s) = [] \<longleftrightarrow> int (length s) \<le> limit"
    "length_messages K_MinLength (J_Int limit) (J_String s) = [] \<longleftrightarrow> limit \<le> int (length s)"
    using c(2) [OF assms(4)] by (auto simp: length_messages_def assms(1) Let_def)
  ultimately show ?thesis by blast
qed

theorem size_limits_witness:
  "items_messages K_MaxItems (J_Int (- 1)) (J_Array [J_Null, J_Null]) = []
    \<and> items_messages K_MinItems (J_Int (- 1)) (J_Array [J_Null, J_Null]) \<noteq> []
    \<and> length_messages K_MaxLength (J_Int 2) (J_String ''abc'') \<noteq> []"
  using size_limits [of "- 1" "[J_Null, J_Null]" "[]" "[]"] size_limits [of 2 "[]" "[]" "''abc''"]
  by (simp add: fits_int64_def)

end
