(* ===== verification/Schema_Documents.thy ===== *)
theory Schema_Documents
  imports Json_Meaning
begin

text \<open>
  The validator from the texts of its two files to its exit code: for a class of schema documents the
  tool accepts exactly the instances that the document describes. \<open>accepts\<close> reads the document itself,
  without the tree of nodes, the URIs and the state of a validation.
\<close>

section \<open>The documents\<close>

definition is_array :: "json \<Rightarrow> bool" where
  "is_array v = (case v of J_Array _ \<Rightarrow> True | _ \<Rightarrow> False)"

definition is_text :: "json \<Rightarrow> bool" where
  "is_text v = (case v of J_String _ \<Rightarrow> True | _ \<Rightarrow> False)"

definition value_keywords :: "Keyword list" where
  "value_keywords = [K_Type, K_Const, K_MultipleOf, K_Maximum, K_Minimum, K_ExclusiveMaximum, K_ExclusiveMinimum,
     K_MaxLength, K_MinLength, K_Pattern, K_MaxItems, K_MinItems, K_UniqueItems, K_MaxProperties, K_MinProperties]"

text \<open>Keywords that assert nothing.\<close>

definition text_keywords :: "Keyword list" where
  "text_keywords = [K_Schema, K_Title, K_Description, K_ContentEncoding, K_ContentMediaType]"

definition note_keywords :: "Keyword list" where
  "note_keywords = [K_Default, K_Deprecated, K_ReadOnly, K_WriteOnly]"

definition known_members :: "members \<Rightarrow> members" where
  "known_members ms = filter (\<lambda>(k, v). keyword_of k \<noteq> K_Unknown) ms"

lemma size_member: "(k, v) \<in> set (object_members doc) \<Longrightarrow> size v < size doc"
  by (cases doc) (auto simp: object_members_def less_Suc_eq_le dest!: size_list_estimation' [OF _ order_refl, where f = "size_prod (\<lambda>x. 0) size"])

text \<open>The supported documents: objects with keywords that assert something about the instance, annotations and
  unknown members between them. The names below \<open>properties\<close> and its like have no slash, because
  the validator reads them back from a URI; the schema below \<open>items\<close>, \<open>not\<close> and \<open>contains\<close> has one known keyword.\<close>

function supported :: "json \<Rightarrow> bool" where
  "supported doc \<longleftrightarrow> is_object doc \<and> (\<forall>(k, v) \<in> set (object_members doc).
     let kw = keyword_of k in
     if kw \<in> {K_Properties, K_PatternProperties, K_DependentSchemas}
     then is_object v \<and> (\<forall>(name, s) \<in> set (object_members v). CHR ''/'' \<notin> set name \<and> supported s)
     else if kw \<in> {K_Items, K_Not, K_Contains} then supported v \<and> length (known_members (object_members v)) = 1
     else if kw \<in> {K_Enum, K_Required} then is_array v
     else if kw \<in> set text_keywords then is_text v
     else if kw \<in> set note_keywords then \<not> is_object v \<and> v \<noteq> J_Bool False
     else kw = K_Unknown \<or> kw \<in> set value_keywords \<and> \<not> is_object v)"
  by pat_completeness auto

termination
  by (relation "measure size") (auto dest!: size_member)

declare supported.simps [simp del]

text \<open>What a document says about an instance, by recursion over the document.\<close>

function accepts :: "vlib \<Rightarrow> json \<Rightarrow> json \<Rightarrow> bool"
  and accepts_keyword :: "vlib \<Rightarrow> Keyword \<Rightarrow> json \<Rightarrow> json \<Rightarrow> bool" where
  "accepts lib doc inst = (\<forall>(k, v) \<in> set (object_members doc). accepts_keyword lib (keyword_of k) v inst)"
| "accepts_keyword lib kw v inst =
     (case kw of
        K_Unknown \<Rightarrow> True
      | K_Schema \<Rightarrow> True
      | K_Title \<Rightarrow> True
      | K_Description \<Rightarrow> True
      | K_ContentEncoding \<Rightarrow> True
      | K_ContentMediaType \<Rightarrow> True
      | K_Default \<Rightarrow> True
      | K_Deprecated \<Rightarrow> True
      | K_ReadOnly \<Rightarrow> True
      | K_WriteOnly \<Rightarrow> True
      | K_Properties \<Rightarrow> (\<forall>(name, s) \<in> set (object_members v). opt_all (map_of (object_members inst) name) (accepts lib s))
      | K_PatternProperties \<Rightarrow> (\<forall>(p, s) \<in> set (object_members v). \<forall>(key, w) \<in> set (object_members inst).
          pattern_found lib p key \<longrightarrow> accepts lib s w)
      | K_DependentSchemas \<Rightarrow> (\<forall>(name, s) \<in> set (object_members v). name \<in> fst ` set (object_members inst) \<longrightarrow> accepts lib s inst)
      | K_Items \<Rightarrow> (\<forall>x \<in> set (array_elements inst). accepts lib v x)
      | K_Contains \<Rightarrow> (case inst of J_Array xs \<Rightarrow> (\<exists>x \<in> set xs. accepts lib v x) | _ \<Rightarrow> True)
      | K_Not \<Rightarrow> \<not> accepts lib v inst
      | _ \<Rightarrow> leaf_ok lib kw v inst)"
  by pat_completeness auto

termination
  by (relation "measure (case_sum (\<lambda>(_, d, _). 2 * size d) (\<lambda>(_, _, v, _). 2 * size v + 1))") (auto dest!: size_member)

declare accepts.simps [simp del] accepts_keyword.simps [simp del]

section \<open>The tree of a document\<close>

definition reads :: "SchemaNode list \<Rightarrow> (vlib \<Rightarrow> json \<Rightarrow> bool) \<Rightarrow> bool" where
  "reads chs P \<longleftrightarrow> (\<forall>c \<in> set chs. tame_schema c) \<and> (\<forall>lib inst. (\<forall>c \<in> set chs. satisfies lib c inst) \<longleftrightarrow> P lib inst)"

lemma tame_unfold:
  "tame_schema node \<longleftrightarrow> n_keyword node \<notin> stateful_keywords \<union> composition_keywords
    \<and> (n_keyword node \<in> {K_Enum, K_Required} \<longrightarrow> is_array (n_value node)) \<and> (\<forall>c \<in> set (n_children node). tame_schema c)"
proof -
  have "is_array v \<longleftrightarrow> (\<exists>vs. v = J_Array vs)" for v by (cases v) (simp_all add: is_array_def)
  then show ?thesis
    unfolding tame_schema_def using core_schema_unfold [of node] list_valued_unfold [of node] by auto
qed

lemma open_child_plain:
  assumes "kw \<noteq> K_ID"
  obtains child where "open_child key kw value orphan self uri st = (child, uri, st)" "n_keyword child = kw"
    "n_value child = value" "n_children child = []"
  using assms by (simp add: open_child_def id_value_def Let_def)

lemma reads_leaf:
  assumes "n_keyword node = kw" and "n_value node = v" and "n_children node = []"
    and "kw \<in> set value_keywords \<or> kw \<in> {K_Enum, K_Required} \<and> is_array v \<or> kw \<in> set text_keywords \<and> is_text v
      \<or> kw \<in> set note_keywords \<and> v \<noteq> J_Bool False"
  shows "reads [node] (\<lambda>lib. accepts_keyword lib kw v)"
proof -
  have "tame_schema node"
    using assms by (subst tame_unfold) (auto simp: value_keywords_def text_keywords_def note_keywords_def stateful_keywords_def composition_keywords_def)
  moreover have "satisfies lib node inst = accepts_keyword lib kw v inst" for lib inst
    using assms by (cases kw) (simp_all add: satisfies_unfold [of lib node] value_keywords_def text_keywords_def note_keywords_def accepts_keyword.simps
        leaf_ok_default is_text_def split: json.splits)
  ultimately show ?thesis by (simp add: reads_def)
qed

lemma reads_descend:
  assumes "n_keyword node = kw" and "n_children node = [c]" and "reads [c] (\<lambda>lib. accepts lib v)"
    and "kw \<in> {K_Items, K_Not, K_Contains}"
  shows "reads [node] (\<lambda>lib. accepts_keyword lib kw v)"
proof -
  have c: "tame_schema c" "satisfies lib c inst = accepts lib v inst" for lib inst using assms(3) by (simp_all add: reads_def)
  have "tame_schema node"
    using assms(1,2,4) c(1) by (subst tame_unfold) (auto simp: stateful_keywords_def composition_keywords_def)
  moreover have "satisfies lib node inst = accepts_keyword lib kw v inst" for lib inst
    using assms(1,2,4) by (auto simp: satisfies_unfold [of lib node] accepts_keyword.simps c(2) split: json.splits)
  ultimately show ?thesis by (simp add: reads_def)
qed

text \<open>The node of a named schema.\<close>

definition named_node :: "string \<times> json \<Rightarrow> SchemaNode \<Rightarrow> bool" where
  "named_node m c \<longleftrightarrow> n_keyword c = K_Unknown \<and> last_segment (n_uri c) = fst m
    \<and> reads (n_children c) (\<lambda>lib. accepts lib (snd m))"

lemma list_all2_ball:
  "list_all2 R xs ys \<Longrightarrow> (\<And>x y. R x y \<Longrightarrow> P x \<longleftrightarrow> Q y) \<Longrightarrow> (\<forall>x \<in> set xs. P x) \<longleftrightarrow> (\<forall>y \<in> set ys. Q y)"
  by (induction rule: list_all2_induct) auto

lemma opt_all_ball: "(\<forall>x \<in> S. opt_all m (P x)) \<longleftrightarrow> opt_all m (\<lambda>y. \<forall>x \<in> S. P x y)"
  by (cases m) (simp_all add: opt_all_def)

lemma reads_named:
  assumes "n_keyword node = kw" and "list_all2 named_node ps (n_children node)"
    and "kw \<in> {K_Properties, K_PatternProperties, K_DependentSchemas}"
  shows "reads [node] (\<lambda>lib. accepts_keyword lib kw (J_Object ps))"
proof -
  note ball = list_all2_ball [OF assms(2)]
  have sat: "(\<forall>s \<in> set (n_children c). satisfies lib s inst) = accepts lib (snd m) inst" if "named_node m c" for m c lib inst
    using that by (simp add: named_node_def reads_def)
  have "(\<forall>m \<in> set ps. True) \<longleftrightarrow> (\<forall>c \<in> set (n_children node). tame_schema c)"
    by (rule ball, subst tame_unfold) (simp add: named_node_def reads_def stateful_keywords_def composition_keywords_def)
  then have "tame_schema node"
    using assms(1,3) by (subst tame_unfold) (auto simp: stateful_keywords_def composition_keywords_def)
  moreover have "satisfies lib node inst = accepts_keyword lib kw (J_Object ps) inst" for lib inst
  proof -
    let ?ms = "object_members inst"
    have object_ps: "object_members (J_Object ps) = ps" by (simp add: object_members_def)
    have p: "(\<forall>m \<in> set ps. opt_all (map_of ?ms (fst m)) (accepts lib (snd m)))
        \<longleftrightarrow> (\<forall>c \<in> set (n_children node). \<forall>s \<in> set (n_children c). opt_all (map_of ?ms (last_segment (n_uri c))) (satisfies lib s))"
      by (rule ball) (simp add: opt_all_ball sat, simp add: named_node_def)
    have q: "(\<forall>m \<in> set ps. \<forall>(key, w) \<in> set ?ms. pattern_found lib (fst m) key \<longrightarrow> accepts lib (snd m) w)
        \<longleftrightarrow> (\<forall>c \<in> set (n_children node). \<forall>s \<in> set (n_children c). \<forall>(key, w) \<in> set ?ms.
          pattern_found lib (last_segment (n_uri c)) key \<longrightarrow> satisfies lib s w)"
      by (rule ball) (auto simp: sat [symmetric], auto simp: named_node_def)
    have d: "(\<forall>m \<in> set ps. fst m \<in> fst ` set ?ms \<longrightarrow> accepts lib (snd m) inst)
        \<longleftrightarrow> (\<forall>c \<in> set (n_children node). last_segment (n_uri c) \<in> fst ` set ?ms \<longrightarrow> (\<forall>s \<in> set (n_children c). satisfies lib s inst))"
      by (rule ball) (simp add: sat, simp add: named_node_def)
    consider "kw = K_Properties" | "kw = K_PatternProperties" | "kw = K_DependentSchemas" using assms(3) by blast
    then show ?thesis
      by cases (simp_all only: satisfies_unfold [of lib node] accepts_keyword.simps assms(1) Keyword.case object_ps
          p [symmetric] q [unfolded split_def, symmetric] d [symmetric] split_def)
  qed
  ultimately show ?thesis by (simp add: reads_def)
qed

section \<open>Building succeeds\<close>

definition buildable :: "json \<Rightarrow> bool" where
  "buildable doc \<longleftrightarrow> (\<forall>orphan self uri st. \<exists>chs. build_schema_tree doc orphan self uri st = Inr (chs, st)
    \<and> length chs = length (known_members (object_members doc)) \<and> reads chs (\<lambda>lib. accepts lib doc))"

lemma segs_last: "c \<notin> set name \<Longrightarrow> segs c (p @ c # name) = segs c p @ [name]"
  by (induction p) (auto simp: segs_no_sep split: list.split)

lemma last_segment_slash: "CHR ''/'' \<notin> set name \<Longrightarrow> last_segment (parse_uri (p @ ''/'' @ name)) = name"
  using segs_last [of "CHR ''/''" name p] by (simp add: last_segment_def)

lemma build_named:
  "\<forall>(name, s) \<in> set ps. CHR ''/'' \<notin> set name \<and> buildable s \<Longrightarrow>
    \<exists>chs. build_nodes p ps st = Inr (chs, st) \<and> list_all2 named_node ps chs"
proof (induction ps)
  case (Cons m ps)
  obtain name s where m: "m = (name, s)" by (cases m)
  with Cons obtain rest where rest: "build_nodes p ps st = Inr (rest, st)" "list_all2 named_node ps rest" by auto
  from Cons.prems m have s: "buildable s" and name: "CHR ''/'' \<notin> set name" by auto
  then obtain chs where chs: "build_schema_tree s True P_stale (parse_uri (p @ ''/'' @ name)) st = Inr (chs, st)"
    "reads chs (\<lambda>lib. accepts lib s)" unfolding buildable_def by blast
  have "named_node (name, s) (plain_node (p @ ''/'' @ name) K_Unknown s chs)"
    using chs(2) last_segment_slash [OF name, of p] by (simp add: named_node_def plain_node_def)
  with rest chs(1) show ?case by (simp add: m build_nodes.simps Let_def)
qed (simp add: build_nodes.simps)

text \<open>Each known member gives one node.\<close>

lemma build_member:
  assumes "supported doc" and "(key, v) \<in> set (object_members doc)" and "keyword_of key \<noteq> K_Unknown"
    and "\<And>s. size s < size doc \<Longrightarrow> supported s \<Longrightarrow> buildable s"
    and "n_keyword child = keyword_of key" and "n_value child = v" and "n_children child = []"
  shows "\<exists>node. build_keyword key (keyword_of key) v child orphan uri st = Inr ([node], st)
    \<and> reads [node] (\<lambda>lib. accepts_keyword lib (keyword_of key) v)"
proof -
  let ?kw = "keyword_of key"
  note kw = supported.simps [THEN iffD1, OF assms(1), THEN conjunct2, THEN bspec, OF assms(2), unfolded Let_def split]
  have size_v: "size v < size doc" using assms(2) by (rule size_member)
  consider (named) "?kw \<in> {K_Properties, K_PatternProperties, K_DependentSchemas}"
    | (descend) "?kw \<in> {K_Items, K_Not, K_Contains}"
    | (leaf) "?kw \<in> set value_keywords \<or> ?kw \<in> {K_Enum, K_Required} \<and> is_array v \<or> ?kw \<in> set text_keywords \<and> is_text v
        \<or> ?kw \<in> set note_keywords \<and> v \<noteq> J_Bool False"
      "\<not> is_object v"
    using kw assms(3) by (cases v) (auto simp: is_array_def is_text_def is_object_def split: if_splits)
  then show ?thesis
  proof cases
    case named
    with kw obtain ps where v: "v = J_Object ps" and ps: "\<forall>(name, s) \<in> set ps. CHR ''/'' \<notin> set name \<and> supported s"
      by (cases v) (auto simp: is_object_def object_members_def)
    have "\<forall>(name, s) \<in> set ps. CHR ''/'' \<notin> set name \<and> buildable s"
      using ps assms(4) size_member [of _ _ v] size_v by (fastforce simp: v object_members_def)
    from build_named [OF this] obtain chs where
      chs: "build_nodes (uri_to_string uri @ ''/'' @ key) ps st = Inr (chs, st)" "list_all2 named_node ps chs" by blast
    have "reads [plain_node (uri_to_string uri @ ''/'' @ key) ?kw v chs] (\<lambda>lib. accepts_keyword lib ?kw v)"
      unfolding v by (rule reads_named) (use named chs(2) in \<open>simp_all add: plain_node_def\<close>)
    then show ?thesis using named chs(1) by (auto simp: build_keyword.simps v Let_def)
  next
    case descend
    with kw have "supported v" "length (known_members (object_members v)) = 1" by auto
    with assms(4) size_v obtain chs where
      chs: "build_schema_tree v False P_stale (n_uri child) st = Inr (chs, st)" "length chs = 1" "reads chs (\<lambda>lib. accepts lib v)"
      unfolding buildable_def by metis
    from chs(2) obtain c where c: "chs = [c]" by (auto simp: length_Suc_conv)
    have "reads [set_children child [c]] (\<lambda>lib. accepts_keyword lib ?kw v)"
      by (rule reads_descend) (use chs(3) descend assms(5) in \<open>simp_all add: c\<close>)
    moreover have "is_object v" using \<open>supported v\<close> by (simp add: supported.simps [of v])
    ultimately show ?thesis using descend chs(1) by (auto simp: build_keyword.simps c)
  next
    case leaf
    then have "reads [child] (\<lambda>lib. accepts_keyword lib ?kw v)" using assms(5-7) by (intro reads_leaf) auto
    then show ?thesis using leaf by (auto simp: build_keyword.simps value_keywords_def text_keywords_def note_keywords_def)
  qed
qed

lemma build_members:
  assumes "\<And>s. size s < size doc \<Longrightarrow> supported s \<Longrightarrow> buildable s" and "supported doc"
  shows "set ms \<subseteq> set (object_members doc) \<Longrightarrow> \<exists>chs. build_fields ms orphan self uri st = Inr (chs, st)
    \<and> length chs = length (known_members ms)
    \<and> reads chs (\<lambda>lib inst. \<forall>(k, v) \<in> set ms. accepts_keyword lib (keyword_of k) v inst)"
proof (induction ms)
  case Nil
  then show ?case by (simp add: known_members_def reads_def)
next
  case (Cons m ms)
  obtain key v where m: "m = (key, v)" by (cases m)
  from Cons obtain rest where rest: "build_fields ms orphan self uri st = Inr (rest, st)"
    "length rest = length (known_members ms)"
    "reads rest (\<lambda>lib inst. \<forall>(k, v) \<in> set ms. accepts_keyword lib (keyword_of k) v inst)" by auto
  have mem: "(key, v) \<in> set (object_members doc)" using Cons.prems m by auto
  show ?case
  proof (cases "keyword_of key = K_Unknown")
    case True
    with rest show ?thesis by (simp add: m build_fields.simps known_members_def accepts_keyword.simps)
  next
    case False
    have "keyword_of key \<noteq> K_ID"
      using supported.simps [THEN iffD1, OF assms(2), THEN conjunct2, THEN bspec, OF mem] by (auto simp: value_keywords_def text_keywords_def note_keywords_def Let_def)
    then obtain child where child: "open_child key (keyword_of key) v orphan self uri st = (child, uri, st)"
      "n_keyword child = keyword_of key" "n_value child = v" "n_children child = []" by (rule open_child_plain)
    from build_member [OF assms(2) mem False assms(1) child(2-4)] obtain node where
      node: "build_keyword key (keyword_of key) v child orphan uri st = Inr ([node], st)"
      "reads [node] (\<lambda>lib. accepts_keyword lib (keyword_of key) v)" by blast
    from node(2) rest(3) have "reads (node # rest) (\<lambda>lib inst. \<forall>(k, v) \<in> set (m # ms). accepts_keyword lib (keyword_of k) v inst)"
      by (simp add: reads_def m)
    with rest(1,2) child(1) node(1) False show ?thesis by (simp add: m build_fields.simps known_members_def)
  qed
qed

lemma supported_buildable: "supported doc \<Longrightarrow> buildable doc"
proof (induction doc rule: measure_induct_rule [where f = size])
  case (less doc)
  have "is_object doc" using less.prems by (simp add: supported.simps [of doc])
  then obtain ms where doc: "doc = J_Object ms" by (cases doc) (simp_all add: is_object_def)
  have a: "accepts lib (J_Object ms) = (\<lambda>inst. \<forall>(k, v) \<in> set ms. accepts_keyword lib (keyword_of k) v inst)" for lib
    by (rule ext) (simp add: accepts.simps object_members_def)
  have "\<exists>chs. build_schema_tree doc orphan self uri st = Inr (chs, st) \<and> length chs = length (known_members (object_members doc))
      \<and> reads chs (\<lambda>lib. accepts lib doc)" for orphan self uri st
    using build_members [OF less.IH less.prems, of ms orphan self uri st]
    by (simp add: doc build_schema_tree.simps object_members_def a)
  then show ?case by (simp add: buildable_def)
qed

section \<open>The verdict\<close>

lemma compile_supported:
  assumes "parse s = Some doc" and "supported doc"
  obtains c' where "compile parse s c = Inr (True, c')" and "tame_schema (root_node c')"
    and "\<And>lib inst. satisfies lib (root_node c') inst = accepts lib doc inst"
proof -
  obtain chs where chs: "build_schema_tree doc True P_root root_uri \<lparr>stale_ids = [], root_base = uri_base root_uri\<rparr>
      = Inr (chs, \<lparr>stale_ids = [], root_base = uri_base root_uri\<rparr>)" "reads chs (\<lambda>lib. accepts lib doc)"
    using supported_buildable [OF assms(2)] unfolding buildable_def by blast
  then obtain c' where c': "compile parse s c = Inr (True, c')" "n_keyword (root_node c') = K_Schema" "n_children (root_node c') = chs"
    by (simp add: compile_def assms(1) Let_def)
  have "tame_schema (root_node c')"
    using chs(2) c'(2,3) by (subst tame_unfold) (simp add: reads_def stateful_keywords_def composition_keywords_def)
  moreover have "satisfies lib (root_node c') inst = accepts lib doc inst" for lib inst
    using chs(2) c'(2,3) by (simp add: satisfies_unfold [of lib "root_node c'"] reads_def)
  ultimately show thesis using that c'(1) by blast
qed


definition person_schema :: json where
  "person_schema = J_Object [(''type'', J_String ''object''), (''required'', J_Array [J_String ''name'']),
     (''properties'', J_Object
       [(''name'', J_Object [(''type'', J_String ''string''), (''minLength'', J_Int 1)]),
        (''tags'', J_Object [(''type'', J_String ''array''), (''items'', J_Object [(''type'', J_String ''string'')])])])]"

definition sample_texts :: "string \<Rightarrow> json option" where
  "sample_texts = [''s'' \<mapsto> person_schema,
     ''good'' \<mapsto> J_Object [(''name'', J_String ''Ada''), (''tags'', J_Array [J_String ''x''])],
     ''bad'' \<mapsto> J_Object [(''name'', J_String ''Ada''), (''tags'', J_Array [J_Int 1])]]"

lemma person_keywords: "keyword_of ''required'' = K_Required" "keyword_of ''properties'' = K_Properties"
  "keyword_of ''minLength'' = K_MinLength" "keyword_of ''items'' = K_Items" "keyword_of ''title'' = K_Title"
  by (simp_all add: keyword_of_def keyword_table_def)

lemmas sample_keywords = keywords_of_samples person_keywords

lemma person_supported: "supported person_schema"
  by (simp add: person_schema_def supported.simps [of "J_Object ms" for ms] sample_keywords object_members_def is_object_def
      is_array_def value_keywords_def text_keywords_def note_keywords_def known_members_def)

lemma person_accepts:
  "accepts sample_lib person_schema (the (sample_texts ''good''))" "\<not> accepts sample_lib person_schema (the (sample_texts ''bad''))"
  by (auto simp: person_schema_def check_type_match_def accepts.simps [of _ "J_Object ms" for ms] accepts_keyword.simps sample_keywords object_members_def
      sample_texts_def leaf_ok_def opt_all_def array_elements_def count_of_def fits_int64_def)


text \<open>Outside the class: \<open>items\<close>, \<open>contains\<close> and \<open>not\<close> look at the first known keyword below them only. In
  \<open>{"items": {"title": "t", "type": "string"}}\<close> the type is never checked.\<close>

lemma items_first_keyword:
  "\<exists>c. compile (\<lambda>s. Some (J_Object [(''items'', J_Object [(''title'', J_String ''t''), (''type'', J_String ''string'')])])) [] idle_compiler
      = Inr (True, c)
    \<and> satisfies sample_lib (root_node c) (J_Array [J_Int 5])"
  by (simp add: compile_def build_schema_tree.simps build_fields.simps build_keyword.simps open_child_def id_value_def sample_keywords
      is_object_def Let_def satisfies_unfold [of _ "SchemaNode u i a d k v cs p" for u i a d k v cs p] array_elements_def set_children_def leaf_ok_def)

text \<open>An annotation whose value is \<open>false\<close> is taken for the boolean schema, which no instance satisfies, and
  the names listed under \<open>dependentRequired\<close> never become nodes, so nothing is required.\<close>

lemma false_annotation_rejects:
  "\<exists>c. compile (\<lambda>s. Some (J_Object [(''readOnly'', J_Bool False)])) [] idle_compiler = Inr (True, c)
    \<and> \<not> satisfies lib (root_node c) inst"
proof -
  have "keyword_of ''readOnly'' = K_ReadOnly" by (simp add: keyword_of_def keyword_table_def)
  then show ?thesis
    by (simp add: compile_def build_schema_tree.simps build_fields.simps build_keyword.simps open_child_def id_value_def is_object_def
        Let_def satisfies_unfold [of _ "SchemaNode u i a d k v cs p" for u i a d k v cs p] leaf_ok_def)
qed

lemma dependent_required_ignored:
  "\<exists>c. compile (\<lambda>s. Some (J_Object [(''dependentRequired'', J_Object [(''a'', J_Array [J_String ''b''])])])) [] idle_compiler = Inr (True, c)
    \<and> satisfies lib (root_node c) (J_Object [(''a'', J_Null)])"
proof -
  have "keyword_of ''dependentRequired'' = K_DependentRequired" by (simp add: keyword_of_def keyword_table_def)
  then show ?thesis
    by (simp add: compile_def build_schema_tree.simps build_fields.simps build_keyword.simps build_nodes.simps open_child_def id_value_def
        is_object_def plain_node_def Let_def satisfies_unfold [of _ "SchemaNode u i a d k v cs p" for u i a d k v cs p] dependent_ok_def)
qed

end
