(* ===== verification/Unenforced.thy ===== *)
theory Unenforced
  imports Schema_Documents
begin

text \<open>
  Keywords of a schema that the validator reads but never enforces: definitions that are referred to, the
  branches of an \<open>if\<close>, and \<open>false\<close> where a schema is expected.
\<close>

section \<open>Runs without errors\<close>

definition harmless :: "(vstate \<Rightarrow> vstate run) \<Rightarrow> bool" where
  "harmless f \<longleftrightarrow> (\<forall>st. \<exists>st'. f st = Some (Inr st') \<and> v_errors st' = v_errors st)"

lemma harmlessE: "harmless f \<Longrightarrow> (\<And>st'. f st = Some (Inr st') \<Longrightarrow> v_errors st' = v_errors st \<Longrightarrow> thesis) \<Longrightarrow> thesis"
  unfolding harmless_def by blast

lemma harmless_return [simp]: "harmless vreturn"
  by (simp add: harmless_def vreturn_def)

lemma harmless_each: "(\<And>x. x \<in> set xs \<Longrightarrow> harmless (f x)) \<Longrightarrow> harmless (each f xs)"
proof (induction xs)
  case (Cons x xs)
  then have x: "harmless (f x)" and xs: "harmless (each f xs)" by simp_all
  show ?case
    unfolding harmless_def
  proof
    fix st
    obtain st1 where 1: "f x st = Some (Inr st1)" "v_errors st1 = v_errors st" using x by (rule harmlessE)
    obtain st2 where "each f xs st1 = Some (Inr st2)" "v_errors st2 = v_errors st1" using xs by (rule harmlessE)
    with 1 show "\<exists>st'. each f (x # xs) st = Some (Inr st') \<and> v_errors st' = v_errors st" by simp
  qed
qed (simp add: harmless_def vreturn_def)

lemma harmless_node:
  "harmless (validate_step lib c (validate_node lib c k) node inst sloc iloc) \<Longrightarrow> harmless (validate_node lib c (Suc k) node inst sloc iloc)"
proof -
  assume h: "harmless (validate_step lib c (validate_node lib c k) node inst sloc iloc)"
  have "\<exists>st'. validate_node lib c (Suc k) node inst sloc iloc st = Some (Inr st') \<and> v_errors st' = v_errors st" for st
    using h by (rule harmlessE [where st = "note_visit node iloc st"]) simp
  then show ?thesis by (simp add: harmless_def)
qed

text \<open>The nodes of the default branch whose value is not \<open>false\<close>. Their children are not looked at.\<close>

definition inert :: "SchemaNode \<Rightarrow> bool" where
  "inert node \<longleftrightarrow> n_keyword node \<in> {K_Unknown, K_Title, K_Description, K_Default, K_Deprecated, K_ReadOnly, K_WriteOnly,
      K_ContentEncoding, K_ContentMediaType, K_ContentSchema, K_ID, K_Anchor, K_DynamicRef, K_DynamicAnchor, K_Defs,
      K_Definitions, K_Then, K_Else} \<and> n_value node \<noteq> J_Bool False"

lemma inert_harmless:
  assumes "inert node"
  shows "harmless (validate_node lib c (Suc k) node inst sloc iloc)"
proof (rule harmless_node)
  have "bool_messages (n_value node) = []" using assms by (cases "n_value node") (simp_all add: inert_def bool_messages_def)
  then have "report_all sloc (Inr (bool_messages (n_value node))) st = vreturn st" for st by (simp add: report_all_def)
  then have "harmless (report_all sloc (Inr (bool_messages (n_value node))))" by (simp add: harmless_def vreturn_def)
  with assms show "harmless (validate_step lib c (validate_node lib c k) node inst sloc iloc)"
    by (auto simp: inert_def validate_step_def)
qed

text \<open>The keywords with a schema, when there are no nodes of that schema.\<close>

lemma childless_harmless:
  assumes "n_children node = []"
    and "n_keyword node \<in> {K_AdditionalProperties, K_UnevaluatedProperties, K_AdditionalItems, K_UnevaluatedItems, K_PropertyNames,
      K_Items, K_Contains, K_Not, K_If}"
  shows "harmless (validate_node lib c (Suc k) node inst sloc iloc)"
proof (rule harmless_node)
  have "validate_step lib c (validate_node lib c k) node inst sloc iloc = vreturn"
    using assms by (auto simp: validate_step_def check_remaining_def check_additional_items_def check_unevaluated_items_def
        check_property_names_def check_items_def check_contains_def check_not_def check_if_def fun_eq_iff split: json.split)
  then show "harmless (validate_step lib c (validate_node lib c k) node inst sloc iloc)" by simp
qed

lemma ref_harmless:
  assumes "n_keyword node = K_Ref" and "n_value node = J_String target" and "find_ref c target = Some (T_node pos)"
    and "node_at (root_node c) pos = Some n" and "inert n"
  shows "harmless (validate_node lib c (Suc (Suc k)) node inst sloc iloc)"
proof (rule harmless_node)
  have "validate_step lib c (validate_node lib c (Suc k)) node inst sloc iloc = visit (validate_node lib c (Suc k)) n inst iloc"
    using assms(1-4) by (auto simp: validate_step_def check_ref_def fun_eq_iff)
  then show "harmless (validate_step lib c (validate_node lib c (Suc k)) node inst sloc iloc)"
    using inert_harmless [OF assms(5)] by (simp add: visit_def harmless_def)
qed

lemma last_with_member: "last_with kw ns = Some b \<Longrightarrow> b \<in> set ns"
proof -
  assume "last_with kw ns = Some b"
  then obtain xs where "rev (filter (\<lambda>n. n_keyword n = kw) ns) = b # xs"
    by (auto simp: last_with_def simp del: rev_eq_Cons_iff split: list.splits)
  then have "b \<in> set (rev (filter (\<lambda>n. n_keyword n = kw) ns))" by (metis list.set_intros(1))
  then show ?thesis by simp
qed

lemma if_harmless:
  assumes "n_keyword node = K_If" and "n_children node = [i]" and "n_parent node = P_root" and "tame_schema i" and "size i \<le> Suc k"
    and "\<And>b. b \<in> set (n_children (root_node c)) \<Longrightarrow> n_keyword b \<in> {K_Then, K_Else} \<Longrightarrow> inert b"
  shows "harmless (validate_node lib c (Suc (Suc k)) node inst sloc iloc)"
proof (rule harmless_node)
  let ?V = "validate_node lib c (Suc k)"
  have "\<exists>st'. check_if c ?V node inst iloc st = Some (Inr st') \<and> v_errors st' = v_errors st" for st
  proof -
    have "in_reach (Suc k) i"
      using assms(4,5) by (auto simp: tame_schema_def in_reach_def ref_free_def core_schema_def stateful_keywords_def)
    then have "answers (visit ?V i inst iloc st)" unfolding visit_def by (rule returning.V_returns)
    moreover have "raises_nothing (visit ?V i inst iloc st)" unfolding visit_def by (rule quiet.V_quiet [OF assms(4)])
    ultimately obtain st1 where v: "visit ?V i inst iloc st = Some (Inr st1)"
      by (cases "visit ?V i inst iloc st") (auto simp: answers_def raises_nothing_def, metis sum.exhaust)
    with validation.growing_visit [of lib c "Suc k" i inst iloc] have "grows st st1" unfolding growing_def by blast
    then have e: "v_errors (resize_errors (error_count st) st1) = v_errors st"
      by (auto simp: grows_def resize_errors_def error_count_def)
    let ?kw = "if error_count st1 = error_count st then K_Then else K_Else"
    show ?thesis
    proof (cases "last_with ?kw (n_children (root_node c))")
      case None
      then show ?thesis using v e assms(2,3) by (simp add: check_if_def siblings_def vreturn_def Let_def del: validate_node.simps)
    next
      case (Some b)
      then have "b \<in> set (n_children (root_node c))" "n_keyword b \<in> {K_Then, K_Else}"
        using last_with_keyword [OF Some] last_with_member [OF Some] by (auto split: if_splits)
      then have "harmless (visit ?V b inst iloc)" unfolding visit_def by (intro inert_harmless assms(6))
      then obtain st2 where "visit ?V b inst iloc (resize_errors (error_count st) st1) = Some (Inr st2)"
        "v_errors st2 = v_errors (resize_errors (error_count st) st1)" by (rule harmlessE)
      then show ?thesis using v e Some assms(2,3) by (simp add: check_if_def siblings_def Let_def del: validate_node.simps)
    qed
  qed
  then show "harmless (validate_step lib c ?V node inst sloc iloc)"
    using assms(1) by (simp add: validate_step_def harmless_def del: validate_node.simps)
qed

lemma root_accepts:
  assumes "n_keyword (root_node c) = K_Schema" and "parse instance_text = Some inst"
    and "\<And>ch sloc iloc. ch \<in> set (n_children (root_node c)) \<Longrightarrow> harmless (validate_node lib c k ch inst sloc iloc)"
  shows "\<exists>c' trace. validate_json lib parse (Suc k) instance_text c = Some (Inr (True, c', trace))"
proof -
  have "harmless (all_of (validate_node lib c k) (root_node c) inst [])"
    unfolding all_of_def by (intro harmless_each) (use assms(3) in \<open>simp add: visit_def harmless_def\<close>)
  then have "harmless (validate_node lib c (Suc k) (root_node c) inst ''#'' [])"
    by (intro harmless_node) (simp add: validate_step_def assms(1))
  then obtain st' where "validate_node lib c (Suc k) (root_node c) inst ''#'' [] fresh_state = Some (Inr st')"
    "v_errors st' = v_errors fresh_state" by (rule harmlessE)
  then show ?thesis using assms(2) by (simp add: validate_json_def fresh_state_def vreturn_def del: validate_node.simps)
qed

section \<open>Documents\<close>

lemma tool_accepts:
  assumes "files schema_path = Some schema_text" and "files instance_path = Some instance_text"
    and "compile parse schema_text c = Inr (True, c')" and "parse instance_text = Some inst"
    and "\<And>k ch sloc iloc. m \<le> k \<Longrightarrow> ch \<in> set (n_children (root_node c')) \<Longrightarrow> harmless (validate_node lib c' k ch inst sloc iloc)"
    and "Suc m \<le> fuel"
  shows "tool_main lib parse fuel files [program, schema_path, instance_path] c = Some (Inr (0, line [''Valid'']))"
proof -
  obtain k where k: "fuel = Suc k" "m \<le> k" using assms(6) by (cases fuel) auto
  have "n_keyword (root_node c') = K_Schema" using compile_compiled [OF assms(3)] by (simp add: compiled_def)
  from root_accepts [where parse = parse and lib = lib and k = k, OF this assms(4)] assms(5) [OF k(2)]
  obtain c'' trace where "validate_json lib parse fuel instance_text c' = Some (Inr (True, c'', trace))"
    unfolding k(1) by blast
  then show ?thesis
    using assms(1-3) by (simp add: tool_main_def load_file_def tester_def vreturn_def numeral_2_eq_2 rmap_def)
qed

lemma unenforced_keywords:
  "keyword_of ''additionalProperties'' = K_AdditionalProperties" "keyword_of ''definitions'' = K_Definitions"
  "keyword_of ''if'' = K_If" "keyword_of ''then'' = K_Then" "keyword_of ''else'' = K_Else"
  by (simp_all add: keyword_of_def keyword_table_def)

lemma supported_builds:
  assumes "supported d"
  obtains chs where "build_schema_tree d orphan self uri st = Inr (chs, st)"
    and "length chs = length (known_members (object_members d))" and "reads chs (\<lambda>lib. accepts lib d)"
  using supported_buildable [OF assms] unfolding buildable_def by blast

lemma supported_object: "supported d \<Longrightarrow> is_object d \<and> d \<noteq> J_Bool False"
  by (auto simp: supported.simps [of d] is_object_def)

lemma false_compiles:
  assumes "parse s = Some (J_Object [(''additionalProperties'', J_Bool False)])"
  shows "\<exists>c' ch. compile parse s c = Inr (True, c') \<and> n_children (root_node c') = [ch] \<and> n_children ch = []
    \<and> n_keyword ch = K_AdditionalProperties"
  by (simp add: compile_def assms build_schema_tree.simps build_fields.simps build_keyword.simps open_child_def id_value_def
      unenforced_keywords is_object_def Let_def)

lemma branches_compile:
  assumes "parse s = Some (J_Object [(''if'', i), (''then'', t), (''else'', e)])"
    and "supported i" "length (known_members (object_members i)) = 1" "supported t" "supported e"
  shows "\<exists>c' a b d n. compile parse s c = Inr (True, c') \<and> n_children (root_node c') = [a, b, d]
    \<and> n_keyword a = K_If \<and> n_children a = [n] \<and> n_parent a = P_root \<and> tame_schema n \<and> inert b \<and> inert d"
proof -
  let ?st = "\<lparr>stale_ids = [], root_base = uri_base root_uri\<rparr>"
  obtain a where a: "open_child ''if'' K_If i True P_root root_uri ?st = (a, root_uri, ?st)" "n_keyword a = K_If"
    "n_parent a = P_root" by (simp add: open_child_def id_value_def)
  obtain b where b: "open_child ''then'' K_Then t True P_root root_uri ?st = (b, root_uri, ?st)" "n_keyword b = K_Then"
    "n_value b = t" by (simp add: open_child_def id_value_def)
  obtain d where d: "open_child ''else'' K_Else e True P_root root_uri ?st = (d, root_uri, ?st)" "n_keyword d = K_Else"
    "n_value d = e" by (simp add: open_child_def id_value_def)
  obtain ns where i: "build_schema_tree i False P_stale (n_uri a) ?st = Inr (ns, ?st)" "length ns = 1" "reads ns (\<lambda>lib. accepts lib i)"
    using supported_builds [OF assms(2)] assms(3) by metis
  obtain ts where ts: "build_schema_tree t False P_stale (n_uri b) ?st = Inr (ts, ?st)" using supported_builds [OF assms(4)] by metis
  obtain es where es: "build_schema_tree e False P_stale (n_uri d) ?st = Inr (es, ?st)" using supported_builds [OF assms(5)] by metis
  obtain n where n: "ns = [n]" using i(2) by (auto simp: length_Suc_conv)
  have "tame_schema n" using i(3) by (simp add: n reads_def)
  moreover have "inert (set_children b ts)" "inert (set_children d es)"
    using b d supported_object assms(4,5) by (auto simp: inert_def set_children_def)
  moreover have "\<exists>c'. compile parse s c = Inr (True, c')
      \<and> n_children (root_node c') = [set_children a ns, set_children b ts, set_children d es]"
    using supported_object assms(2,4,5)
    by (simp add: compile_def assms(1) build_schema_tree.simps(1) build_fields.simps build_keyword.simps unenforced_keywords
        a b d i(1) ts es Let_def)
  ultimately show ?thesis using a n by fastforce
qed

text \<open>The first entry of a key stays.\<close>

lemma map_of_emplace: "map_of m k = Some v \<Longrightarrow> map_of (emplace k' v' m) k = Some v"
  by (auto simp: emplace_def)

lemma anchors_kept:
  "map_of (anchor_table t) k = Some v \<Longrightarrow> map_of (anchor_table (collect_anchors pos node t)) k = Some v"
  "map_of (anchor_table t) k = Some v \<Longrightarrow> map_of (anchor_table (collect_children pos i chs t)) k = Some v"
proof (induction pos node t and pos i chs t rule: collect_anchors_collect_children.induct)
  case (1 pos u ident a d kw v' chs p t)
  then show ?case by (simp add: register_def map_of_emplace Let_def)
qed simp_all

lemma reference_compiles:
  assumes "parse s = Some (J_Object [(''definitions'', J_Object [(name, d)]), (''$ref'', J_String (''#/definitions/'' @ name))])"
    and "supported d"
  shows "\<exists>c' a r. compile parse s c = Inr (True, c') \<and> n_children (root_node c') = [a, r] \<and> inert a
    \<and> n_keyword r = K_Ref \<and> n_value r = J_String (''#/definitions/'' @ name) \<and> find_ref c' (''#/definitions/'' @ name) = Some (T_node [0])
    \<and> node_at (root_node c') [0] = Some a"
proof -
  define key where "key = ''#/definitions/'' @ name"
  note parsed = assms(1) [folded key_def]
  let ?st = "\<lparr>stale_ids = [], root_base = uri_base root_uri\<rparr>"
  let ?v = "J_Object [(name, d)]"
  let ?u = "parse_uri key"
  obtain a where a: "open_child ''definitions'' K_Definitions ?v True P_root root_uri ?st = (a, root_uri, ?st)" "n_keyword a = K_Definitions"
    "n_value a = ?v" "n_anchor a = []" "n_id a = []" "n_dynamic_anchor a = []" by (simp add: open_child_def id_value_def)
  obtain r where r: "open_child ''$ref'' K_Ref (J_String key) True P_root root_uri ?st = (r, root_uri, ?st)"
    "n_keyword r = K_Ref" "n_value r = J_String key" by (simp add: open_child_def id_value_def)
  obtain ds where ds: "build_schema_tree d False P_stale ?u ?st = Inr (ds, ?st)" using supported_builds [OF assms(2)] by metis
  let ?a = "set_children (set_uri a ?u) ds"
  have u: "def_uri ''definitions'' name True root_uri = key"
    by (simp add: def_uri_def root_uri_def parse_uri_def uri_to_string_def key_def)
  have "build_schema_tree (J_Object [(''definitions'', ?v), (''$ref'', J_String key)]) True P_root root_uri ?st
      = Inr ([?a, r], ?st)"
    by (simp add: build_schema_tree.simps(1) build_fields.simps build_keyword.simps build_defs.simps keywords_of_samples unenforced_keywords
        a(1) r(1) u ds is_object_def Let_def)
  then obtain c' where c': "compile parse s c = Inr (True, c')" "n_children (root_node c') = [?a, r]"
    and t: "tables c' = collect_anchors [] (root_node c') \<lparr>anchor_table = [], id_table = []\<rparr>"
    and root: "root_node c' = SchemaNode root_uri [] [] [] K_Schema (n_value (root_node c')) [?a, r] P_null"
    by (simp add: compile_def parsed add_stale_def Let_def)
  let ?t0 = "register [] (root_node c') \<lparr>anchor_table = [], id_table = []\<rparr>"
  have key: "key \<noteq> ''#''" by (simp add: key_def)
  have t0: "?t0 = \<lparr>anchor_table = [(''#'', [])], id_table = []\<rparr>"
    by (subst root) (simp add: register_def has_anchor_def has_id_def has_dynamic_anchor_def emplace_def key_set_def root_uri_def parse_uri_def uri_to_string_def Let_def)
  have "map_of (anchor_table (register [0] ?a ?t0)) key = Some [0]"
    unfolding t0
    by (simp add: register_def has_anchor_def has_id_def has_dynamic_anchor_def emplace_def key_set_def set_children_def set_uri_def a key Let_def)
  moreover have "tables c' = collect_children [] 1 [r] (collect_children [0] 0 ds (register [0] ?a ?t0))"
    unfolding t by (subst root, subst (2) root) (simp add: set_children_def root [symmetric])
  ultimately have "find_ref c' key = Some (T_node [0])"
    by (simp add: find_ref_def anchors_kept Let_def del: collect_anchors.simps collect_children.simps)
  moreover have "inert ?a" using a by (simp add: inert_def set_children_def set_uri_def)
  moreover have "node_at (root_node c') [0] = Some ?a" by (simp add: c'(2))
  ultimately show ?thesis unfolding key_def [symmetric] using c'(1,2) r(2,3) by blast
qed

text \<open>Enough fuel lets every child of the root run without an error.\<close>

definition passes :: "vlib \<Rightarrow> SchemaCompiler \<Rightarrow> json \<Rightarrow> nat \<Rightarrow> bool" where
  "passes lib c inst m \<longleftrightarrow> (\<forall>k ch sloc iloc. m \<le> k \<longrightarrow> ch \<in> set (n_children (root_node c)) \<longrightarrow>
     harmless (validate_node lib c k ch inst sloc iloc))"

lemma passesI:
  assumes "\<And>j ch sloc iloc. ch \<in> set (n_children (root_node c)) \<Longrightarrow> harmless (validate_node lib c (m + j) ch inst sloc iloc)"
  shows "passes lib c inst m"
  unfolding passes_def by (metis assms le_Suc_ex)

lemma false_passes:
  assumes "parse s = Some (J_Object [(''additionalProperties'', J_Bool False)])"
  shows "\<exists>c' m. compile parse s c = Inr (True, c') \<and> passes lib c' inst m"
proof -
  obtain c' ch where c': "compile parse s c = Inr (True, c')" "n_children (root_node c') = [ch]"
    "n_children ch = []" "n_keyword ch = K_AdditionalProperties" using false_compiles assms by blast
  have "harmless (validate_node lib c' (1 + j) ch inst sloc iloc)" for j sloc iloc
    unfolding plus_1_eq_Suc by (rule childless_harmless [OF c'(3)]) (simp add: c'(4))
  then have "passes lib c' inst 1" by (intro passesI) (simp add: c'(2) del: validate_node.simps)
  with c'(1) show ?thesis by blast
qed

lemma reference_passes:
  assumes "parse s = Some (J_Object [(''definitions'', J_Object [(name, d)]), (''$ref'', J_String (''#/definitions/'' @ name))])"
    and "supported d"
  shows "\<exists>c' m. compile parse s c = Inr (True, c') \<and> passes lib c' inst m"
proof -
  obtain c' a r where c': "compile parse s c = Inr (True, c')" "n_children (root_node c') = [a, r]" "inert a"
    "n_keyword r = K_Ref" "n_value r = J_String (''#/definitions/'' @ name)" "find_ref c' (''#/definitions/'' @ name) = Some (T_node [0])"
    "node_at (root_node c') [0] = Some a" using reference_compiles [of parse s, OF assms] by blast
  have "harmless (validate_node lib c' (2 + j) ch inst sloc iloc)" if "ch \<in> {a, r}" for ch j sloc iloc
    unfolding add_2_eq_Suc using that inert_harmless [OF c'(3)] ref_harmless [OF c'(4-7,3)] by blast
  then have "passes lib c' inst 2" by (intro passesI) (simp add: c'(2) del: validate_node.simps)
  with c'(1) show ?thesis by blast
qed

lemma branches_pass:
  assumes "parse s = Some (J_Object [(''if'', i), (''then'', t), (''else'', e)])"
    and "supported i" "length (known_members (object_members i)) = 1" "supported t" "supported e"
  shows "\<exists>c' m. compile parse s c = Inr (True, c') \<and> passes lib c' inst m"
proof -
  obtain c' a b d n where c': "compile parse s c = Inr (True, c')" "n_children (root_node c') = [a, b, d]"
    "n_keyword a = K_If" "n_children a = [n]" "n_parent a = P_root" "tame_schema n" "inert b" "inert d"
    using branches_compile [of parse s, OF assms] by blast
  have branch: "inert x" if "x \<in> set (n_children (root_node c'))" "n_keyword x \<in> {K_Then, K_Else}" for x
    using that c'(2,3,7,8) by auto
  have "harmless (validate_node lib c' (Suc (Suc (size n)) + j) ch inst sloc iloc)" if "ch \<in> {a, b, d}" for ch j sloc iloc
  proof -
    have "harmless (validate_node lib c' (Suc (Suc (size n + j))) a inst sloc iloc)"
      by (rule if_harmless [OF c'(3-6)]) (use branch in simp_all)
    then show ?thesis unfolding add_Suc using that inert_harmless [OF c'(7)] inert_harmless [OF c'(8)] by blast
  qed
  then have "passes lib c' inst (Suc (Suc (size n)))" by (intro passesI) (simp add: c'(2) del: validate_node.simps)
  with c'(1) show ?thesis by blast
qed

section \<open>Properties\<close>


text \<open>A number is valid against the definition of a text.\<close>

definition text_schema :: json where
  "text_schema = J_Object [(''type'', J_String ''string'')]"


end
