(* ===== verification/Queue_Runtime.thy ===== *)
theory Queue_Runtime
  imports Server_Runtime "HOL-Library.Multiset"
begin

text \<open>
  \<open>include/siesta/asio/condition_variable.hpp\<close> and \<open>include/siesta/asio/queue.hpp\<close>: waiting on a timer
  that never expires and is cancelled to wake the waiters, the asynchronous queue built on the same idea,
  and the blocking queue on \<open>std::condition_variable\<close>.

  The timer is the networking library's: its operations are the fields of \<open>timer_lib\<close> and \<open>timer_laws\<close>
  is what its documentation promises of a timer that does not expire. Handlers run one at a time, in
  any order, as on a strand.
\<close>

section \<open>The timer\<close>

text \<open>\<open>tm_pending\<close> lists the waits in progress, oldest first, \<open>tm_due\<close> the handlers that are queued for
  execution with their code, \<open>tm_start\<close> takes one of them off the queue in order to run it.\<close>

record ('o, 't) timer_lib =
  tm_wait :: "'o \<Rightarrow> 't \<Rightarrow> 't"
  tm_cancel_one :: "'t \<Rightarrow> 't"
  tm_cancel :: "'t \<Rightarrow> 't"
  tm_start :: "nat \<Rightarrow> 't \<Rightarrow> 't"
  tm_pending :: "'t \<Rightarrow> 'o list"
  tm_due :: "'t \<Rightarrow> ('o \<times> error_code) list"

definition without :: "nat \<Rightarrow> 'a list \<Rightarrow> 'a list" where
  "without i xs = take i xs @ drop (Suc i) xs"

definition timer_laws :: "error_code \<Rightarrow> ('o, 't) timer_lib \<Rightarrow> bool" where
  "timer_laws aborted lib \<longleftrightarrow>
     (\<forall>h t. tm_pending lib (tm_wait lib h t) = tm_pending lib t @ [h] \<and> tm_due lib (tm_wait lib h t) = tm_due lib t)
   \<and> (\<forall>t. tm_pending lib (tm_cancel_one lib t) = tl (tm_pending lib t)
        \<and> tm_due lib (tm_cancel_one lib t) = tm_due lib t @ map (\<lambda>h. (h, aborted)) (take 1 (tm_pending lib t)))
   \<and> (\<forall>t. tm_pending lib (tm_cancel lib t) = []
        \<and> tm_due lib (tm_cancel lib t) = tm_due lib t @ map (\<lambda>h. (h, aborted)) (tm_pending lib t))
   \<and> (\<forall>i t. i < length (tm_due lib t) \<longrightarrow>
        tm_pending lib (tm_start lib i t) = tm_pending lib t \<and> tm_due lib (tm_start lib i t) = without i (tm_due lib t))"

lemma timer_lawsD:
  assumes "timer_laws aborted lib"
  shows "tm_pending lib (tm_wait lib h t) = tm_pending lib t @ [h]" and "tm_due lib (tm_wait lib h t) = tm_due lib t"
    and "tm_pending lib (tm_cancel_one lib t) = tl (tm_pending lib t)"
    and "tm_due lib (tm_cancel_one lib t) = tm_due lib t @ map (\<lambda>h. (h, aborted)) (take 1 (tm_pending lib t))"
    and "tm_pending lib (tm_cancel lib t) = []"
    and "tm_due lib (tm_cancel lib t) = tm_due lib t @ map (\<lambda>h. (h, aborted)) (tm_pending lib t)"
    and "i < length (tm_due lib t) \<Longrightarrow> tm_pending lib (tm_start lib i t) = tm_pending lib t"
    and "i < length (tm_due lib t) \<Longrightarrow> tm_due lib (tm_start lib i t) = without i (tm_due lib t)"
  using assms by (simp_all add: timer_laws_def)

lemma length_without [simp]: "i < length xs \<Longrightarrow> length (without i xs) = length xs - 1"
  by (simp add: without_def)

lemma set_without: "set (without i xs) \<subseteq> set xs"
  by (auto simp: without_def dest: in_set_takeD in_set_dropD)

lemma mset_without: "i < length xs \<Longrightarrow> mset xs = add_mset (xs ! i) (mset (without i xs))"
  by (metis Cons_nth_drop_Suc append_take_drop_id mset_append mset.simps(2) union_mset_add_mset_right without_def)

text \<open>A timer that keeps its waits and its queue as lists.\<close>

definition list_timer :: "error_code \<Rightarrow> ('o, 'o list \<times> ('o \<times> error_code) list) timer_lib" where
  "list_timer aborted = \<lparr>
     tm_wait = (\<lambda>h (ps, ds). (ps @ [h], ds)),
     tm_cancel_one = (\<lambda>(ps, ds). (tl ps, ds @ map (\<lambda>h. (h, aborted)) (take 1 ps))),
     tm_cancel = (\<lambda>(ps, ds). ([], ds @ map (\<lambda>h. (h, aborted)) ps)),
     tm_start = (\<lambda>i (ps, ds). (ps, without i ds)),
     tm_pending = fst, tm_due = snd\<rparr>"

lemma list_timer_laws: "timer_laws aborted (list_timer aborted)"
  by (simp add: timer_laws_def list_timer_def split_beta)

section \<open>The asynchronous condition variable\<close>

text \<open>A timer that is built from an execution context has no expiry time.\<close>

datatype expiry = Unset | Never

record 't cond_var =
  cv_timer :: 't
  cv_expiry :: expiry

definition cv_of_context :: "'t \<Rightarrow> 't cond_var" where
  "cv_of_context t = \<lparr>cv_timer = t, cv_expiry = Unset\<rparr>"

definition cv_of_executor :: "'t \<Rightarrow> 't cond_var" where
  "cv_of_executor t = \<lparr>cv_timer = t, cv_expiry = Never\<rparr>"

text \<open>The two \<open>wait_op\<close> structures; a handler is a number, a predicate reads the shared state.\<close>

datatype 's wait_op = Plain nat | Guarded nat "'s \<Rightarrow> bool"

primrec op_handler :: "'s wait_op \<Rightarrow> nat" where
  "op_handler (Plain h) = h"
| "op_handler (Guarded h pred) = h"

definition async_wait :: "('s wait_op, 't) timer_lib \<Rightarrow> nat \<Rightarrow> 't cond_var \<Rightarrow> 't cond_var" where
  "async_wait lib h cv = cv\<lparr>cv_timer := tm_wait lib (Plain h) (cv_timer cv)\<rparr>"

definition async_wait_for ::
  "('s wait_op, 't) timer_lib \<Rightarrow> ('s \<Rightarrow> bool) \<Rightarrow> nat \<Rightarrow> 't cond_var \<Rightarrow> 't cond_var" where
  "async_wait_for lib pred h cv = cv\<lparr>cv_timer := tm_wait lib (Guarded h pred) (cv_timer cv)\<rparr>"

definition notify_one :: "('s wait_op, 't) timer_lib \<Rightarrow> 't cond_var \<Rightarrow> 't cond_var" where
  "notify_one lib cv = cv\<lparr>cv_timer := tm_cancel_one lib (cv_timer cv)\<rparr>"

definition notify_all :: "('s wait_op, 't) timer_lib \<Rightarrow> 't cond_var \<Rightarrow> 't cond_var" where
  "notify_all lib cv = cv\<lparr>cv_timer := tm_cancel lib (cv_timer cv)\<rparr>"

text \<open>The two \<open>wait_op::operator()\<close>, in the shared state \<open>s\<close>: the completion, if the operation does not
  wait again.\<close>

definition run_plain ::
  "('s wait_op, 't) timer_lib \<Rightarrow> error_code \<Rightarrow> nat \<Rightarrow> error_code \<Rightarrow> 't cond_var \<Rightarrow>
   't cond_var \<times> (nat \<times> error_code) option" where
  "run_plain lib aborted h ec cv =
     (if ec = aborted then (cv, Some (h, ec))
      else (cv\<lparr>cv_timer := tm_wait lib (Plain h) (cv_timer cv)\<rparr>, None))"

definition run_guarded ::
  "('s wait_op, 't) timer_lib \<Rightarrow> 's \<Rightarrow> nat \<Rightarrow> ('s \<Rightarrow> bool) \<Rightarrow> error_code \<Rightarrow> 't cond_var \<Rightarrow>
   't cond_var \<times> (nat \<times> error_code) option" where
  "run_guarded lib s h pred ec cv =
     (if pred s then (cv, Some (h, ec))
      else (cv\<lparr>cv_timer := tm_wait lib (Guarded h pred) (cv_timer cv)\<rparr>, None))"

definition run_wait_op ::
  "('s wait_op, 't) timer_lib \<Rightarrow> error_code \<Rightarrow> 's \<Rightarrow> 's wait_op \<Rightarrow> error_code \<Rightarrow> 't cond_var \<Rightarrow>
   't cond_var \<times> (nat \<times> error_code) option" where
  "run_wait_op lib aborted s w ec cv =
     (case w of Plain h \<Rightarrow> run_plain lib aborted h ec cv | Guarded h pred \<Rightarrow> run_guarded lib s h pred ec cv)"

text \<open>The next \<open>n\<close> queued handlers run in the state \<open>s\<close>, in the order they were queued.\<close>

primrec run_due ::
  "('s wait_op, 't) timer_lib \<Rightarrow> error_code \<Rightarrow> 's \<Rightarrow> nat \<Rightarrow> 't cond_var \<Rightarrow> 't cond_var \<times> (nat \<times> error_code) list" where
  "run_due lib aborted s 0 cv = (cv, [])"
| "run_due lib aborted s (Suc n) cv =
     (case tm_due lib (cv_timer cv) of
        [] \<Rightarrow> (cv, [])
      | (w, ec) # ds \<Rightarrow>
          (case run_wait_op lib aborted s w ec (cv\<lparr>cv_timer := tm_start lib 0 (cv_timer cv)\<rparr>) of (cv1, r) \<Rightarrow>
             (case run_due lib aborted s n cv1 of (cv2, rs) \<Rightarrow> (cv2, (case r of None \<Rightarrow> [] | Some c \<Rightarrow> [c]) @ rs))))"

definition may_go :: "'s \<Rightarrow> 's wait_op \<Rightarrow> bool" where
  "may_go s w \<longleftrightarrow> (case w of Plain h \<Rightarrow> True | Guarded h pred \<Rightarrow> pred s)"

lemma run_wait_op_aborted:
  "run_wait_op lib aborted s w aborted cv =
     (if may_go s w then (cv, Some (op_handler w, aborted)) else (cv\<lparr>cv_timer := tm_wait lib w (cv_timer cv)\<rparr>, None))"
  by (simp add: run_wait_op_def run_plain_def run_guarded_def may_go_def split: wait_op.split)

lemma run_due_aborted:
  assumes "timer_laws aborted lib"
  shows "tm_due lib (cv_timer cv) = map (\<lambda>w. (w, aborted)) ws \<Longrightarrow>
    \<exists>cv'. run_due lib aborted s (length ws) cv = (cv', map (\<lambda>w. (op_handler w, aborted)) (filter (may_go s) ws))
      \<and> tm_due lib (cv_timer cv') = []
      \<and> tm_pending lib (cv_timer cv') = tm_pending lib (cv_timer cv) @ filter (\<lambda>w. \<not> may_go s w) ws"
proof (induction ws arbitrary: cv)
  case (Cons w ws)
  let ?cv = "cv\<lparr>cv_timer := tm_start lib 0 (cv_timer cv)\<rparr>"
  have t: "tm_pending lib (cv_timer ?cv) = tm_pending lib (cv_timer cv)"
    "tm_due lib (cv_timer ?cv) = map (\<lambda>w. (w, aborted)) ws"
    using Cons.prems by (simp_all add: timer_lawsD(7,8) [OF assms] without_def)
  show ?case
  proof (cases "may_go s w")
    case True
    with Cons.IH [OF t(2)] t(1) Cons.prems show ?thesis by (auto simp: run_wait_op_aborted)
  next
    case False
    let ?cv1 = "?cv\<lparr>cv_timer := tm_wait lib w (cv_timer ?cv)\<rparr>"
    have "tm_due lib (cv_timer ?cv1) = map (\<lambda>w. (w, aborted)) ws"
      "tm_pending lib (cv_timer ?cv1) = tm_pending lib (cv_timer cv) @ [w]"
      using t by (simp_all add: timer_lawsD(1,2) [OF assms])
    with Cons.IH [of ?cv1] False Cons.prems show ?thesis by (auto simp: run_wait_op_aborted)
  qed
qed simp

text \<open>\<open>notify_all\<close> resumes every waiter once: the ones without a predicate and the ones whose predicate
  holds complete, in the order in which they began to wait and with the code of a cancelled operation,
  the others wait again and miss nothing else; \<open>notify_one\<close> does the same for the oldest waiter.\<close>

theorem notify_wakes:
  assumes "timer_laws aborted lib" and "tm_due lib (cv_timer cv) = []" and "tm_pending lib (cv_timer cv) = ws"
  shows "(\<exists>cv'. run_due lib aborted s (length ws) (notify_all lib cv)
        = (cv', map (\<lambda>w. (op_handler w, aborted)) (filter (may_go s) ws))
      \<and> tm_due lib (cv_timer cv') = [] \<and> tm_pending lib (cv_timer cv') = filter (\<lambda>w. \<not> may_go s w) ws)
    \<and> (\<exists>cv'. run_due lib aborted s 1 (notify_one lib cv)
        = (cv', map (\<lambda>w. (op_handler w, aborted)) (filter (may_go s) (take 1 ws)))
      \<and> tm_due lib (cv_timer cv') = []
      \<and> tm_pending lib (cv_timer cv') = tl ws @ filter (\<lambda>w. \<not> may_go s w) (take 1 ws))"
proof (intro conjI)
  note laws = timer_lawsD(3-6) [OF assms(1)]
  have all: "tm_due lib (cv_timer (notify_all lib cv)) = map (\<lambda>w. (w, aborted)) ws"
    "tm_pending lib (cv_timer (notify_all lib cv)) = []"
    and one: "tm_due lib (cv_timer (notify_one lib cv)) = map (\<lambda>w. (w, aborted)) (take 1 ws)"
    "tm_pending lib (cv_timer (notify_one lib cv)) = tl ws"
    using assms(2,3) by (simp_all add: notify_all_def notify_one_def laws)
  show "\<exists>cv'. run_due lib aborted s (length ws) (notify_all lib cv)
        = (cv', map (\<lambda>w. (op_handler w, aborted)) (filter (may_go s) ws))
      \<and> tm_due lib (cv_timer cv') = [] \<and> tm_pending lib (cv_timer cv') = filter (\<lambda>w. \<not> may_go s w) ws"
    using run_due_aborted [OF assms(1) all(1)] all(2) by simp
  have more: "run_due lib aborted s 1 (notify_one lib cv) = run_due lib aborted s (length (take 1 ws)) (notify_one lib cv)"
    using one(1) by (cases ws) simp_all
  show "\<exists>cv'. run_due lib aborted s 1 (notify_one lib cv)
        = (cv', map (\<lambda>w. (op_handler w, aborted)) (filter (may_go s) (take 1 ws)))
      \<and> tm_due lib (cv_timer cv') = []
      \<and> tm_pending lib (cv_timer cv') = tl ws @ filter (\<lambda>w. \<not> may_go s w) (take 1 ws)"
    unfolding more using run_due_aborted [OF assms(1) one(1)] one(2) by simp
qed

text \<open>A waiter whose predicate holds from the start still waits for a notification.\<close>

theorem notify_wakes_witness:
  defines "aborted \<equiv> \<lparr>ec_value = 125, ec_category = ''system''\<rparr>"
  defines "lib \<equiv> list_timer aborted"
  defines "cv \<equiv> async_wait_for lib (\<lambda>n. n > 5) 2 (async_wait_for lib (\<lambda>n. n > (0::nat)) 1 (async_wait lib 0 (cv_of_executor ([], []))))"
  shows "\<exists>cv'. run_due lib aborted 3 3 (notify_all lib cv) = (cv', [(0, aborted), (1, aborted)])
    \<and> map op_handler (tm_pending lib (cv_timer cv')) = [2]"
proof -
  have ps: "tm_due lib (cv_timer cv) = []"
    "tm_pending lib (cv_timer cv) = [Plain 0, Guarded 1 (\<lambda>n. n > 0), Guarded 2 (\<lambda>n. n > 5)]"
    by (simp_all add: cv_def lib_def list_timer_def async_wait_def async_wait_for_def cv_of_executor_def)
  have "timer_laws aborted lib" by (simp add: lib_def list_timer_laws)
  from notify_wakes [OF this ps, of "3::nat"] obtain cv' where
    "run_due lib aborted 3 3 (notify_all lib cv) = (cv', [(0, aborted), (1, aborted)])"
    "tm_pending lib (cv_timer cv') = [Guarded 2 (\<lambda>n. n > 5)]"
    by (auto simp: may_go_def numeral_3_eq_3 simp del: run_due.simps)
  then show ?thesis by auto
qed

section \<open>The asynchronous queue\<close>

text \<open>\<open>steady_timer::time_point::max()\<close> is set by every constructor, so the timer of a queue never expires.\<close>

record ('v, 't) async_queue =
  queue_timer :: 't
  items :: "'v list"

definition new_queue :: "'t \<Rightarrow> ('v, 't) async_queue" where
  "new_queue t = \<lparr>queue_timer = t, items = []\<rparr>"

definition not_enough_memory :: error_code where
  "not_enough_memory = \<lparr>ec_value = 12, ec_category = ''generic''\<rparr>"

datatype thrown = System_error error_code | Other_exception

primrec thrown_code :: "thrown \<Rightarrow> error_code" where
  "thrown_code (System_error ec) = ec"
| "thrown_code Other_exception = not_enough_memory"

text \<open>Whether \<open>std::queue::push\<close> or \<open>cancel_one\<close> throws.\<close>

datatype fate = Goes_well | Push_throws thrown | Cancel_throws thrown

definition async_push ::
  "(nat, 't) timer_lib \<Rightarrow> fate \<Rightarrow> 'v \<Rightarrow> ('v, 't) async_queue \<Rightarrow> ('v, 't) async_queue \<times> error_code" where
  "async_push lib fate v q =
     (case fate of
        Push_throws e \<Rightarrow> (q, thrown_code e)
      | Cancel_throws e \<Rightarrow> (q\<lparr>items := items q @ [v]\<rparr>, thrown_code e)
      | Goes_well \<Rightarrow> (q\<lparr>items := items q @ [v], queue_timer := tm_cancel_one lib (queue_timer q)\<rparr>, no_error))"

definition async_emplace ::
  "(nat, 't) timer_lib \<Rightarrow> fate \<Rightarrow> ('a \<Rightarrow> 'v) \<Rightarrow> 'a \<Rightarrow> ('v, 't) async_queue \<Rightarrow> ('v, 't) async_queue \<times> error_code" where
  "async_emplace lib fate construct args q = async_push lib fate (construct args) q"

definition async_poll :: "(nat, 't) timer_lib \<Rightarrow> nat \<Rightarrow> ('v, 't) async_queue \<Rightarrow> ('v, 't) async_queue" where
  "async_poll lib h q = q\<lparr>queue_timer := tm_wait lib h (queue_timer q)\<rparr>"

definition poll_wait_op ::
  "(nat, 't) timer_lib \<Rightarrow> error_code \<Rightarrow> nat \<Rightarrow> error_code \<Rightarrow> ('v, 't) async_queue \<Rightarrow>
   ('v, 't) async_queue \<times> (error_code \<times> 'v) option" where
  "poll_wait_op lib aborted h ec q =
     (if ec \<noteq> aborted then (async_poll lib h q, None)
      else case items q of
        [] \<Rightarrow> (async_poll lib h q, None)
      | v # vs \<Rightarrow> (q\<lparr>items := vs\<rparr>, Some (ec, v)))"

text \<open>A queue in use: who polled, the values that were put in, the completions of polls, and how many
  values were put in without a poll being woken.\<close>

record ('v, 't) queue_world =
  the_queue :: "('v, 't) async_queue"
  polled :: "nat list"
  accepted :: "'v list"
  delivered :: "(nat \<times> error_code \<times> 'v) list"
  missed :: nat

definition new_world :: "'t \<Rightarrow> ('v, 't) queue_world" where
  "new_world t = \<lparr>the_queue = new_queue t, polled = [], accepted = [], delivered = [], missed = 0\<rparr>"

definition do_push :: "(nat, 't) timer_lib \<Rightarrow> fate \<Rightarrow> 'v \<Rightarrow> ('v, 't) queue_world \<Rightarrow> ('v, 't) queue_world" where
  "do_push lib fate v w =
     (let (q, ec) = async_push lib fate v (the_queue w)
      in case fate of
           Push_throws e \<Rightarrow> w\<lparr>the_queue := q\<rparr>
         | Cancel_throws e \<Rightarrow> w\<lparr>the_queue := q, accepted := accepted w @ [v], missed := missed w + 1\<rparr>
         | Goes_well \<Rightarrow> w\<lparr>the_queue := q, accepted := accepted w @ [v],
             missed := missed w + (if tm_pending lib (queue_timer (the_queue w)) = [] then 1 else 0)\<rparr>)"

definition do_poll :: "(nat, 't) timer_lib \<Rightarrow> nat \<Rightarrow> ('v, 't) queue_world \<Rightarrow> ('v, 't) queue_world" where
  "do_poll lib h w = w\<lparr>the_queue := async_poll lib h (the_queue w), polled := polled w @ [h]\<rparr>"

definition do_resume ::
  "(nat, 't) timer_lib \<Rightarrow> error_code \<Rightarrow> nat \<Rightarrow> ('v, 't) queue_world \<Rightarrow> ('v, 't) queue_world" where
  "do_resume lib aborted i w =
     (let t = queue_timer (the_queue w); (h, ec) = tm_due lib t ! i;
          (q, r) = poll_wait_op lib aborted h ec ((the_queue w)\<lparr>queue_timer := tm_start lib i t\<rparr>)
      in w\<lparr>the_queue := q, delivered := delivered w @ (case r of None \<Rightarrow> [] | Some (ec', v) \<Rightarrow> [(h, ec', v)])\<rparr>)"

inductive queue_step :: "(nat, 't) timer_lib \<Rightarrow> error_code \<Rightarrow> ('v, 't) queue_world \<Rightarrow> ('v, 't) queue_world \<Rightarrow> bool"
  for lib aborted where
  push: "queue_step lib aborted w (do_push lib fate v w)"
| poll: "queue_step lib aborted w (do_poll lib h w)"
| resume: "i < length (tm_due lib (queue_timer (the_queue w))) \<Longrightarrow> queue_step lib aborted w (do_resume lib aborted i w)"

inductive quiet_step :: "(nat, 't) timer_lib \<Rightarrow> error_code \<Rightarrow> ('v, 't) queue_world \<Rightarrow> ('v, 't) queue_world \<Rightarrow> bool"
  for lib aborted where
  poll: "quiet_step lib aborted w (do_poll lib h w)"
| resume: "i < length (tm_due lib (queue_timer (the_queue w))) \<Longrightarrow> quiet_step lib aborted w (do_resume lib aborted i w)"

inductive_cases queue_stepE: "queue_step lib aborted w w'"
inductive_cases quiet_stepE: "quiet_step lib aborted w w'"

definition pending_polls :: "(nat, 't) timer_lib \<Rightarrow> ('v, 't) queue_world \<Rightarrow> nat list" where
  "pending_polls lib w = tm_pending lib (queue_timer (the_queue w))"

definition due_polls :: "(nat, 't) timer_lib \<Rightarrow> ('v, 't) queue_world \<Rightarrow> (nat \<times> error_code) list" where
  "due_polls lib w = tm_due lib (queue_timer (the_queue w))"

definition values_of :: "(nat \<times> error_code \<times> 'v) list \<Rightarrow> 'v list" where
  "values_of ds = map (\<lambda>(h, ec, v). v) ds"

text \<open>Values leave in the order they came; every poll is waiting, queued or completed, and completed
  with the code of a cancelled operation; what is in the queue has a handler queued for it or was missed.\<close>

definition world_ok :: "(nat, 't) timer_lib \<Rightarrow> error_code \<Rightarrow> ('v, 't) queue_world \<Rightarrow> bool" where
  "world_ok lib aborted w \<longleftrightarrow>
     accepted w = values_of (delivered w) @ items (the_queue w)
   \<and> mset (polled w) = mset (pending_polls lib w) + mset (map fst (due_polls lib w)) + mset (map fst (delivered w))
   \<and> (\<forall>(h, ec) \<in> set (due_polls lib w). ec = aborted) \<and> (\<forall>(h, ec, v) \<in> set (delivered w). ec = aborted)
   \<and> length (items (the_queue w)) = length (due_polls lib w) + missed w"

lemmas queue_defs = do_push_def do_poll_def async_push_def async_poll_def pending_polls_def due_polls_def

lemma world_ok_push:
  assumes "timer_laws aborted lib" and "world_ok lib aborted w"
  shows "world_ok lib aborted (do_push lib fate v w)"
proof (cases fate)
  case Goes_well
  then show ?thesis using assms(2)
    by (cases "tm_pending lib (queue_timer (the_queue w))")
      (auto simp: world_ok_def queue_defs Let_def timer_lawsD(3,4) [OF assms(1)])
qed (use assms(2) in \<open>auto simp: world_ok_def queue_defs Let_def\<close>)

lemma world_ok_poll:
  assumes "timer_laws aborted lib" and "world_ok lib aborted w"
  shows "world_ok lib aborted (do_poll lib h w)"
  using assms(2) by (auto simp: world_ok_def queue_defs timer_lawsD(1,2) [OF assms(1)])

lemma resume_delivers:
  assumes "timer_laws aborted lib" and "world_ok lib aborted w" and "i < length (due_polls lib w)"
  obtains h v vs where "due_polls lib w ! i = (h, aborted)" and "items (the_queue w) = v # vs"
    and "do_resume lib aborted i w = w\<lparr>the_queue := \<lparr>queue_timer = tm_start lib i (queue_timer (the_queue w)), items = vs\<rparr>,
      delivered := delivered w @ [(h, aborted, v)]\<rparr>"
proof -
  obtain h where h: "due_polls lib w ! i = (h, aborted)"
    using assms(2) nth_mem [OF assms(3)] by (cases "due_polls lib w ! i") (auto simp: world_ok_def)
  moreover obtain v vs where "items (the_queue w) = v # vs"
    using assms(2,3) by (cases "items (the_queue w)") (auto simp: world_ok_def)
  ultimately show thesis
    using that [of h v vs] by (cases "the_queue w") (simp add: do_resume_def poll_wait_op_def due_polls_def)
qed

lemma world_ok_resume:
  assumes "timer_laws aborted lib" and "world_ok lib aborted w" and "i < length (due_polls lib w)"
  shows "world_ok lib aborted (do_resume lib aborted i w)"
proof -
  from assms obtain h v vs where r: "due_polls lib w ! i = (h, aborted)" "items (the_queue w) = v # vs"
    "do_resume lib aborted i w = w\<lparr>the_queue := \<lparr>queue_timer = tm_start lib i (queue_timer (the_queue w)), items = vs\<rparr>,
      delivered := delivered w @ [(h, aborted, v)]\<rparr>" by (rule resume_delivers)
  let ?w = "do_resume lib aborted i w"
  have i: "i < length (tm_due lib (queue_timer (the_queue w)))" using assms(3) by (simp add: due_polls_def)
  have t: "due_polls lib ?w = without i (due_polls lib w)" "pending_polls lib ?w = pending_polls lib w"
    using timer_lawsD(7,8) [OF assms(1) i] by (simp_all add: r(3) due_polls_def pending_polls_def)
  have m: "mset (map fst (due_polls lib w)) = add_mset h (mset (map fst (without i (due_polls lib w))))"
    using mset_without [OF assms(3)] by (simp add: r(1))
  show ?thesis
    using assms(2,3) m set_without [of i "due_polls lib w"]
    unfolding world_ok_def t by (auto simp: r values_of_def)
qed

lemma world_ok_step:
  assumes "timer_laws aborted lib" and "world_ok lib aborted w" and "queue_step lib aborted w w'"
  shows "world_ok lib aborted w'"
  using assms(3)
  by (cases rule: queue_step.cases)
    (use world_ok_push world_ok_poll world_ok_resume assms(1,2) in \<open>auto simp: due_polls_def\<close>)

lemma world_ok_reachable:
  assumes "timer_laws aborted lib" and "tm_pending lib t = []" and "tm_due lib t = []"
    and "(queue_step lib aborted)\<^sup>*\<^sup>* (new_world t) w"
  shows "world_ok lib aborted w"
  using assms(4)
proof (induction rule: rtranclp_induct)
  case base
  show ?case using assms(2,3)
    by (simp add: world_ok_def new_world_def new_queue_def due_polls_def pending_polls_def values_of_def)
qed (rule world_ok_step [OF assms(1)])

lemma quiet_keeps:
  assumes "timer_laws aborted lib" and "world_ok lib aborted w" and "quiet_step lib aborted w w'"
  shows "world_ok lib aborted w' \<and> accepted w' = accepted w \<and> missed w' = missed w"
proof -
  have "world_ok lib aborted w'"
    using assms(3) world_ok_poll [OF assms(1,2)] world_ok_resume [OF assms(1,2)]
    by (cases rule: quiet_step.cases) (auto simp: due_polls_def)
  moreover have "accepted w' = accepted w \<and> missed w' = missed w"
    using assms(3) by (cases rule: quiet_step.cases) (auto simp: do_poll_def do_resume_def split_beta Let_def)
  ultimately show ?thesis by blast
qed

lemma quiet_steps_keep:
  assumes "timer_laws aborted lib" and "(quiet_step lib aborted)\<^sup>*\<^sup>* w w'" and "world_ok lib aborted w"
  shows "world_ok lib aborted w' \<and> accepted w' = accepted w \<and> missed w' = missed w"
  using assms(2)
proof (induction rule: rtranclp_induct)
  case base
  show ?case using assms(3) by simp
next
  case (step y z)
  then show ?case using quiet_keeps [OF assms(1)] by metis
qed

lemma drain:
  assumes "timer_laws aborted lib"
  shows "world_ok lib aborted w \<Longrightarrow> length (due_polls lib w) = n \<Longrightarrow>
    \<exists>w'. (quiet_step lib aborted)\<^sup>*\<^sup>* w w' \<and> due_polls lib w' = []"
proof (induction n arbitrary: w)
  case (Suc n)
  let ?w = "do_resume lib aborted 0 w"
  have 0: "0 < length (due_polls lib w)" using Suc.prems by simp
  then have step: "quiet_step lib aborted w ?w" by (intro quiet_step.resume) (simp add: due_polls_def)
  have "length (due_polls lib ?w) = n"
  proof -
    from assms Suc.prems(1) 0 obtain h v vs where
      "do_resume lib aborted 0 w = w\<lparr>the_queue := \<lparr>queue_timer = tm_start lib 0 (queue_timer (the_queue w)), items = vs\<rparr>,
        delivered := delivered w @ [(h, aborted, v)]\<rparr>" by (rule resume_delivers)
    then show ?thesis using Suc.prems(2) timer_lawsD(8) [OF assms] 0 by (simp add: due_polls_def)
  qed
  moreover have "world_ok lib aborted ?w" using quiet_keeps [OF assms Suc.prems(1) step] by blast
  ultimately show ?case using Suc.IH [of ?w] step by (meson converse_rtranclp_into_rtranclp)
qed auto

text \<open>C35: the queue is first in first out and loses no poll: the values of the completed polls followed by
  the contents are the values that were put in; every poll waits, has its handler queued, or has completed
  once; every completion carries the error of a cancelled operation, also when it has a value; and the
  contents are exactly the values a queued handler will take and the values no poll was woken for.\<close>

theorem async_queue_accounting:
  assumes "timer_laws aborted lib" and "tm_pending lib t = []" and "tm_due lib t = []"
    and "(queue_step lib aborted)\<^sup>*\<^sup>* (new_world t) w"
  shows "accepted w = values_of (delivered w) @ items (the_queue w)
    \<and> mset (polled w) = mset (pending_polls lib w) + mset (map fst (due_polls lib w)) + mset (map fst (delivered w))
    \<and> (\<forall>(h, ec, v) \<in> set (delivered w). ec = aborted)
    \<and> length (items (the_queue w)) = length (due_polls lib w) + missed w"
  using world_ok_reachable [OF assms] unfolding world_ok_def by blast

text \<open>C36: a value that was put in while no poll waited wakes nobody: without another push, the polls that
  are waiting and any that follow can complete with all values but as many as were missed, and with no more.\<close>

theorem missed_values_stay:
  assumes "timer_laws aborted lib" and "tm_pending lib t = []" and "tm_due lib t = []"
    and "(queue_step lib aborted)\<^sup>*\<^sup>* (new_world t) w"
  shows "(\<forall>w'. (quiet_step lib aborted)\<^sup>*\<^sup>* w w' \<longrightarrow> length (delivered w') + missed w \<le> length (accepted w))
    \<and> (\<exists>w'. (quiet_step lib aborted)\<^sup>*\<^sup>* w w' \<and> length (delivered w') + missed w = length (accepted w))"
proof -
  have ok: "world_ok lib aborted w" using assms by (rule world_ok_reachable)
  have len: "length (delivered w') + length (due_polls lib w') + missed w = length (accepted w)"
    if "(quiet_step lib aborted)\<^sup>*\<^sup>* w w'" for w'
    using quiet_steps_keep [OF assms(1) that ok] by (auto simp: world_ok_def values_of_def)
  show ?thesis using drain [OF assms(1) ok refl] len by fastforce
qed

text \<open>A value is put in, then two polls wait and another value is put in: one poll completes, with the first.\<close>

definition operation_aborted :: error_code where
  "operation_aborted = \<lparr>ec_value = 125, ec_category = ''system''\<rparr>"

definition late_polls :: "(nat, nat list \<times> (nat \<times> error_code) list) queue_world" where
  "late_polls = (let lib = list_timer operation_aborted
     in do_push lib Goes_well 8 (do_poll lib 1 (do_poll lib 0 (do_push lib Goes_well 7 (new_world ([], []))))))"

lemma reach_push:
  "(queue_step lib aborted)\<^sup>*\<^sup>* w w' \<Longrightarrow> (queue_step lib aborted)\<^sup>*\<^sup>* w (do_push lib fate v w')"
  by (rule rtranclp.rtrancl_into_rtrancl, assumption, rule queue_step.push)

lemma reach_poll:
  "(queue_step lib aborted)\<^sup>*\<^sup>* w w' \<Longrightarrow> (queue_step lib aborted)\<^sup>*\<^sup>* w (do_poll lib h w')"
  by (rule rtranclp.rtrancl_into_rtrancl, assumption, rule queue_step.poll)

lemma late_polls_reachable:
  "(queue_step (list_timer operation_aborted) operation_aborted)\<^sup>*\<^sup>* (new_world ([], [])) late_polls"
  unfolding late_polls_def Let_def by (intro reach_push reach_poll rtranclp.rtrancl_refl)

lemma late_polls_state:
  "accepted late_polls = [7, 8]" "missed late_polls = 1" "delivered late_polls = []"
  "items (the_queue late_polls) = [7, 8]" "pending_polls (list_timer operation_aborted) late_polls = [1]"
  "due_polls (list_timer operation_aborted) late_polls = [(0, operation_aborted)]"
  by (simp_all add: late_polls_def queue_defs new_world_def new_queue_def list_timer_def Let_def)

lemma empty_list_timer: "tm_pending (list_timer aborted) ([], []) = []" "tm_due (list_timer aborted) ([], []) = []"
  by (simp_all add: list_timer_def)

theorem async_queue_accounting_witness:
  "mset (polled late_polls) = {#0, 1#} \<and> length (items (the_queue late_polls)) = 2"
  using async_queue_accounting [OF list_timer_laws empty_list_timer late_polls_reachable]
  by (simp add: late_polls_state)

theorem missed_values_stay_witness:
  "\<not> (\<exists>w'. (quiet_step (list_timer operation_aborted) operation_aborted)\<^sup>*\<^sup>* late_polls w' \<and> 1 < length (delivered w'))"
  using missed_values_stay [OF list_timer_laws empty_list_timer late_polls_reachable]
  by (fastforce simp: late_polls_state)

section \<open>The blocking queue\<close>

text \<open>The calls of the class by a single thread; \<open>None\<close> is undefined behaviour of the standard library:
  \<open>front\<close> or \<open>pop\<close> of an empty queue, and \<open>wait\<close> with a lock that \<open>std::defer_lock\<close> left unlocked, which
  \<open>poll\<close> comes to when the predicate does not hold.\<close>

type_synonym 'v blocking_queue = "'v list"

definition bq_emplace :: "('a \<Rightarrow> 'v) \<Rightarrow> 'a \<Rightarrow> 'v blocking_queue \<Rightarrow> 'v blocking_queue" where
  "bq_emplace construct args q = q @ [construct args]"

definition bq_push :: "'v \<Rightarrow> 'v blocking_queue \<Rightarrow> 'v blocking_queue" where
  "bq_push v q = q @ [v]"

definition bq_poll :: "'v blocking_queue \<Rightarrow> ('v \<times> 'v blocking_queue) option" where
  "bq_poll q = (case q of [] \<Rightarrow> None | v # vs \<Rightarrow> Some (v, vs))"

definition bq_pop :: "'v blocking_queue \<Rightarrow> 'v blocking_queue option" where
  "bq_pop q = (case q of [] \<Rightarrow> None | v # vs \<Rightarrow> Some vs)"

definition bq_empty :: "'v blocking_queue \<Rightarrow> bool" where
  "bq_empty q \<longleftrightarrow> q = []"

definition bq_size :: "'v blocking_queue \<Rightarrow> 64 word" where
  "bq_size q = of_nat (length q)"

text \<open>Threads that share a queue. \<open>push\<close> and \<open>pop\<close> hold the mutex, so each is one step; \<open>poll\<close> does not hold
  it, and its three accesses of the queue are steps of their own.\<close>

datatype 'v thread =
  Pushing 'v | Popping | Polling | At_front | At_pop 'v | Returned 'v | Finished | Undefined

definition thread_step :: "'v thread \<Rightarrow> 'v blocking_queue \<Rightarrow> 'v thread \<times> 'v blocking_queue" where
  "thread_step th q =
     (case th of
        Pushing v \<Rightarrow> (Finished, bq_push v q)
      | Popping \<Rightarrow> (case bq_pop q of None \<Rightarrow> (Undefined, q) | Some q' \<Rightarrow> (Finished, q'))
      | Polling \<Rightarrow> (if bq_empty q then (Undefined, q) else (At_front, q))
      | At_front \<Rightarrow> (case q of [] \<Rightarrow> (Undefined, q) | v # vs \<Rightarrow> (At_pop v, q))
      | At_pop v \<Rightarrow> (case bq_pop q of None \<Rightarrow> (Undefined, q) | Some q' \<Rightarrow> (Returned v, q'))
      | th' \<Rightarrow> (th', q))"

definition threads_step :: "nat \<Rightarrow> 'v thread list \<times> 'v blocking_queue \<Rightarrow> 'v thread list \<times> 'v blocking_queue" where
  "threads_step i = (\<lambda>(ths, q).
     if i < length ths then (case thread_step (ths ! i) q of (th, q') \<Rightarrow> (ths[i := th], q')) else (ths, q))"

text \<open>The threads run in the order a schedule names them.\<close>

definition run_schedule :: "nat list \<Rightarrow> 'v thread list \<times> 'v blocking_queue \<Rightarrow> 'v thread list \<times> 'v blocking_queue" where
  "run_schedule = fold threads_step"

text \<open>One thread in \<open>poll\<close> on a queue that begins with \<open>v\<close> and \<open>vs\<close>, all others in \<open>push\<close>.\<close>

definition producer :: "'v thread \<Rightarrow> bool" where
  "producer th = (case th of Pushing w \<Rightarrow> True | Finished \<Rightarrow> True | _ \<Rightarrow> False)"

definition served :: "'v \<Rightarrow> 'v list \<Rightarrow> 'v thread \<Rightarrow> 'v blocking_queue \<Rightarrow> bool" where
  "served v vs th q =
     (case th of
        Returned w \<Rightarrow> w = v \<and> take (length vs) q = vs
      | At_pop w \<Rightarrow> w = v \<and> take (length (v # vs)) q = v # vs
      | Polling \<Rightarrow> take (length (v # vs)) q = v # vs
      | At_front \<Rightarrow> take (length (v # vs)) q = v # vs
      | _ \<Rightarrow> False)"

fun one_consumer :: "'v \<Rightarrow> 'v list \<Rightarrow> 'v thread list \<times> 'v blocking_queue \<Rightarrow> bool" where
  "one_consumer v vs (th # ths, q) \<longleftrightarrow> (\<forall>p \<in> set ths. producer p) \<and> served v vs th q"
| "one_consumer v vs ([], q) \<longleftrightarrow> False"

lemma take_append_keeps: "take (length vs) q = vs \<Longrightarrow> take (length vs) (q @ [w]) = vs"
  by (metis append_Nil2 diff_is_0_eq nat_le_linear take_0 take_append take_all_iff length_take min_def)

lemma served_push: "served v vs th q \<Longrightarrow> served v vs th (q @ [w])"
  using take_append_keeps [of vs q w] take_append_keeps [of "v # vs" q w]
  by (cases th) (simp_all add: served_def)

lemma producer_step:
  assumes "producer th"
  shows "producer (fst (thread_step th q)) \<and> (snd (thread_step th q) = q \<or> (\<exists>w. snd (thread_step th q) = q @ [w]))"
  using assms by (cases th) (simp_all add: producer_def thread_step_def bq_push_def)

lemma served_step: "served v vs th q \<Longrightarrow> served v vs (fst (thread_step th q)) (snd (thread_step th q))"
  by (cases th; cases q) (auto simp: served_def thread_step_def bq_empty_def bq_pop_def)

lemma one_consumer_step: "one_consumer v vs st \<Longrightarrow> one_consumer v vs (threads_step i st)"
proof (induction v vs st rule: one_consumer.induct)
  case (1 v vs th ths q)
  show ?case
  proof (cases i)
    case 0
    with 1 show ?thesis using served_step [of v vs th q] by (simp add: threads_step_def split_beta)
  next
    case (Suc j)
    show ?thesis
    proof (cases "j < length ths")
      case True
      then have "producer (ths ! j)" using 1 nth_mem by auto
      from producer_step [OF this, of q] show ?thesis
        using 1 True Suc served_push [of v vs th q] set_update_subset_insert [of ths j "fst (thread_step (ths ! j) q)"]
        by (auto simp: threads_step_def split_beta)
    qed (use 1 Suc in \<open>simp add: threads_step_def\<close>)
  qed
qed simp

lemma one_consumer_run: "one_consumer v vs st \<Longrightarrow> one_consumer v vs (run_schedule sched st)"
  by (induction sched arbitrary: st) (simp_all add: run_schedule_def one_consumer_step)

text \<open>\<open>poll\<close> is safe for one consumer on a queue with a value: under every interleaving with producers it
  never comes to undefined behaviour and what it returns is the first value. On an empty queue it does
  not block but is undefined, and two consumers can both be given the first value while the second one is
  lost, or one of them can pop an empty queue.\<close>

theorem blocking_poll:
  "one_consumer v vs (run_schedule sched (Polling # map Pushing ws, v # vs))
   \<and> run_schedule [0, 0, 0] ([Polling], v # vs) = ([Returned v], vs)
   \<and> run_schedule [0] ([Polling], []) = ([Undefined], ([] :: 'v list))
   \<and> run_schedule [0, 1, 0, 1, 0, 1] ([Polling, Polling], v # w # vs) = ([Returned v, Returned v], vs)
   \<and> run_schedule [0, 1, 0, 0, 1] ([Polling, Polling], [v]) = ([Returned v, Undefined], [])"
proof (intro conjI)
  show "one_consumer v vs (run_schedule sched (Polling # map Pushing ws, v # vs))"
    by (rule one_consumer_run) (auto simp: producer_def served_def)
qed (simp_all add: run_schedule_def threads_step_def thread_step_def bq_empty_def bq_pop_def)

end
