(* ===== verification/Openapi_Views.thy ===== *)
theory Openapi_Views
  imports Openapi
begin

text \<open>
  The views of \<open>generator/src/Frontend/openapi.hpp\<close>, \<open>openapi.cpp\<close>, \<open>openapi3.hpp\<close> and
  \<open>openapi3.cpp\<close> that the generator itself does not read, on the accessors of \<open>Openapi\<close>, and the visitor
  of schemas; then what the accessors of all views return on any document.
\<close>

section \<open>Schemas by type\<close>

definition String_minLength :: "obj \<Rightarrow> 64 word result" where
  "String_minLength ob = get_uint64 ob ''minLength''"
definition String_maxLength :: "obj \<Rightarrow> 64 word result" where
  "String_maxLength ob = get_uint64 ob ''maxLength''"
definition String_pattern :: "obj \<Rightarrow> string result" where "String_pattern ob = get_string ob ''pattern''"
definition Number_maximum :: "obj \<Rightarrow> int result" where "Number_maximum ob = get_int64 ob ''maximum''"
definition Number_exclusiveMaximum :: "obj \<Rightarrow> bool result" where
  "Number_exclusiveMaximum ob = get_bool ob ''exclusiveMaximum''"
definition Number_minimum :: "obj \<Rightarrow> int result" where "Number_minimum ob = get_int64 ob ''minimum''"
definition Number_exclusiveMinimum :: "obj \<Rightarrow> bool result" where
  "Number_exclusiveMinimum ob = get_bool ob ''exclusiveMinimum''"
definition Number_multipleOf :: "obj \<Rightarrow> int result" where
  "Number_multipleOf ob = get_int64 ob ''multipleOf''"
definition Object_minProperties :: "obj \<Rightarrow> 64 word result" where
  "Object_minProperties ob = get_uint64 ob ''minProperties''"
definition Object_maxProperties :: "obj \<Rightarrow> 64 word result" where
  "Object_maxProperties ob = get_uint64 ob ''maxProperties''"
definition Object_required :: "obj \<Rightarrow> bool result" where "Object_required ob = get_bool ob ''required''"
definition Array_minItems :: "obj \<Rightarrow> 64 word result" where "Array_minItems ob = get_uint64 ob ''minItems''"
definition Array_maxItems :: "obj \<Rightarrow> 64 word result" where "Array_maxItems ob = get_uint64 ob ''maxItems''"
definition Array_minContains :: "obj \<Rightarrow> 64 word result" where
  "Array_minContains ob = get_uint64 ob ''minContains''"
definition Array_maxContains :: "obj \<Rightarrow> 64 word result" where
  "Array_maxContains ob = get_uint64 ob ''maxContains''"
definition Array_uniqueItems :: "obj \<Rightarrow> bool result" where
  "Array_uniqueItems ob = get_bool ob ''uniqueItems''"

section \<open>Objects that the versions of the specification share\<close>

definition ExternalDocumentation_description :: "obj \<Rightarrow> string result" where
  "ExternalDocumentation_description ob = get_string ob ''description''"
definition ExternalDocumentation_url :: "obj \<Rightarrow> string result" where
  "ExternalDocumentation_url ob = get_string ob ''url''"
definition Contact_name :: "obj \<Rightarrow> string result" where "Contact_name ob = get_string ob ''name''"
definition Contact_url :: "obj \<Rightarrow> string result" where "Contact_url ob = get_string ob ''url''"
definition Contact_email :: "obj \<Rightarrow> string result" where "Contact_email ob = get_string ob ''email''"
definition License_name :: "obj \<Rightarrow> string result" where "License_name ob = get_string ob ''name''"
definition License_identifier :: "obj \<Rightarrow> string result" where
  "License_identifier ob = get_string ob ''identifier''"
definition License_url :: "obj \<Rightarrow> string result" where "License_url ob = get_string ob ''url''"
definition Info_description :: "obj \<Rightarrow> string result" where
  "Info_description ob = get_string ob ''description''"
definition Info_termsOfService :: "obj \<Rightarrow> string result" where
  "Info_termsOfService ob = get_string ob ''termsOfService''"
definition Info_contact :: "obj \<Rightarrow> obj result" where "Info_contact ob = get_object ob ''contact''"
definition Info_license :: "obj \<Rightarrow> obj result" where "Info_license ob = get_object ob ''license''"
definition Info_version :: "obj \<Rightarrow> string result" where "Info_version ob = get_string ob ''version''"
definition SecuritySchema_description :: "obj \<Rightarrow> string result" where
  "SecuritySchema_description ob = get_string ob ''description''"
definition Tag_name :: "obj \<Rightarrow> string result" where "Tag_name ob = get_string ob ''name''"
definition Tag_description :: "obj \<Rightarrow> string result" where
  "Tag_description ob = get_string ob ''description''"
definition Tag_externalDocs :: "obj \<Rightarrow> obj result" where
  "Tag_externalDocs ob = get_object ob ''externalDocs''"
definition Operation_tags :: "obj \<Rightarrow> json list result" where "Operation_tags ob = get_list ob ''tags''"
definition Operation_externalDocs :: "obj \<Rightarrow> obj result" where
  "Operation_externalDocs ob = get_object ob ''externalDocs''"
definition Operation_deprecated :: "obj \<Rightarrow> bool result" where
  "Operation_deprecated ob = get_bool ob ''deprecated''"

section \<open>Objects of version 3\<close>

definition Example_summary :: "obj \<Rightarrow> string result" where "Example_summary ob = get_string ob ''summary''"
definition Example_description :: "obj \<Rightarrow> string result" where
  "Example_description ob = get_string ob ''description''"
definition Example_value :: "obj \<Rightarrow> string result" where "Example_value ob = get_string ob ''value''"
definition Example_externalValue :: "obj \<Rightarrow> string result" where
  "Example_externalValue ob = get_string ob ''externalValue''"
definition Header_description :: "obj \<Rightarrow> string result" where
  "Header_description ob = get_string ob ''description''"
definition Header_required :: "obj \<Rightarrow> bool result" where "Header_required ob = get_bool ob ''required''"
definition Header_deprecated :: "obj \<Rightarrow> bool result" where
  "Header_deprecated ob = get_bool ob ''deprecated''"
definition Header_allowEmptyValue :: "obj \<Rightarrow> bool result" where
  "Header_allowEmptyValue ob = get_bool ob ''allowEmptyValue''"
definition Encoding_contentType :: "obj \<Rightarrow> string result" where
  "Encoding_contentType ob = get_string ob ''contentType''"
definition Encoding_headers :: "obj \<Rightarrow> members result" where "Encoding_headers ob = get_map ob ''headers''"
definition Encoding_style :: "obj \<Rightarrow> string result" where "Encoding_style ob = get_string ob ''style''"
definition Encoding_explode :: "obj \<Rightarrow> bool result" where "Encoding_explode ob = get_bool ob ''explode''"
definition Encoding_allowReserved :: "obj \<Rightarrow> bool result" where
  "Encoding_allowReserved ob = get_bool ob ''allowReserved''"
definition MediaType_examples :: "obj \<Rightarrow> members result" where
  "MediaType_examples ob = get_map ob ''examples''"
definition MediaType_encoding :: "obj \<Rightarrow> json list result" where
  "MediaType_encoding ob = get_list ob ''encoding''"
definition Parameter_deprecated :: "obj \<Rightarrow> bool result" where
  "Parameter_deprecated ob = get_bool ob ''deprecated''"
definition Parameter_allowEmptyValue :: "obj \<Rightarrow> bool result" where
  "Parameter_allowEmptyValue ob = get_bool ob ''allowEmptyValue''"
definition Parameter_explode :: "obj \<Rightarrow> bool result" where "Parameter_explode ob = get_bool ob ''explode''"
definition Parameter_allowReserved :: "obj \<Rightarrow> bool result" where
  "Parameter_allowReserved ob = get_bool ob ''allowReserved''"
definition Parameter_examples :: "obj \<Rightarrow> members result" where
  "Parameter_examples ob = get_map ob ''examples''"
definition Parameter_content :: "obj \<Rightarrow> members result" where
  "Parameter_content ob = get_map ob ''content''"
definition SecurityScheme_bearerFormat :: "obj \<Rightarrow> string result" where
  "SecurityScheme_bearerFormat ob = get_string ob ''bearerFormat''"
definition SecurityScheme_openIdConnectUrl :: "obj \<Rightarrow> string result" where
  "SecurityScheme_openIdConnectUrl ob = get_string ob ''openIdConnectUrl''"
definition RequestBody_description :: "obj \<Rightarrow> string result" where
  "RequestBody_description ob = get_string ob ''description''"
definition RequestBody_required :: "obj \<Rightarrow> bool result" where
  "RequestBody_required ob = get_bool ob ''required''"
definition Server_description :: "obj \<Rightarrow> string result" where
  "Server_description ob = get_string ob ''description''"
definition Server_url :: "obj \<Rightarrow> string result" where "Server_url ob = get_string ob ''url''"
definition Link_operationRef :: "obj \<Rightarrow> string result" where
  "Link_operationRef ob = get_string ob ''operationRef''"
definition Link_operationId :: "obj \<Rightarrow> string result" where
  "Link_operationId ob = get_string ob ''operationId''"
definition Link_description :: "obj \<Rightarrow> string result" where
  "Link_description ob = get_string ob ''description''"
definition Link_server :: "obj \<Rightarrow> obj result" where "Link_server ob = get_object ob ''server''"
definition Response_description :: "obj \<Rightarrow> string result" where
  "Response_description ob = get_string ob ''description''"
definition Response_headers :: "obj \<Rightarrow> members result" where "Response_headers ob = get_map ob ''headers''"
definition Response_content :: "obj \<Rightarrow> members result" where "Response_content ob = get_map ob ''content''"
definition Response_links :: "obj \<Rightarrow> members result" where "Response_links ob = get_map ob ''links''"
definition Operation_responses :: "obj \<Rightarrow> members result" where
  "Operation_responses ob = get_map ob ''responses''"
definition Operation_servers :: "obj \<Rightarrow> json list result" where
  "Operation_servers ob = get_list ob ''servers''"
definition Path_summary :: "obj \<Rightarrow> string result" where "Path_summary ob = get_string ob ''summary''"
definition Path_description :: "obj \<Rightarrow> string result" where
  "Path_description ob = get_string ob ''description''"
definition Path_servers :: "obj \<Rightarrow> json list result" where "Path_servers ob = get_list ob ''servers''"
definition Components_responses :: "obj \<Rightarrow> members result" where
  "Components_responses ob = get_map ob ''responses''"
definition Components_examples :: "obj \<Rightarrow> members result" where
  "Components_examples ob = get_map ob ''examples''"
definition Components_headers :: "obj \<Rightarrow> members result" where
  "Components_headers ob = get_map ob ''headers''"
definition Components_links :: "obj \<Rightarrow> members result" where "Components_links ob = get_map ob ''links''"
definition Components_callbacks :: "obj \<Rightarrow> members result" where
  "Components_callbacks ob = get_map ob ''callbacks''"
definition spec_servers :: "obj \<Rightarrow> json list result" where "spec_servers ob = get_list ob ''servers''"
definition spec_tags :: "obj \<Rightarrow> json list result" where "spec_tags ob = get_list ob ''tags''"
definition spec_externalDocs :: "obj \<Rightarrow> obj result" where
  "spec_externalDocs ob = get_object ob ''externalDocs''"
section \<open>Tests and iteration\<close>

text \<open>\<open>KeyIsType\<close>: a missing key is of no type.\<close>

definition KeyIsType :: "(json \<Rightarrow> bool) \<Rightarrow> obj \<Rightarrow> string \<Rightarrow> bool result" where
  "KeyIsType is_type ob key = rmap (\<lambda>v. case v of None \<Rightarrow> False | Some j \<Rightarrow> is_type j) (at_key ob key)"

definition schema_IsPrimitive :: "obj \<Rightarrow> bool result" where
  "schema_IsPrimitive ob = rmap IsPrimitive (JsonSchema_Type ob)"

text \<open>The adaptors: an adaptor that is not valid has no contents.\<close>

definition list_empty :: "json list option \<Rightarrow> bool" where
  "list_empty l = (case l of None \<Rightarrow> True | Some vs \<Rightarrow> vs = [])"

definition list_front :: "json list option \<Rightarrow> obj result" where
  "list_front l = (case l of Some (v # vs) \<Rightarrow> list_item v | _ \<Rightarrow> Inl Undefined)"

definition map_empty :: "members option \<Rightarrow> bool" where
  "map_empty m = (case m of None \<Rightarrow> True | Some ms \<Rightarrow> ms = [])"

section \<open>The visitor of schemas\<close>

text \<open>A visitor is given by the classes its call operator has a parameter of, and by whether it also
  takes a \<open>std::string_view\<close>. It is invocable with a class when it takes the class or one it derives from.\<close>

datatype view_class = V_Schema | V_String | V_Number | V_Integer | V_Boolean | V_Array | V_Object

primrec base_class :: "view_class \<Rightarrow> view_class option" where
  "base_class V_Schema = None"
| "base_class V_String = Some V_Schema"
| "base_class V_Number = Some V_Schema"
| "base_class V_Integer = Some V_Number"
| "base_class V_Boolean = Some V_Schema"
| "base_class V_Array = Some V_Schema"
| "base_class V_Object = Some V_Schema"

record visitor =
  takes :: "view_class list"
  takes_ref :: bool

definition invocable :: "visitor \<Rightarrow> view_class \<Rightarrow> bool" where
  "invocable v c =
     (c \<in> set (takes v) \<or>
      (case base_class c of None \<Rightarrow> False | Some b \<Rightarrow> b \<in> set (takes v) \<or>
         (case base_class b of None \<Rightarrow> False | Some b' \<Rightarrow> b' \<in> set (takes v))))"

datatype visit_call = Call_view view_class obj | Call_ref string

definition Visit :: "visitor \<Rightarrow> obj \<Rightarrow> (visit_call option \<times> SchemaKind) result" where
  "Visit v ob =
     rbind (JsonSchema_Type ob) (\<lambda>type.
       if invocable v V_String \<and> type = T_string then Inr (Some (Call_view V_String ob), T_string)
       else if invocable v V_Number \<and> type = T_number then Inr (Some (Call_view V_Number ob), T_number)
       else if invocable v V_Integer \<and> type = T_integer then Inr (Some (Call_view V_Integer ob), T_integer)
       else if invocable v V_Boolean \<and> type = T_boolean then Inr (Some (Call_view V_Boolean ob), T_boolean)
       else if invocable v V_Array \<and> type = T_array then Inr (Some (Call_view V_Array ob), T_array)
       else if invocable v V_Object \<and> type = T_object then Inr (Some (Call_view V_Object ob), T_object)
       else rbind (if takes_ref v then IsRef ob else Inr False) (\<lambda>isref.
         if isref then rmap (\<lambda>r. (Some (Call_ref r), T_unknown)) (ref ob)
         else if invocable v V_Schema \<and> type = T_unknown then Inr (Some (Call_view V_Schema ob), T_unknown)
         else Inr (None, T_unknown)))"

section \<open>What the views return\<close>

definition document_string :: "members \<Rightarrow> string \<Rightarrow> string" where
  "document_string m key = (case map_of m key of Some (J_String s) \<Rightarrow> s | _ \<Rightarrow> [])"

lemma ref_Some [simp]: "ref (Some m) = Inr (document_string m ''$ref'')"
  by (simp add: ref_def get_string_def document_string_def)

lemma IsRef_Some [simp]: "IsRef (Some m) = Inr (document_string m ''$ref'' \<noteq> [])"
  by (simp add: IsRef_def)

text \<open>A view of an object answers for every key: strings, Booleans and numbers are read when the member
  has that type and are the default value otherwise; an object, list or map is empty when the member is
  missing, and a member of another type ends the program.\<close>

theorem view_outcomes:
  "(\<exists>s. get_string (Some m) k = Inr s \<and> (s \<noteq> [] \<longleftrightarrow> (\<exists>c cs. map_of m k = Some (J_String (c # cs)) \<and> s = c # cs)))
   \<and> (\<exists>b. get_bool (Some m) k = Inr b \<and> (b \<longleftrightarrow> map_of m k = Some (J_Bool True)))
   \<and> (\<exists>w. get_uint64 (Some m) k = Inr w \<and> (w \<noteq> 0 \<longleftrightarrow> map_of m k = Some (J_Int (uint w)) \<and> uint w \<noteq> 0))
   \<and> (\<exists>i. get_int64 (Some m) k = Inr i \<and> - (2 ^ 63) \<le> i \<and> i < 2 ^ 63 \<and> (i \<noteq> 0 \<longleftrightarrow> map_of m k = Some (J_Int i) \<and> i \<noteq> 0))
   \<and> (get_object (Some m) k = Inl Terminate \<longleftrightarrow> (\<exists>v. map_of m k = Some v \<and> map_item v = None))
   \<and> (get_map (Some m) k = Inl Terminate \<longleftrightarrow> (\<exists>v. map_of m k = Some v \<and> map_item v = None))
   \<and> (get_list (Some m) k = Inl Terminate \<longleftrightarrow> (\<exists>v. map_of m k = Some v \<and> (\<nexists>l. v = J_Array l)))
   \<and> get_object (Some m) k \<notin> {Inl Exception, Inl Undefined} \<and> get_map (Some m) k \<notin> {Inl Exception, Inl Undefined}
   \<and> get_list (Some m) k \<notin> {Inl Exception, Inl Undefined}"
proof (intro conjI)
  show "\<exists>s. get_string (Some m) k = Inr s \<and> (s \<noteq> [] \<longleftrightarrow> (\<exists>c cs. map_of m k = Some (J_String (c # cs)) \<and> s = c # cs))"
    by (auto simp: get_string_def neq_Nil_conv split: option.splits json.splits)
  show "\<exists>b. get_bool (Some m) k = Inr b \<and> (b \<longleftrightarrow> map_of m k = Some (J_Bool True))"
    by (auto simp: get_bool_def split: option.splits json.splits)
  show "\<exists>w. get_uint64 (Some m) k = Inr w \<and> (w \<noteq> 0 \<longleftrightarrow> map_of m k = Some (J_Int (uint w)) \<and> uint w \<noteq> 0)"
    by (auto simp: get_uint64_def uint_word_of_int_eq take_bit_int_eq_self word_of_int_eq_0_iff
        unsigned_eq_0_iff split: option.splits json.splits)
  show "\<exists>i. get_int64 (Some m) k = Inr i \<and> - (2 ^ 63) \<le> i \<and> i < 2 ^ 63 \<and> (i \<noteq> 0 \<longleftrightarrow> map_of m k = Some (J_Int i) \<and> i \<noteq> 0)"
    by (auto simp: get_int64_def split: option.splits json.splits)
qed (auto simp: get_object_def get_map_def get_list_def map_item_def split: option.splits json.splits failure.splits)

definition class_of :: "SchemaKind \<Rightarrow> view_class option" where
  "class_of type = (case type of T_string \<Rightarrow> Some V_String | T_number \<Rightarrow> Some V_Number | T_integer \<Rightarrow> Some V_Integer
     | T_boolean \<Rightarrow> Some V_Boolean | T_array \<Rightarrow> Some V_Array | T_object \<Rightarrow> Some V_Object
     | T_unknown \<Rightarrow> None | T_null \<Rightarrow> None)"

lemma invocable_Schema: "V_Schema \<in> set (takes v) \<Longrightarrow> invocable v c"
  by (cases c) (simp_all add: invocable_def)

lemma Visit_Some:
  assumes "JsonSchema_Type (Some m) = Inr type"
  shows "Visit v (Some m) = Inr
     (case class_of type of
        Some c \<Rightarrow> if invocable v c then (Some (Call_view c (Some m)), type)
                   else if takes_ref v \<and> document_string m ''$ref'' \<noteq> [] then (Some (Call_ref (document_string m ''$ref'')), T_unknown)
                   else (None, T_unknown)
      | None \<Rightarrow> if takes_ref v \<and> document_string m ''$ref'' \<noteq> [] then (Some (Call_ref (document_string m ''$ref'')), T_unknown)
                   else if invocable v V_Schema \<and> type = T_unknown then (Some (Call_view V_Schema (Some m)), T_unknown)
                   else (None, T_unknown))"
  using assms by (cases type) (simp_all add: Visit_def class_of_def)

text \<open>A visitor that takes \<open>JsonSchema\<close> is called once for every schema, with the view of its type or, for
  an untyped schema that is a reference, with the reference when it takes one; only a schema of type
  \<open>null\<close> that is no such reference passes it by. What \<open>Visit\<close> returns is the type, and \<open>unknown\<close> for \<open>null\<close>.\<close>

theorem visit_every_schema:
  assumes "JsonSchema_Type (Some m) = Inr type" and "V_Schema \<in> set (takes v)"
  defines "by_ref \<equiv> takes_ref v \<and> document_string m ''$ref'' \<noteq> []"
  shows "\<exists>call. Visit v (Some m) = Inr (call, if type = T_null then T_unknown else type)
    \<and> call = (case class_of type of
        Some c \<Rightarrow> Some (Call_view c (Some m))
      | None \<Rightarrow> if by_ref then Some (Call_ref (document_string m ''$ref''))
                else if type = T_unknown then Some (Call_view V_Schema (Some m)) else None)
    \<and> (call = None \<longleftrightarrow> type = T_null \<and> \<not> by_ref)"
  using assms(2) unfolding Visit_Some [OF assms(1)] by_ref_def
  by (cases type) (auto simp: invocable_Schema class_of_def)

theorem visit_every_schema_witness:
  "Visit \<lparr>takes = [V_Schema], takes_ref = True\<rparr> (Some [(''type'', J_String ''null'')]) = Inr (None, T_unknown)
   \<and> Visit \<lparr>takes = [V_Schema], takes_ref = True\<rparr> (Some [(''$ref'', J_String ''#/a'')]) = Inr (Some (Call_ref ''#/a''), T_unknown)"
  using visit_every_schema [of "[(''type'', J_String ''null'')]" T_null "\<lparr>takes = [V_Schema], takes_ref = True\<rparr>"]
    visit_every_schema [of "[(''$ref'', J_String ''#/a'')]" T_unknown "\<lparr>takes = [V_Schema], takes_ref = True\<rparr>"]
  by (simp add: JsonSchema_Type_def JsonSchema_type_def kind_of_name_def class_of_def document_string_def)

text \<open>The lookup of a reference finds the first component of the name.\<close>

lemma find_component_map_of: "find_component ms name = map_option map_item (map_of ms name)"
  by (induction ms name rule: find_component.induct) auto

end
