(* ===== verification/Python_Runtime.thy ===== *)
theory Python_Runtime
  imports Client_Runtime Openapi
begin

text \<open>
  \<open>include/siesta/beast/python_util.hpp\<close>: the conversion of JSON values to Python objects and the value a
  generated Python method returns for the outcome of a request. Strings go through \<open>nb::str\<close> of a C
  string, which ends at the first NUL and throws when \<open>utf8\<close> does not hold; \<open>what\<close> is the text of the
  exceptions of the Python library. The number of a \<open>J_Int\<close> is the \<open>int64\<close> or \<open>uint64\<close> of the JSON library.
\<close>

datatype py =
    Py_None
  | Py_Bool bool
  | Py_Int int
  | Py_Float rat
  | Py_Str string
  | Py_List "py list"
  | Py_Dict "(string \<times> py) list"

definition c_str :: "string \<Rightarrow> string" where
  "c_str s = takeWhile (\<lambda>c. c \<noteq> CHR 0x00) s"

text \<open>\<open>py_dict[key] = value\<close>, in the order of insertion.\<close>

definition dict_of :: "(string \<times> py) list \<Rightarrow> (string \<times> py) list" where
  "dict_of kvs = foldl (\<lambda>d (k, v). AList.update k v d) [] kvs"

definition conversion_error :: "string \<Rightarrow> py" where
  "conversion_error what = Py_Str (''<json conversion error: '' @ what @ ''>'')"

fun json_to_python :: "(string \<Rightarrow> bool) \<Rightarrow> string \<Rightarrow> json \<Rightarrow> py"
  and values_to_python :: "(string \<Rightarrow> bool) \<Rightarrow> string \<Rightarrow> json list \<Rightarrow> py list"
  and members_to_python :: "(string \<Rightarrow> bool) \<Rightarrow> string \<Rightarrow> (string \<times> json) list \<Rightarrow> (string \<times> py) list" where
  "json_to_python utf8 what J_Null = Py_None"
| "json_to_python utf8 what (J_Bool b) = Py_Bool b"
| "json_to_python utf8 what (J_Int i) = Py_Int i"
| "json_to_python utf8 what (J_Double d) = Py_Float d"
| "json_to_python utf8 what (J_String s) = (if utf8 (c_str s) then Py_Str (c_str s) else conversion_error what)"
| "json_to_python utf8 what (J_Array l) = Py_List (values_to_python utf8 what l)"
| "json_to_python utf8 what (J_Object ms) =
     (if list_all (\<lambda>(k, v). utf8 (c_str k)) ms then Py_Dict (dict_of (members_to_python utf8 what ms))
      else conversion_error what)"
| "values_to_python utf8 what [] = []"
| "values_to_python utf8 what (v # vs) = json_to_python utf8 what v # values_to_python utf8 what vs"
| "members_to_python utf8 what [] = []"
| "members_to_python utf8 what ((k, v) # ms) = (c_str k, json_to_python utf8 what v) # members_to_python utf8 what ms"

section \<open>Outcomes\<close>

text \<open>\<open>message\<close> is \<open>error_code::message\<close>, \<open>parse\<close> the JSON parser (\<open>None\<close> for an error). A message that
  is no UTF-8 lets the exception of \<open>nb::str\<close> leave the function. A body that is none lets the handler
  build the dictionary of the exception.\<close>

definition extract_response_json ::
  "(string \<Rightarrow> bool) \<Rightarrow> string \<Rightarrow> (error_code \<Rightarrow> string) \<Rightarrow> (string \<Rightarrow> json option) \<Rightarrow> outcome \<Rightarrow> py result" where
  "extract_response_json utf8 what message parse outcome =
     (case outcome of
        Outcome_error ec \<Rightarrow>
          if utf8 (c_str (message ec))
          then Inr (Py_Dict [(''error'', Py_Str (c_str (message ec))), (''transient'', Py_Bool (is_transient ec))])
          else Inl Exception
      | Outcome_value resp \<Rightarrow>
          if resp_body resp = [] then Inr (Py_Dict [])
          else (case parse (resp_body resp) of
              None \<Rightarrow> if utf8 (c_str (resp_body resp)) then Inr (Py_Str (c_str (resp_body resp)))
                        else Inr (Py_Dict [(''error'', Py_Str what)])
            | Some jv \<Rightarrow> Inr (json_to_python utf8 what jv)))"

section \<open>Reading the objects back\<close>

fun python_to_json :: "py \<Rightarrow> json" where
  "python_to_json Py_None = J_Null"
| "python_to_json (Py_Bool b) = J_Bool b"
| "python_to_json (Py_Int i) = J_Int i"
| "python_to_json (Py_Float d) = J_Double d"
| "python_to_json (Py_Str s) = J_String s"
| "python_to_json (Py_List l) = J_Array (map python_to_json l)"
| "python_to_json (Py_Dict kvs) = J_Object (map (\<lambda>(k, v). (k, python_to_json v)) kvs)"

text \<open>A text that \<open>nb::str\<close> takes as it is, and a document of such texts without duplicate keys.\<close>

definition plain_text :: "(string \<Rightarrow> bool) \<Rightarrow> string \<Rightarrow> bool" where
  "plain_text utf8 s \<longleftrightarrow> CHR 0x00 \<notin> set s \<and> utf8 s"

fun plain_json :: "(string \<Rightarrow> bool) \<Rightarrow> json \<Rightarrow> bool" where
  "plain_json utf8 (J_String s) \<longleftrightarrow> plain_text utf8 s"
| "plain_json utf8 (J_Array l) \<longleftrightarrow> (\<forall>v \<in> set l. plain_json utf8 v)"
| "plain_json utf8 (J_Object ms) \<longleftrightarrow>
     distinct (map fst ms) \<and> (\<forall>(k, v) \<in> set ms. plain_text utf8 k \<and> plain_json utf8 v)"
| "plain_json utf8 _ \<longleftrightarrow> True"

lemma c_str_no_nul: "CHR 0x00 \<notin> set s \<Longrightarrow> c_str s = s"
  unfolding c_str_def by (induction s) auto

lemma c_str_plain: "plain_text utf8 s \<Longrightarrow> c_str s = s \<and> utf8 (c_str s)"
  by (simp add: plain_text_def c_str_no_nul)

lemma dict_of_append: "dict_of (kvs @ [(k, v)]) = AList.update k v (dict_of kvs)"
  by (simp add: dict_of_def)

lemma update_new: "k \<notin> fst ` set d \<Longrightarrow> AList.update k v d = d @ [(k, v)]"
  by (induction d) auto

lemma dict_of_distinct: "distinct (map fst kvs) \<Longrightarrow> dict_of kvs = kvs"
proof (induction kvs rule: rev_induct)
  case (snoc kv kvs)
  then show ?case by (cases kv) (simp add: dict_of_append update_new)
qed (simp add: dict_of_def)

lemma python_inverse:
  "plain_json utf8 j \<Longrightarrow> python_to_json (json_to_python utf8 what j) = j"
  "\<forall>v \<in> set vs. plain_json utf8 v \<Longrightarrow> map python_to_json (values_to_python utf8 what vs) = vs"
  "\<forall>(k, v) \<in> set ms. plain_text utf8 k \<and> plain_json utf8 v \<Longrightarrow>
     map fst (members_to_python utf8 what ms) = map fst ms
     \<and> map (\<lambda>(k, v). (k, python_to_json v)) (members_to_python utf8 what ms) = ms"
proof (induction utf8 what j and utf8 what vs and utf8 what ms
    rule: json_to_python_values_to_python_members_to_python.induct)
  case (7 utf8 what ms)
  then have "list_all (\<lambda>(k, v). utf8 (c_str k)) ms"
    by (auto simp: list_all_iff dest!: bspec [of "set ms"] dest: c_str_plain)
  with 7 show ?case by (simp add: dict_of_distinct)
qed (auto simp: plain_text_def c_str_no_nul)

text \<open>C39: nothing of a document is lost on the way to Python when its strings and keys are UTF-8 without
  NUL characters and no object repeats a key: the document can be read back from the objects.\<close>

theorem python_roundtrip:
  assumes "plain_json utf8 j"
  shows "python_to_json (json_to_python utf8 what j) = j"
  using assms by (rule python_inverse(1))

theorem python_roundtrip_witness:
  "python_to_json (json_to_python (\<lambda>s. True) [] (J_Object [(''a'', J_Array [J_Int 1, J_Null])])) = J_Object [(''a'', J_Array [J_Int 1, J_Null])]"
  by (rule python_roundtrip) (simp add: plain_text_def)

text \<open>Strings end at a NUL, and so do keys, which may then coincide.\<close>

lemma python_cuts:
  "json_to_python utf8 what (J_Object [(''a'' @ [CHR 0x00] @ s, J_Int 1), (''a'' @ [CHR 0x00] @ t, J_Int 2)])
    = (if utf8 ''a'' then Py_Dict [(''a'', Py_Int 2)] else conversion_error what)"
  by (simp add: c_str_def dict_of_def)

text \<open>An error of the client reaches Python with its classification; an empty body is an empty dictionary.\<close>

lemma extract_status:
  assumes "utf8 (c_str (message (make_error_code status)))"
  shows "\<exists>m. extract_response_json utf8 what message parse (Outcome_error (make_error_code status))
    = Inr (Py_Dict [(''error'', Py_Str m), (''transient'', Py_Bool True)])"
  using assms by (simp add: extract_response_json_def is_transient_def make_error_code_def http_category_name_def)

end
