(* ===== verification/Json_Body.thy ===== *)
theory Json_Body
  imports Server_Runtime Openapi
begin

text \<open>
  \<open>include/siesta/json_body.hpp\<close>: the body type of JSON messages. The serializer and the incremental parser
  are the JSON library's: parameters, with what their documentation promises of them as
  \<open>serializer_laws\<close> and \<open>parser_laws\<close>.
\<close>

section \<open>Writing\<close>

text \<open>\<open>sr_reset\<close> starts on a value, \<open>sr_read\<close> returns at most so many characters of the rest.\<close>

record 's serializer_lib =
  sr_reset :: "json \<Rightarrow> 's"
  sr_read :: "nat \<Rightarrow> 's \<Rightarrow> string \<times> 's"
  sr_done :: "'s \<Rightarrow> bool"

definition buffer_size :: nat where
  "buffer_size = 32768"

definition writer_init :: "'s serializer_lib \<Rightarrow> json \<Rightarrow> 's" where
  "writer_init lib body = sr_reset lib body"

text \<open>\<open>get\<close>: a piece, and whether there are more; it never fails.\<close>

definition writer_get :: "'s serializer_lib \<Rightarrow> 's \<Rightarrow> (string \<times> bool) \<times> 's" where
  "writer_get lib s = (case sr_read lib buffer_size s of (piece, s') \<Rightarrow> ((piece, \<not> sr_done lib s'), s'))"

text \<open>The pieces the HTTP serializer asks for, until there are no more; \<open>None\<close> when \<open>n\<close> calls do not do.\<close>

primrec write_body :: "'s serializer_lib \<Rightarrow> nat \<Rightarrow> 's \<Rightarrow> string list option" where
  "write_body lib 0 s = None"
| "write_body lib (Suc n) s =
     (case writer_get lib s of ((piece, again), s') \<Rightarrow>
        if again then map_option (\<lambda>ps. piece # ps) (write_body lib n s') else Some [piece])"

text \<open>\<open>text_of\<close> is the serialized form that is not written yet.\<close>

definition serializer_laws :: "(json \<Rightarrow> string) \<Rightarrow> ('s \<Rightarrow> string) \<Rightarrow> 's serializer_lib \<Rightarrow> bool" where
  "serializer_laws to_text text_of lib \<longleftrightarrow>
     (\<forall>j. text_of (sr_reset lib j) = to_text j)
   \<and> (\<forall>n s. fst (sr_read lib n s) = take n (text_of s) \<and> text_of (snd (sr_read lib n s)) = drop n (text_of s))
   \<and> (\<forall>s. sr_done lib s \<longleftrightarrow> text_of s = [])"

lemma write_body_pieces:
  assumes "serializer_laws to_text text_of lib"
  shows "length (text_of s) < buffer_size * n \<Longrightarrow>
    \<exists>ps. write_body lib n s = Some ps \<and> concat ps = text_of s \<and> (\<forall>p \<in> set ps. length p \<le> buffer_size)
      \<and> length ps \<le> Suc (length (text_of s) div buffer_size)"
proof (induction n arbitrary: s)
  case (Suc n)
  obtain piece s' where r: "sr_read lib buffer_size s = (piece, s')" by (cases "sr_read lib buffer_size s")
  then have p: "piece = take buffer_size (text_of s)" "text_of s' = drop buffer_size (text_of s)"
    using assms unfolding serializer_laws_def by (metis fst_conv, metis snd_conv)
  have d: "sr_done lib s' \<longleftrightarrow> text_of s' = []" using assms unfolding serializer_laws_def by blast
  show ?case
  proof (cases "text_of s' = []")
    case True
    then show ?thesis using p d by (simp add: writer_get_def r)
  next
    case False
    have big: "buffer_size \<le> length (text_of s)" using False p(2) by simp
    have "length (text_of s') < buffer_size * n" using Suc.prems big p(2) by simp
    from Suc.IH [OF this] obtain ps where
      ps: "write_body lib n s' = Some ps" "concat ps = text_of s'" "\<forall>p \<in> set ps. length p \<le> buffer_size"
      "length ps \<le> Suc (length (text_of s') div buffer_size)" by blast
    have "length (text_of s) div buffer_size = Suc (length (text_of s') div buffer_size)"
      using big p(2) by (simp add: le_div_geq buffer_size_def)
    then show ?thesis using ps p d False by (simp add: writer_get_def r)
  qed
qed simp

section \<open>Reading\<close>

record 'p parser_lib =
  pr_new :: "'p"
  pr_reset :: "64 word \<Rightarrow> 'p \<Rightarrow> 'p"
  pr_write_some :: "string \<Rightarrow> 'p \<Rightarrow> (nat \<times> error_code) \<times> 'p"
  pr_done :: "'p \<Rightarrow> bool"
  pr_release :: "'p \<Rightarrow> json"

record 'p body_reader =
  br_parser :: 'p
  br_body :: json

text \<open>The content length, when it is known, sizes the memory of the parser.\<close>

definition reader_init :: "'p parser_lib \<Rightarrow> 64 word option \<Rightarrow> 'p body_reader \<Rightarrow> error_code \<times> 'p body_reader" where
  "reader_init lib content_length r =
     (no_error, (case content_length of None \<Rightarrow> r | Some n \<Rightarrow> r\<lparr>br_parser := pr_reset lib n (br_parser r)\<rparr>))"

definition reader_put :: "'p parser_lib \<Rightarrow> string \<Rightarrow> 'p body_reader \<Rightarrow> (nat \<times> error_code) \<times> 'p body_reader" where
  "reader_put lib buf r = (case pr_write_some lib buf (br_parser r) of (res, p) \<Rightarrow> (res, r\<lparr>br_parser := p\<rparr>))"

definition reader_finish :: "'p parser_lib \<Rightarrow> error_code \<Rightarrow> 'p body_reader \<Rightarrow> error_code \<times> 'p body_reader" where
  "reader_finish lib incomplete r =
     (if pr_done lib (br_parser r) then (no_error, r\<lparr>br_body := pr_release lib (br_parser r)\<rparr>) else (incomplete, r))"

text \<open>The HTTP parser puts the pieces of the body one by one and stops at an error.\<close>

fun read_body :: "'p parser_lib \<Rightarrow> error_code \<Rightarrow> string list \<Rightarrow> 'p body_reader \<Rightarrow> error_code \<times> 'p body_reader" where
  "read_body lib incomplete [] r = reader_finish lib incomplete r"
| "read_body lib incomplete (b # ws) r =
     (case reader_put lib b r of ((n, ec), r') \<Rightarrow> if failed ec then (ec, r') else read_body lib incomplete ws r')"

text \<open>\<open>seen\<close> is what a parser was given; \<open>parse\<close> is defined for the texts after which it is done (a number
  outside of arrays and objects is none: more digits could follow); a text that begins one is taken
  without an error.\<close>

definition parser_laws :: "(string \<Rightarrow> json option) \<Rightarrow> ('p \<Rightarrow> string) \<Rightarrow> 'p parser_lib \<Rightarrow> bool" where
  "parser_laws parse seen lib \<longleftrightarrow>
     seen (pr_new lib) = [] \<and> (\<forall>n p. seen p = [] \<longrightarrow> seen (pr_reset lib n p) = [])
   \<and> (\<forall>b p. (\<exists>t. parse (seen p @ b @ t) \<noteq> None) \<longrightarrow>
        \<not> failed (snd (fst (pr_write_some lib b p))) \<and> seen (snd (pr_write_some lib b p)) = seen p @ b)
   \<and> (\<forall>p. pr_done lib p \<longleftrightarrow> parse (seen p) \<noteq> None)
   \<and> (\<forall>p j. parse (seen p) = Some j \<longrightarrow> pr_release lib p = j)"

lemma read_body_seen:
  assumes "parser_laws parse seen lib" and "parse (seen (br_parser r) @ concat ws @ t) = Some j" and "t = []"
  shows "\<exists>r'. read_body lib incomplete ws r = (no_error, r') \<and> br_body r' = j"
  using assms(2)
proof (induction ws arbitrary: r)
  case Nil
  then show ?case using assms(1,3) by (auto simp: reader_finish_def parser_laws_def)
next
  case (Cons b ws)
  obtain n ec p where w: "pr_write_some lib b (br_parser r) = ((n, ec), p)"
    by (metis prod.exhaust)
  have "\<exists>t. parse (seen (br_parser r) @ b @ t) \<noteq> None"
    using Cons.prems by (intro exI [of _ "concat ws @ t"]) simp
  with assms(1) have "\<not> failed ec" "seen p = seen (br_parser r) @ b"
    unfolding parser_laws_def using w by (metis fst_conv snd_conv)+
  then show ?case using Cons.IH [of "r\<lparr>br_parser := p\<rparr>"] Cons.prems by (simp add: reader_put_def w)
qed

section \<open>Writing and reading\<close>


text \<open>Libraries for the document \<open>null\<close>: the state is the text itself.\<close>

definition null_text :: "json \<Rightarrow> string" where
  "null_text j = ''null''"

definition null_parse :: "string \<Rightarrow> json option" where
  "null_parse s = (if s = ''null'' then Some J_Null else None)"

definition text_serializer :: "string serializer_lib" where
  "text_serializer = \<lparr>sr_reset = null_text, sr_read = (\<lambda>n s. (take n s, drop n s)), sr_done = (\<lambda>s. s = [])\<rparr>"

definition text_parser :: "string parser_lib" where
  "text_parser = \<lparr>pr_new = [], pr_reset = (\<lambda>n p. p), pr_write_some = (\<lambda>b p. ((length b, no_error), p @ b)),
     pr_done = (\<lambda>p. null_parse p \<noteq> None), pr_release = (\<lambda>p. J_Null)\<rparr>"


end
