(* ===== verification/Token_String.thy ===== *)
theory Token_String
  imports Siesta_Prelude "HOL-Library.Word"
begin

text \<open>
  \<open>include/siesta/tokenized_string.hpp\<close>: a string with the positions of its separators, kept as 16-bit
  integers, and the comparison of another string's separators with them.
\<close>

record tokenized_string =
  ts_str :: string
  ts_token_pos :: "16 word list"
  ts_sep :: char

text \<open>The loop of the constructor; \<open>prev\<close> is \<open>_token_pos.back()\<close>, or 0.\<close>

function token_loop :: "char \<Rightarrow> 16 word \<Rightarrow> string \<Rightarrow> 16 word list" where
  "token_loop sep prev sv =
     (case split1 sep sv of
        (t, None) \<Rightarrow> []
      | (t, Some rest) \<Rightarrow>
          (let w = of_nat (unat prev + length t + 1)
           in w # (if rest = [] then [] else token_loop sep w rest)))"
  by pat_completeness auto

termination by (relation "measure (\<lambda>(_, _, sv). length sv)") (auto dest: sym split1_length)

definition tokenized :: "string \<Rightarrow> char \<Rightarrow> tokenized_string" where
  "tokenized sv sep = \<lparr>ts_str = sv, ts_token_pos = token_loop sep 0 sv, ts_sep = sep\<rparr>"

text \<open>The loop of \<open>match\<close>: \<open>ws\<close> is what \<open>iter\<close> has before it, \<open>prev\<close> what is behind it. \<open>None\<close> is the
  dereferencing of the end of the vector.\<close>

function match_loop :: "char \<Rightarrow> 16 word \<Rightarrow> 16 word list \<Rightarrow> string \<Rightarrow> bool option" where
  "match_loop sep prev ws sv =
     (case split1 sep sv of
        (t, None) \<Rightarrow> Some True
      | (t, Some rest) \<Rightarrow>
          (case ws of
             [] \<Rightarrow> None
           | w # ws' \<Rightarrow>
               if unat prev + (length t + 1) \<noteq> unat w then Some False
               else if rest = [] then Some True
               else match_loop sep w ws' rest))"
  by pat_completeness auto

termination by (relation "measure (\<lambda>(_, _, _, sv). length sv)") (auto dest: sym split1_length)

definition ts_match :: "tokenized_string \<Rightarrow> string \<Rightarrow> bool option" where
  "ts_match ts sv = match_loop (ts_sep ts) 0 (ts_token_pos ts) sv"

declare token_loop.simps [simp del] match_loop.simps [simp del]

lemma token_loop_None: "split1 sep sv = (t, None) \<Longrightarrow> token_loop sep prev sv = []"
  by (simp add: token_loop.simps)

lemma token_loop_Some:
  "split1 sep sv = (t, Some rest) \<Longrightarrow> token_loop sep prev sv =
     of_nat (unat prev + length t + 1) # (if rest = [] then [] else token_loop sep (of_nat (unat prev + length t + 1)) rest)"
  by (subst token_loop.simps) (simp only: prod.case option.case Let_def)

lemma match_loop_None: "split1 sep sv = (t, None) \<Longrightarrow> match_loop sep prev ws sv = Some True"
  by (simp add: match_loop.simps)

lemma match_loop_Nil: "split1 sep sv = (t, Some rest) \<Longrightarrow> match_loop sep prev [] sv = None"
  by (simp add: match_loop.simps)

lemma match_loop_Cons:
  "split1 sep sv = (t, Some rest) \<Longrightarrow> match_loop sep prev (w # ws) sv =
     (if unat prev + (length t + 1) \<noteq> unat w then Some False
      else if rest = [] then Some True else match_loop sep w ws rest)"
  by (subst match_loop.simps) (simp only: prod.case option.case list.case)

section \<open>What is compared\<close>

text \<open>The positions behind the separators of a string that starts at \<open>n\<close>.\<close>

fun cuts :: "char \<Rightarrow> nat \<Rightarrow> string \<Rightarrow> nat list" where
  "cuts sep n [] = []"
| "cuts sep n (c # cs) = (if c = sep then [n + 1] else []) @ cuts sep (n + 1) cs"

lemma cuts_split1:
  "cuts sep n sv = (case split1 sep sv of (t, None) \<Rightarrow> [] | (t, Some rest) \<Rightarrow> (n + length t + 1) # cuts sep (n + length t + 1) rest)"
  by (induction sv arbitrary: n) (auto split: prod.splits option.splits)

lemma token_loop_cuts:
  "unat prev + length sv < 65536 \<Longrightarrow> map unat (token_loop sep prev sv) = cuts sep (unat prev) sv"
proof (induction sep prev sv rule: token_loop.induct)
  case (1 sep prev sv)
  obtain t r where t: "split1 sep sv = (t, r)" by (cases "split1 sep sv")
  show ?case
  proof (cases r)
    case None
    then show ?thesis using t cuts_split1 [of sep "unat prev" sv] by (simp add: token_loop_None)
  next
    case (Some rest)
    then have t: "split1 sep sv = (t, Some rest)" using t by simp
    then have sv: "sv = t @ sep # rest" using split1_SomeD by fast
    define w :: "16 word" where "w = of_nat (unat prev + length t + 1)"
    have w: "unat w = unat prev + length t + 1"
      using "1.prems" sv unfolding w_def unat_of_nat by (intro mod_less) simp
    have rest: "map unat (token_loop sep w rest) = cuts sep (unat w) rest" if "rest \<noteq> []"
      using "1.IH" [OF t [symmetric] refl w_def that] w "1.prems" sv by simp
    have "map unat (token_loop sep prev sv) = unat w # (if rest = [] then [] else map unat (token_loop sep w rest))"
      by (simp only: token_loop_Some [OF t] list.map if_distrib [of "map unat"] w_def [symmetric])
    then show ?thesis
      using rest cuts_split1 [of sep "unat prev" sv] by (simp add: t w)
  qed
qed

lemma match_loop_cuts:
  "match_loop sep prev ws sv =
     (let T = cuts sep (unat prev) sv; P = map unat ws
      in if prefix T P then Some True else if strict_prefix P T then None else Some False)"
proof (induction sep prev ws sv rule: match_loop.induct)
  case (1 sep prev ws sv)
  obtain t r where t: "split1 sep sv = (t, r)" by (cases "split1 sep sv")
  have c: "cuts sep (unat prev) sv = (case r of None \<Rightarrow> [] | Some rest \<Rightarrow> (unat prev + length t + 1) # cuts sep (unat prev + length t + 1) rest)"
    using cuts_split1 [of sep "unat prev" sv] by (simp only: t prod.case)
  show ?case
  proof (cases r)
    case None
    then show ?thesis using t c by (simp add: match_loop_None)
  next
    case (Some rest)
    then have t: "split1 sep sv = (t, Some rest)" using t by simp
    show ?thesis
    proof (cases ws)
      case Nil
      then show ?thesis using c Some by (simp add: match_loop_Nil [OF t] strict_prefix_def)
    next
      case (Cons w ws')
      show ?thesis
      proof (cases "unat prev + (length t + 1) = unat w \<and> rest \<noteq> []")
        case True
        then have "match_loop sep w ws' rest =
         (let T = cuts sep (unat w) rest; P = map unat ws'
          in if prefix T P then Some True else if strict_prefix P T then None else Some False)"
          using 1 [OF t [symmetric] refl Cons] by simp
        then show ?thesis using c Some Cons True by (simp add: match_loop_Cons [OF t] Let_def strict_prefix_def)
      next
        case False
        then show ?thesis using c Some Cons by (auto simp: match_loop_Cons [OF t] strict_prefix_def)
      qed
    qed
  qed
qed

text \<open>C0: for a string of less than 65536 characters, \<open>match\<close> compares the separators only: it holds when
  the separators of the argument stand where the first ones of the string do, is undefined when the
  argument has all the separators of the string and more, and fails otherwise.\<close>

theorem match_compares_cuts:
  assumes "length s < 65536"
  shows "ts_match (tokenized s sep) sv =
    (if prefix (cuts sep 0 sv) (cuts sep 0 s) then Some True
     else if strict_prefix (cuts sep 0 s) (cuts sep 0 sv) then None
     else Some False)"
  using token_loop_cuts [of 0 s sep] assms by (simp add: ts_match_def tokenized_def match_loop_cuts Let_def)

theorem match_compares_cuts_witness:
  "ts_match (tokenized ''/ab/c'' CHR ''/'') ''/xy/'' = Some True \<and> ts_match (tokenized ''/ab'' CHR ''/'') ''/xy/z'' = None"
  using match_compares_cuts [of "''/ab/c''" "CHR ''/''" "''/xy/''"] match_compares_cuts [of "''/ab''" "CHR ''/''" "''/xy/z''"]
  by (simp add: strict_prefix_def)

end
